(* ===== verification/Prelude.thy ===== *)
theory Prelude
  imports Main "HOL-Library.Sublist" "HOL-Library.Char_ord"
begin

text \<open>
  What every component of the library shares: the named fact collections, the names of the
  model's basic types, the operations of the C++ standard library on byte strings that the
  sources call (\<^verbatim>\<open>starts_with\<close>, \<^verbatim>\<open>find\<close>, the one-byte character classes), and the generic
  list and option lemmas the component proofs rest on.

  A \<^verbatim>\<open>std::string\<close> or \<^verbatim>\<open>std::string_view\<close> is a \<open>string\<close>: a list of \<open>char\<close>, which in HOL is
  exactly an 8-bit byte. Where the source reads a byte as \<^verbatim>\<open>unsigned char\<close> the model reads it
  with \<open>byte\<close>, a natural number below 256. Range tests of the source on plain \<^verbatim>\<open>char\<close> always
  have two ASCII bounds, so they agree with the unsigned order of \<open>Char_ord\<close> used here.
  The character classes are those of the C locale for the bytes below 128 and, as in the
  UTF-8 locales AVA runs in, classify no single byte above 127.
\<close>

named_theorems text_simps "facts on byte classes and string searches"
named_theorems scan_simps "one-step equations of the string-aware scanners"

section \<open>Bytes\<close>

abbreviation byte :: "char \<Rightarrow> nat" where
  "byte \<equiv> of_char"

abbreviation dquote :: char where
  "dquote \<equiv> CHR 0x22"

abbreviation squote :: char where
  "squote \<equiv> CHR 0x27"

abbreviation bslash :: char where
  "bslash \<equiv> CHR 0x5C"

lemma byte_less_256 [simp]: "byte c < 256"
  by (metis of_char_mod_256 mod_less_divisor zero_less_numeral)

lemma byte_le_255 [simp]: "byte c \<le> 255"
  using byte_less_256 [of c] by linarith

lemma char_less_eq_byte: "c \<le> d \<longleftrightarrow> byte c \<le> byte d"
  by (simp add: less_eq_char_def)

lemma char_less_byte: "c < d \<longleftrightarrow> byte c < byte d"
  by (simp add: less_char_def)

section \<open>Character classes of the C library\<close>

definition isspace :: "char \<Rightarrow> bool" where
  "isspace c \<longleftrightarrow> c = CHR '' '' \<or> c = CHR 0x09 \<or> c = CHR 0x0A \<or> c = CHR 0x0B \<or> c = CHR 0x0C \<or> c = CHR 0x0D"

definition isdigit :: "char \<Rightarrow> bool" where
  "isdigit c \<longleftrightarrow> CHR ''0'' \<le> c \<and> c \<le> CHR ''9''"

definition isupper :: "char \<Rightarrow> bool" where
  "isupper c \<longleftrightarrow> CHR ''A'' \<le> c \<and> c \<le> CHR ''Z''"

definition islower :: "char \<Rightarrow> bool" where
  "islower c \<longleftrightarrow> CHR ''a'' \<le> c \<and> c \<le> CHR ''z''"

definition isalpha :: "char \<Rightarrow> bool" where
  "isalpha c \<longleftrightarrow> isupper c \<or> islower c"

definition isalnum :: "char \<Rightarrow> bool" where
  "isalnum c \<longleftrightarrow> isalpha c \<or> isdigit c"

definition tolower :: "char \<Rightarrow> char" where
  "tolower c = (if isupper c then char_of (byte c + 32) else c)"

section \<open>String searches\<close>

text \<open>
  \<^verbatim>\<open>s.starts_with(p)\<close> is \<open>prefix p s\<close> and \<^verbatim>\<open>s.ends_with(p)\<close> is \<open>suffix p s\<close>, both executable in
  \<open>HOL-Library.Sublist\<close>. \<^verbatim>\<open>s.find(needle)\<close> is the index of the first occurrence, \<open>None\<close> for
  \<^verbatim>\<open>npos\<close>.
\<close>

fun str_find :: "string \<Rightarrow> string \<Rightarrow> nat option" where
  "str_find needle [] = (if needle = [] then Some 0 else None)"
| "str_find needle (c # s) =
     (if prefix needle (c # s) then Some 0 else map_option Suc (str_find needle s))"

definition str_contains :: "string \<Rightarrow> string \<Rightarrow> bool" where
  "str_contains needle s \<longleftrightarrow> str_find needle s \<noteq> None"

text \<open>\<^verbatim>\<open>s.find(needle, from)\<close>: the search starts at \<open>from\<close>; a start past the end finds nothing.\<close>

definition str_find_from :: "string \<Rightarrow> string \<Rightarrow> nat \<Rightarrow> nat option" where
  "str_find_from needle s from =
     (if from > length s then None else map_option (\<lambda>i. from + i) (str_find needle (drop from s)))"

lemma str_find_SomeD:
  "str_find needle s = Some i \<Longrightarrow> i \<le> length s \<and> prefix needle (drop i s)"
  by (induction needle s arbitrary: i rule: str_find.induct)
    (auto split: if_splits)

lemma str_find_first:
  "str_find needle s = Some i \<Longrightarrow> j < i \<Longrightarrow> \<not> prefix needle (drop j s)"
proof (induction needle s arbitrary: i j rule: str_find.induct)
  case (2 needle c s)
  then show ?case by (cases j) (auto split: if_splits)
qed (auto split: if_splits)

lemma str_find_NoneD:
  "str_find needle s = None \<Longrightarrow> j \<le> length s \<Longrightarrow> \<not> prefix needle (drop j s)"
proof (induction needle s arbitrary: j rule: str_find.induct)
  case (2 needle c s)
  then show ?case by (cases j) (auto split: if_splits)
qed (auto split: if_splits)

lemma str_contains_sublist: "str_contains needle s \<longleftrightarrow> sublist needle s"
proof
  assume "str_contains needle s"
  then obtain i where "str_find needle s = Some i"
    by (auto simp: str_contains_def)
  then obtain zs where "drop i s = needle @ zs"
    using str_find_SomeD by (fastforce simp: prefix_def)
  then have "s = take i s @ needle @ zs"
    by (metis append_take_drop_id)
  then show "sublist needle s"
    unfolding sublist_def by blast
next
  assume "sublist needle s"
  then obtain ps zs where s: "s = ps @ needle @ zs"
    unfolding sublist_def by blast
  show "str_contains needle s"
  proof (rule ccontr)
    assume "\<not> str_contains needle s"
    then have "str_find needle s = None"
      by (simp add: str_contains_def)
    then have "\<not> prefix needle (drop (length ps) s)"
      by (rule str_find_NoneD) (simp add: s)
    then show False by (simp add: s)
  qed
qed

lemma str_find_single:
  "str_find [c] s = Some i \<longleftrightarrow> i < length s \<and> s ! i = c \<and> (\<forall>j < i. s ! j \<noteq> c)"
proof (induction s arbitrary: i)
  case (Cons a s)
  show ?case
  proof (cases "a = c")
    case True
    then show ?thesis by auto
  next
    case False
    show ?thesis
    proof (cases i)
      case (Suc k)
      with False Cons.IH [of k] show ?thesis
        by (auto simp: less_Suc_eq_0_disj)
    qed (use False in auto)
  qed
qed auto

section \<open>Lists and options\<close>

definition starts_with :: "string \<Rightarrow> string \<Rightarrow> bool" where
  "starts_with s p \<longleftrightarrow> prefix p s"

definition ends_with :: "string \<Rightarrow> string \<Rightarrow> bool" where
  "ends_with s p \<longleftrightarrow> suffix p s"

lemma starts_with_append [simp]: "starts_with (p @ s) p"
  by (simp add: starts_with_def)

lemma starts_with_Nil [simp]: "starts_with s []"
  by (simp add: starts_with_def)

lemma starts_with_iff: "starts_with s p \<longleftrightarrow> (\<exists>t. s = p @ t)"
  by (auto simp: starts_with_def prefix_def)

lemma drop_nth_Cons: "i < length xs \<Longrightarrow> drop i xs = xs ! i # drop (Suc i) xs"
  by (simp add: Cons_nth_drop_Suc)

lemma dropWhile_le: "length (dropWhile P xs) \<le> length xs"
  by (rule length_dropWhile_le)

lemma dropWhile_append_all: "(\<And>x. x \<in> set w \<Longrightarrow> P x) \<Longrightarrow> dropWhile P (w @ r) = dropWhile P r"
  by simp

lemma dropWhile_stop: "(r = [] \<or> \<not> P (hd r)) \<Longrightarrow> dropWhile P r = r"
  by (cases r) auto

lemma dropWhile_split: "\<exists>w. (\<forall>x \<in> set w. P x) \<and> xs = w @ dropWhile P xs"
  by (rule exI [where x = "takeWhile P xs"]) (auto dest: set_takeWhileD)

lemma Some_bind_iff [simp]: "Option.bind m f = Some y \<longleftrightarrow> (\<exists>x. m = Some x \<and> f x = Some y)"
  by (cases m) auto

end
