(* ===== verification/Text_Core.thy ===== *)
theory Text_Core
  imports Prelude
begin

text \<open>
  The byte primitives of \<^verbatim>\<open>src/ava/core\<close>: byte classes and trimming (\<^verbatim>\<open>ascii.h\<close>,
  \<^verbatim>\<open>string_utils.cpp\<close>, \<^verbatim>\<open>text_case.h\<close>) and hexadecimal digits (\<^verbatim>\<open>hex.h\<close>).
\<close>

unbundle bit_operations_syntax

section \<open>Bytes and trimming\<close>

definition is_c0_or_del :: "char \<Rightarrow> bool" where
  "is_c0_or_del c \<longleftrightarrow> byte c < 0x20 \<or> byte c = 0x7f"

fun has_c0_or_del :: "string \<Rightarrow> bool" where
  "has_c0_or_del [] = False"
| "has_c0_or_del (c # s) = (if is_c0_or_del c then True else has_c0_or_del s)"

definition is_ascii_space :: "char \<Rightarrow> bool" where
  "is_ascii_space c \<longleftrightarrow> c = CHR '' '' \<or> c = CHR 0x09 \<or> c = CHR 0x0A \<or> c = CHR 0x0D \<or> c = CHR 0x0C \<or> c = CHR 0x0B"

text \<open>Dropping from the back is dropping from the front of the reversed string.\<close>

definition drop_back_while :: "(char \<Rightarrow> bool) \<Rightarrow> string \<Rightarrow> string" where
  "drop_back_while P s = rev (dropWhile P (rev s))"

definition ascii_trim :: "string \<Rightarrow> string" where
  "ascii_trim s = drop_back_while is_ascii_space (dropWhile is_ascii_space s)"

definition trim_view :: "string \<Rightarrow> string" where
  "trim_view s = drop_back_while isspace (dropWhile isspace s)"

definition strip_matching_quotes :: "string \<Rightarrow> string" where
  "strip_matching_quotes s =
     (if length s \<ge> 2 \<and> ((hd s = dquote \<and> last s = dquote) \<or> (hd s = squote \<and> last s = squote))
      then butlast (tl s) else s)"

definition ascii_lower :: "char \<Rightarrow> char" where
  "ascii_lower c = (if CHR ''A'' \<le> c \<and> c \<le> CHR ''Z'' then char_of (byte c + (byte CHR ''a'' - byte CHR ''A'')) else c)"

definition ascii_lower_copy :: "string \<Rightarrow> string" where
  "ascii_lower_copy s = map ascii_lower s"

definition locale_lower_copy :: "string \<Rightarrow> string" where
  "locale_lower_copy s = map tolower s"

lemma has_c0_or_del_iff [text_simps]: "has_c0_or_del s \<longleftrightarrow> (\<exists>c \<in> set s. is_c0_or_del c)"
  by (induction s) auto

section \<open>Hexadecimal digits\<close>

definition hex_digit_value :: "char \<Rightarrow> int" where
  "hex_digit_value c =
     (if CHR ''0'' \<le> c \<and> c \<le> CHR ''9'' then int (byte c) - int (byte CHR ''0'')
      else if CHR ''a'' \<le> c \<and> c \<le> CHR ''f'' then int (byte c) - int (byte CHR ''a'') + 10
      else if CHR ''A'' \<le> c \<and> c \<le> CHR ''F'' then int (byte c) - int (byte CHR ''A'') + 10
      else -1)"

definition is_hex_digit :: "char \<Rightarrow> bool" where
  "is_hex_digit c \<longleftrightarrow> hex_digit_value c \<ge> 0"

definition hex_digits :: string where
  "hex_digits = ''0123456789abcdef''"

fun hex_encode :: "string \<Rightarrow> string" where
  "hex_encode [] = []"
| "hex_encode (c # s) = hex_digits ! (drop_bit 4 (byte c)) # hex_digits ! (byte c AND 0x0f) # hex_encode s"

end
