(* ===== verification/Core_Error.thy ===== *)
theory Core_Error
  imports Text_Core
begin

text \<open>
  Errors as values and the agent's mode: \<^verbatim>\<open>core/error.cpp\<close>, \<^verbatim>\<open>core/result.h\<close> and \<^verbatim>\<open>core/mode.cpp\<close>.
  A \<^verbatim>\<open>Result<T>\<close> is a sum whose left side is the error.
\<close>

datatype error_category =
  InvalidArgument | Io | NotFound | PermissionDenied | Configuration | Provider | Session | Tool | Unknown

datatype error_code = Unspecified | Canceled | ProviderEventLimit | BodyOutputLimit | FileSizeLimit

record ava_error =
  err_category :: error_category
  err_code :: error_code
  err_message :: string
  err_context :: "(string \<times> string) list"

type_synonym 'a ava_result = "ava_error + 'a"

definition make_error :: "error_category \<Rightarrow> string \<Rightarrow> ava_error" where
  "make_error category message =
     \<lparr>err_category = category, err_code = Unspecified, err_message = message, err_context = []\<rparr>"

definition with_context :: "ava_error \<Rightarrow> string \<Rightarrow> string \<Rightarrow> ava_error" where
  "with_context e key v = e\<lparr>err_context := err_context e @ [(key, v)]\<rparr>"

fun category_to_string :: "error_category \<Rightarrow> string" where
  "category_to_string InvalidArgument = ''invalid_argument''"
| "category_to_string Io = ''io''"
| "category_to_string NotFound = ''not_found''"
| "category_to_string PermissionDenied = ''permission_denied''"
| "category_to_string Configuration = ''configuration''"
| "category_to_string Provider = ''provider''"
| "category_to_string Session = ''session''"
| "category_to_string Tool = ''tool''"
| "category_to_string Unknown = ''unknown''"

definition format_error :: "ava_error \<Rightarrow> string" where
  "format_error e =
     category_to_string (err_category e) @ '': '' @ err_message e @
     concat (map (\<lambda>(key, v). CHR 0x0A # ''  '' @ key @ '': '' @ v) (err_context e))"

datatype mode = Build | Plan

fun mode_to_string :: "mode \<Rightarrow> string" where
  "mode_to_string Build = ''build''"
| "mode_to_string Plan = ''plan''"

definition parse_mode :: "string \<Rightarrow> mode ava_result" where
  "parse_mode v =
     (if v = ''build'' then Inr Build
      else if v = ''plan'' then Inr Plan
      else Inl (with_context (make_error InvalidArgument ''unknown mode'') ''mode'' v))"

definition toggle_mode :: "mode \<Rightarrow> mode" where
  "toggle_mode m = (if m = Build then Plan else Build)"

lemma parse_mode_to_string: "parse_mode (mode_to_string m) = Inr m"
  by (cases m) (simp_all add: parse_mode_def)

lemma toggle_mode_twice: "toggle_mode (toggle_mode m) = m"
  by (cases m) (simp_all add: toggle_mode_def)

end
