(* ===== verification/Command_Intent.thy ===== *)
theory Command_Intent
  imports Core_Error
begin

text \<open>
  Command requests before planning, \<^verbatim>\<open>command/intent.cpp\<close>: the limits, the compatibility parser
  that turns one line of shell text into an argument vector (or sends it to the raw-shell
  lane), the validation of structured vectors, and the three constructors of an intent.

  The parser's loop carries the quoting state, the argument under construction, whether it
  has started, and what has been parsed so far; an escape consumes two bytes of the suffix.
  Lengths are compared as in the source; the byte counts it adds up stay far below the
  width of a machine word because every request is bounded first.
\<close>

section \<open>Limits\<close>

record command_limits =
  max_request_bytes :: nat
  max_argument_bytes :: nat
  max_argv_entries :: nat
  max_path_entries :: nat
  max_path_bytes :: nat
  max_shebang_bytes :: nat
  max_shebang_depth :: nat

definition default_limits :: command_limits where
  "default_limits = \<lparr>max_request_bytes = 16 * 1024, max_argument_bytes = 4 * 1024, max_argv_entries = 128,
     max_path_entries = 64, max_path_bytes = 16 * 1024, max_shebang_bytes = 512, max_shebang_depth = 4\<rparr>"

definition command_error :: "error_category \<Rightarrow> string \<Rightarrow> string \<Rightarrow> string \<Rightarrow> ava_error" where
  "command_error category message field v =
     (let e = make_error category message in if field \<noteq> [] then with_context e field v else e)"

abbreviation invalid_command :: "string \<Rightarrow> ava_error" where
  "invalid_command message \<equiv> command_error InvalidArgument message [] []"

definition has_forbidden_path_byte :: "string \<Rightarrow> bool" where
  "has_forbidden_path_byte p = has_c0_or_del p"

definition invalid_limit :: "nat \<Rightarrow> nat \<Rightarrow> bool" where
  "invalid_limit v hard_max \<longleftrightarrow> v = 0 \<or> v > hard_max"

definition validate_limits :: "command_limits \<Rightarrow> unit ava_result" where
  "validate_limits l =
     (if invalid_limit (max_request_bytes l) (16 * 1024) \<or> invalid_limit (max_argument_bytes l) (4 * 1024)
         \<or> invalid_limit (max_argv_entries l) 128 \<or> invalid_limit (max_path_entries l) 64
         \<or> invalid_limit (max_path_bytes l) (16 * 1024) \<or> invalid_limit (max_shebang_bytes l) 512
         \<or> invalid_limit (max_shebang_depth l) 4
      then Inl (invalid_command ''command limits must be non-zero and within fixed safety bounds'')
      else Inr ())"

definition exceeds_limit :: "nat \<Rightarrow> nat \<Rightarrow> nat \<Rightarrow> bool" where
  "exceeds_limit current addition limit \<longleftrightarrow> current > limit \<or> addition > limit - current"

section \<open>Words of the shell\<close>

definition is_shell_metacharacter :: "char \<Rightarrow> bool" where
  "is_shell_metacharacter ch \<longleftrightarrow> ch \<in> set ('';&|<>`$()*?[]{}~#!'')"

definition is_assignment_word :: "string \<Rightarrow> bool" where
  "is_assignment_word v =
     (case str_find ''='' v of
        None \<Rightarrow> False
      | Some eq \<Rightarrow>
          if eq = 0 then False
          else if \<not> isalpha (hd v) \<and> hd v \<noteq> CHR ''_'' then False
          else list_all (\<lambda>ch. isalnum ch \<or> ch = CHR ''_'') (take (eq - 1) (drop 1 v)))"

definition kShellWords :: "string list" where
  "kShellWords =
    [''.'', '':'', ''alias'', ''bg'', ''bind'', ''break'', ''builtin'', ''caller'', ''case'', ''cd'', ''chdir'', ''command'', ''compgen'',
     ''complete'', ''compopt'', ''continue'', ''coproc'', ''declare'', ''dirs'', ''disown'', ''do'', ''done'', ''echo'', ''elif'', ''else'', ''enable'',
     ''esac'', ''eval'', ''exec'', ''exit'', ''export'', ''false'', ''fc'', ''fg'', ''fi'', ''for'', ''function'', ''getopts'', ''hash'',
     ''help'', ''history'', ''if'', ''in'', ''jobs'', ''kill'', ''let'', ''local'', ''logout'', ''mapfile'', ''popd'', ''printf'', ''pushd'',
     ''pwd'', ''read'', ''readarray'', ''readonly'', ''return'', ''select'', ''set'', ''shift'', ''shopt'', ''source'', ''suspend'', ''test'', ''then'',
     ''time'', ''times'', ''trap'', ''true'', ''type'', ''typeset'', ''ulimit'', ''umask'', ''unalias'', ''unset'', ''until'', ''wait'', ''while'']"

definition is_shell_command_position_word :: "string \<Rightarrow> bool" where
  "is_shell_command_position_word v \<longleftrightarrow> v \<in> set kShellWords"

section \<open>The compatibility parser\<close>

datatype quote = QNone | QSingle | QDouble

record compatibility_parse =
  cp_argv :: "string list"
  cp_requires_raw_shell :: bool

record parse_state =
  ps_argv :: "string list"
  ps_raw :: bool
  ps_current :: string
  ps_quote :: quote
  ps_started :: bool

definition append_current :: "command_limits \<Rightarrow> parse_state \<Rightarrow> parse_state ava_result" where
  "append_current l st =
     (if \<not> ps_started st then Inr st
      else if length (ps_current st) > max_argument_bytes l then
        Inl (invalid_command ''command argument exceeds the bounded field size'')
      else if length (ps_argv st) \<ge> max_argv_entries l then
        Inl (invalid_command ''command request has too many argv entries'')
      else Inr (st\<lparr>ps_argv := ps_argv st @ [ps_current st], ps_current := [], ps_started := False\<rparr>))"

definition push_char :: "char \<Rightarrow> parse_state \<Rightarrow> parse_state" where
  "push_char ch st = st\<lparr>ps_current := ps_current st @ [ch], ps_started := True\<rparr>"

definition unterminated_escape :: ava_error where
  "unterminated_escape = invalid_command ''command request contains an unterminated escape''"

fun parse_loop :: "command_limits \<Rightarrow> parse_state \<Rightarrow> string \<Rightarrow> parse_state ava_result" where
  "parse_loop l st [] = Inr st"
| "parse_loop l st (ch # r) =
     (case ps_quote st of
        QSingle \<Rightarrow>
          if ch = squote then parse_loop l (st\<lparr>ps_quote := QNone, ps_started := True\<rparr>) r
          else parse_loop l (push_char ch st) r
      | QDouble \<Rightarrow>
          if ch = dquote then parse_loop l (st\<lparr>ps_quote := QNone, ps_started := True\<rparr>) r
          else if ch = CHR ''$'' \<or> ch = CHR ''`'' then parse_loop l (push_char ch (st\<lparr>ps_raw := True\<rparr>)) r
          else if ch = bslash then
            (case r of
               [] \<Rightarrow> Inl unterminated_escape
             | next # r2 \<Rightarrow>
                 if next = CHR ''$'' \<or> next = CHR ''`'' \<or> next = dquote \<or> next = bslash then parse_loop l (push_char next st) r2
                 else parse_loop l (push_char next (push_char bslash st)) r2)
          else parse_loop l (push_char ch st) r
      | QNone \<Rightarrow>
          if ch = bslash then
            (case r of
               [] \<Rightarrow> Inl unterminated_escape
             | next # r2 \<Rightarrow> parse_loop l (push_char next st) r2)
          else if ch = squote then parse_loop l (st\<lparr>ps_quote := QSingle, ps_started := True\<rparr>) r
          else if ch = dquote then parse_loop l (st\<lparr>ps_quote := QDouble, ps_started := True\<rparr>) r
          else if is_shell_metacharacter ch then parse_loop l (push_char ch (st\<lparr>ps_raw := True\<rparr>)) r
          else if isspace ch then
            (case append_current l st of
               Inl e \<Rightarrow> Inl e
             | Inr st2 \<Rightarrow> parse_loop l st2 r)
          else parse_loop l (push_char ch st) r)"

definition initial_parse :: parse_state where
  "initial_parse = \<lparr>ps_argv = [], ps_raw = False, ps_current = [], ps_quote = QNone, ps_started = False\<rparr>"

definition finish_parse :: "command_limits \<Rightarrow> parse_state \<Rightarrow> compatibility_parse ava_result" where
  "finish_parse l st =
     (if ps_quote st \<noteq> QNone then Inl (invalid_command ''command request contains an unterminated quote'')
      else
        (case append_current l st of
           Inl e \<Rightarrow> Inl e
         | Inr st2 \<Rightarrow>
             if ps_argv st2 = [] then Inl (invalid_command ''command request must encode a non-empty executable argument'')
             else if hd (ps_argv st2) = [] then Inl (invalid_command ''command request has an ambiguous empty executable argument'')
             else Inr \<lparr>cp_argv = ps_argv st2,
                       cp_requires_raw_shell = (ps_raw st2 \<or> is_assignment_word (hd (ps_argv st2))
                                                 \<or> is_shell_command_position_word (hd (ps_argv st2)))\<rparr>))"

definition parse_compatibility_command :: "string \<Rightarrow> command_limits \<Rightarrow> compatibility_parse ava_result" where
  "parse_compatibility_command cmd l =
     (case validate_limits l of
        Inl e \<Rightarrow> Inl e
      | Inr _ \<Rightarrow>
          if cmd = [] then Inl (invalid_command ''command request must not be empty'')
          else if length cmd > max_request_bytes l then Inl (invalid_command ''command request exceeds the bounded input size'')
          else if has_c0_or_del cmd then Inl (invalid_command ''command request contains a NUL or forbidden control byte'')
          else (case parse_loop l initial_parse cmd of Inl e \<Rightarrow> Inl e | Inr st \<Rightarrow> finish_parse l st))"

section \<open>Structured vectors\<close>

fun structured_loop :: "command_limits \<Rightarrow> nat \<Rightarrow> string list \<Rightarrow> unit ava_result" where
  "structured_loop l total_size [] = Inr ()"
| "structured_loop l total_size (argument # rest) =
     (if length argument > max_argument_bytes l then
        Inl (invalid_command ''structured command argument exceeds the bounded field size'')
      else if has_c0_or_del argument then
        Inl (invalid_command ''structured command argument contains a NUL or forbidden control byte'')
      else if exceeds_limit total_size (length argument) (max_request_bytes l) then
        Inl (invalid_command ''structured command exceeds the bounded request size'')
      else structured_loop l (total_size + length argument) rest)"

definition validate_structured_argv :: "string list \<Rightarrow> command_limits \<Rightarrow> unit ava_result" where
  "validate_structured_argv argv l =
     (case validate_limits l of
        Inl e \<Rightarrow> Inl e
      | Inr _ \<Rightarrow>
          if argv = [] then Inl (invalid_command ''structured command argv must not be empty'')
          else if length argv > max_argv_entries l then Inl (invalid_command ''structured command has too many argv entries'')
          else if hd argv = [] then Inl (invalid_command ''structured command has an ambiguous empty executable argument'')
          else structured_loop l 0 argv)"

definition validate_raw_shell :: "string \<Rightarrow> command_limits \<Rightarrow> unit ava_result" where
  "validate_raw_shell shell_text l =
     (case parse_compatibility_command shell_text l of Inl e \<Rightarrow> Inl e | Inr _ \<Rightarrow> Inr ())"

section \<open>Intents\<close>

datatype command_intent_lane = Compatibility | StructuredArgv | RawShellLane

record command_intent =
  ci_lane :: command_intent_lane
  ci_argv :: "string list"
  ci_cwd :: "string option"
  ci_source_text :: string

definition intent_compatibility :: "string \<Rightarrow> command_limits \<Rightarrow> command_intent ava_result" where
  "intent_compatibility cmd l =
     (case parse_compatibility_command cmd l of
        Inl e \<Rightarrow> Inl e
      | Inr parsed \<Rightarrow>
          if cp_requires_raw_shell parsed then
            Inr \<lparr>ci_lane = RawShellLane, ci_argv = [], ci_cwd = None, ci_source_text = cmd\<rparr>
          else Inr \<lparr>ci_lane = Compatibility, ci_argv = cp_argv parsed, ci_cwd = None, ci_source_text = cmd\<rparr>)"

definition intent_structured :: "string list \<Rightarrow> string option \<Rightarrow> command_limits \<Rightarrow> command_intent ava_result" where
  "intent_structured argv cwd l =
     (case validate_structured_argv argv l of
        Inl e \<Rightarrow> Inl e
      | Inr _ \<Rightarrow>
          (case cwd of
             Some d \<Rightarrow>
               if d = [] \<or> has_forbidden_path_byte d \<or> length d > max_path_bytes l then
                 Inl (command_error InvalidArgument ''structured command cwd must be non-empty, safe, and within its bound'' ''cwd'' d)
               else Inr \<lparr>ci_lane = StructuredArgv, ci_argv = argv, ci_cwd = cwd, ci_source_text = []\<rparr>
           | None \<Rightarrow> Inr \<lparr>ci_lane = StructuredArgv, ci_argv = argv, ci_cwd = cwd, ci_source_text = []\<rparr>))"

definition intent_raw_shell :: "string \<Rightarrow> command_limits \<Rightarrow> command_intent ava_result" where
  "intent_raw_shell shell_text l =
     (case validate_raw_shell shell_text l of
        Inl e \<Rightarrow> Inl e
      | Inr _ \<Rightarrow> Inr \<lparr>ci_lane = RawShellLane, ci_argv = [], ci_cwd = None, ci_source_text = shell_text\<rparr>)"

definition has_argv :: "command_intent \<Rightarrow> bool" where
  "has_argv i \<longleftrightarrow> ci_lane i \<noteq> RawShellLane"

end
