(* ===== verification/Command_Line.thy ===== *)
theory Command_Line
  imports Command_Intent
begin

text \<open>
  Correctness of the command requests of \<^verbatim>\<open>command/intent.cpp\<close>: the quoting language of the
  compatibility parser as a grammar of words and pieces, the proof that the parser accepts
  exactly that language and returns its values, and the bounds every argument vector meets.
\<close>

section \<open>The quoting grammar\<close>

text \<open>
  Shell words as a grammar. A word is a sequence of pieces: a plain byte, an escaped byte, a
  single-quoted string, or a double-quoted string, in which a byte is plain, escaped, or kept
  with its backslash. A line is words separated by blanks.
\<close>

datatype dpiece = DPlain char | DEsc char | DKeep char

datatype piece = Plain char | Esc char | Single string | Double "dpiece list"

fun dpiece_text :: "dpiece \<Rightarrow> string" where
  "dpiece_text (DPlain c) = [c]"
| "dpiece_text (DEsc c) = [bslash, c]"
| "dpiece_text (DKeep c) = [bslash, c]"

fun dpiece_value :: "dpiece \<Rightarrow> string" where
  "dpiece_value (DPlain c) = [c]"
| "dpiece_value (DEsc c) = [c]"
| "dpiece_value (DKeep c) = [bslash, c]"

fun dpiece_ok :: "dpiece \<Rightarrow> bool" where
  "dpiece_ok (DPlain c) \<longleftrightarrow> c \<notin> {CHR ''$'', CHR ''`'', dquote, bslash}"
| "dpiece_ok (DEsc c) \<longleftrightarrow> c \<in> {CHR ''$'', CHR ''`'', dquote, bslash}"
| "dpiece_ok (DKeep c) \<longleftrightarrow> c \<notin> {CHR ''$'', CHR ''`'', dquote, bslash}"

fun piece_text :: "piece \<Rightarrow> string" where
  "piece_text (Plain c) = [c]"
| "piece_text (Esc c) = [bslash, c]"
| "piece_text (Single s) = squote # s @ [squote]"
| "piece_text (Double ds) = dquote # concat (map dpiece_text ds) @ [dquote]"

fun piece_value :: "piece \<Rightarrow> string" where
  "piece_value (Plain c) = [c]"
| "piece_value (Esc c) = [c]"
| "piece_value (Single s) = s"
| "piece_value (Double ds) = concat (map dpiece_value ds)"

fun piece_ok :: "piece \<Rightarrow> bool" where
  "piece_ok (Plain c) \<longleftrightarrow> c \<notin> {bslash, squote, dquote} \<and> \<not> is_shell_metacharacter c \<and> \<not> isspace c"
| "piece_ok (Esc c) = True"
| "piece_ok (Single s) \<longleftrightarrow> squote \<notin> set s"
| "piece_ok (Double ds) = list_all dpiece_ok ds"

definition word_text :: "piece list \<Rightarrow> string" where
  "word_text w = concat (map piece_text w)"

definition word_value :: "piece list \<Rightarrow> string" where
  "word_value w = concat (map piece_value w)"

definition blanks :: "string \<Rightarrow> bool" where
  "blanks s \<longleftrightarrow> s \<noteq> [] \<and> list_all isspace s"

text \<open>The rest of a line behind a word: blanks and a word, repeatedly, and blanks or nothing at the end.\<close>

inductive rest_line :: "string \<Rightarrow> piece list list \<Rightarrow> bool" where
  rest_end: "list_all isspace s \<Longrightarrow> rest_line s []"
| rest_word: "blanks b \<Longrightarrow> w \<noteq> [] \<Longrightarrow> list_all piece_ok w \<Longrightarrow> rest_line r ws \<Longrightarrow> rest_line (b @ word_text w @ r) (w # ws)"

definition shell_line :: "string \<Rightarrow> piece list list \<Rightarrow> bool" where
  "shell_line s ws \<longleftrightarrow>
     (\<exists>b w r us. s = b @ word_text w @ r \<and> list_all isspace b \<and> w \<noteq> [] \<and> list_all piece_ok w \<and> rest_line r us \<and> ws = w # us)"

section \<open>Stepping over pieces\<close>

definition add_value :: "string \<Rightarrow> parse_state \<Rightarrow> parse_state" where
  "add_value v st = st\<lparr>ps_current := ps_current st @ v, ps_started := True, ps_quote := QNone\<rparr>"

lemma loop_single:
  "squote \<notin> set s \<Longrightarrow> ps_quote st = QSingle \<Longrightarrow> parse_loop l st (s @ squote # r) = parse_loop l (add_value s st) r"
proof (induction s arbitrary: st)
  case (Cons c s)
  then show ?case by (cases st) (auto simp: push_char_def add_value_def)
next
  case Nil
  then show ?case by (cases st) (simp add: add_value_def)
qed

lemma loop_double:
  "list_all dpiece_ok ds \<Longrightarrow> ps_quote st = QDouble \<Longrightarrow>
   parse_loop l st (concat (map dpiece_text ds) @ dquote # r) = parse_loop l (add_value (concat (map dpiece_value ds)) st) r"
proof (induction ds arbitrary: st)
  case (Cons d ds)
  then show ?case by (cases st; cases d) (auto simp: push_char_def add_value_def)
next
  case Nil
  then show ?case by (cases st) (simp add: add_value_def)
qed

lemma add_value_quote [simp]: "ps_quote (add_value v st) = QNone"
  by (simp add: add_value_def)

lemma loop_piece:
  assumes "piece_ok p" "ps_quote st = QNone"
  shows "parse_loop l st (piece_text p @ r) = parse_loop l (add_value (piece_value p) st) r"
proof (cases p)
  case (Single s)
  then show ?thesis
    using assms loop_single [of s "st\<lparr>ps_quote := QSingle, ps_started := True\<rparr>" l r] by (simp add: add_value_def)
next
  case (Double ds)
  then show ?thesis
    using assms loop_double [of ds "st\<lparr>ps_quote := QDouble, ps_started := True\<rparr>" l r] by (simp add: add_value_def)
next
  case (Plain c)
  with assms show ?thesis by (cases st) (auto simp: push_char_def add_value_def)
next
  case (Esc c)
  with assms show ?thesis by (cases st) (simp add: push_char_def add_value_def)
qed

lemma add_value_twice: "add_value u (add_value v st) = add_value (v @ u) st"
  by (simp add: add_value_def)

lemma loop_word:
  "list_all piece_ok w \<Longrightarrow> w \<noteq> [] \<Longrightarrow> ps_quote st = QNone \<Longrightarrow>
   parse_loop l st (word_text w @ r) = parse_loop l (add_value (word_value w) st) r"
proof (induction w arbitrary: st)
  case (Cons p w)
  then show ?case
    by (cases "w = []") (simp_all add: word_text_def word_value_def loop_piece add_value_twice)
qed simp

lemma isspace_plain: "isspace c \<Longrightarrow> c \<noteq> bslash \<and> c \<noteq> squote \<and> c \<noteq> dquote \<and> \<not> is_shell_metacharacter c"
  by (auto simp: isspace_def is_shell_metacharacter_def)

lemma loop_blanks_idle:
  "list_all isspace b \<Longrightarrow> ps_quote st = QNone \<Longrightarrow> \<not> ps_started st \<Longrightarrow> parse_loop l st (b @ r) = parse_loop l st r"
  by (induction b) (auto simp: append_current_def dest: isspace_plain)

lemma append_current_idle: "append_current l st = Inr st2 \<Longrightarrow> \<not> ps_started st2 \<and> ps_quote st2 = ps_quote st \<and> ps_raw st2 = ps_raw st"
  by (auto simp: append_current_def split: if_splits)

lemma loop_blanks:
  assumes "blanks b" "ps_quote st = QNone"
  shows "parse_loop l st (b @ r) = (case append_current l st of Inl e \<Rightarrow> Inl e | Inr st2 \<Rightarrow> parse_loop l st2 r)"
proof -
  obtain c bs where b: "b = c # bs" "isspace c" "list_all isspace bs" using assms(1) by (cases b) (auto simp: blanks_def)
  then show ?thesis
    using assms(2) isspace_plain [OF b(2)] loop_blanks_idle [OF b(3)] append_current_idle [of l st]
    by (auto split: sum.splits)
qed

section \<open>The parser accepts the lines of the grammar\<close>

definition argv_within :: "command_limits \<Rightarrow> string list \<Rightarrow> bool" where
  "argv_within l vs \<longleftrightarrow> length vs \<le> max_argv_entries l \<and> list_all (\<lambda>v. length v \<le> max_argument_bytes l) vs"

text \<open>The loop ends outside quotes, without a raw-shell mark, and the pending word is stored.\<close>

definition finishes :: "command_limits \<Rightarrow> parse_state \<Rightarrow> string \<Rightarrow> string list \<Rightarrow> bool" where
  "finishes l st r argv \<longleftrightarrow>
     (\<exists>st1 st2. parse_loop l st r = Inr st1 \<and> ps_quote st1 = QNone \<and> append_current l st1 = Inr st2 \<and> ps_argv st2 = argv \<and> \<not> ps_raw st2)"

lemma append_current_started:
  assumes "ps_started st" "length (ps_current st) \<le> max_argument_bytes l" "length (ps_argv st) < max_argv_entries l"
  shows "append_current l st = Inr (st\<lparr>ps_argv := ps_argv st @ [ps_current st], ps_current := [], ps_started := False\<rparr>)"
  using assms by (simp add: append_current_def)

lemma rest_line_finishes:
  "rest_line r ws \<Longrightarrow> ps_quote st = QNone \<Longrightarrow> ps_started st \<Longrightarrow> \<not> ps_raw st \<Longrightarrow>
   argv_within l (ps_argv st @ ps_current st # map word_value ws) \<Longrightarrow>
   finishes l st r (ps_argv st @ ps_current st # map word_value ws)"
proof (induction arbitrary: st rule: rest_line.induct)
  case (rest_end s)
  then have ac: "append_current l st = Inr (st\<lparr>ps_argv := ps_argv st @ [ps_current st], ps_current := [], ps_started := False\<rparr>)"
    by (intro append_current_started) (auto simp: argv_within_def)
  show ?case
  proof (cases "s = []")
    case True
    then show ?thesis using rest_end ac by (simp add: finishes_def)
  next
    case False
    then have "parse_loop l st (s @ []) = Inr (st\<lparr>ps_argv := ps_argv st @ [ps_current st], ps_current := [], ps_started := False\<rparr>)"
      using rest_end loop_blanks [of s st l "[]"] ac by (simp add: blanks_def)
    then show ?thesis using rest_end by (simp add: finishes_def append_current_def)
  qed
next
  case (rest_word b w r ws)
  define st2 where "st2 = st\<lparr>ps_argv := ps_argv st @ [ps_current st], ps_current := [], ps_started := False\<rparr>"
  have "append_current l st = Inr st2"
    unfolding st2_def using rest_word by (intro append_current_started) (auto simp: argv_within_def)
  then have "parse_loop l st (b @ word_text w @ r) = parse_loop l st2 (word_text w @ r)"
    using loop_blanks [OF rest_word(1)] rest_word by simp
  also have "\<dots> = parse_loop l (add_value (word_value w) st2) r"
    using rest_word by (intro loop_word) (simp_all add: st2_def)
  finally have "parse_loop l st (b @ word_text w @ r) = parse_loop l (add_value (word_value w) st2) r" .
  moreover have "finishes l (add_value (word_value w) st2) r (ps_argv st @ ps_current st # word_value w # map word_value ws)"
    using rest_word(5) [of "add_value (word_value w) st2"] rest_word by (simp add: add_value_def st2_def)
  ultimately show ?case by (simp add: finishes_def)
qed

lemma shell_line_finishes:
  assumes "shell_line s ws" "argv_within l (map word_value ws)"
  shows "finishes l initial_parse s (map word_value ws)"
proof -
  obtain b w r us where s: "s = b @ word_text w @ r" "list_all isspace b" "w \<noteq> []" "list_all piece_ok w" "rest_line r us" "ws = w # us"
    using assms(1) by (auto simp: shell_line_def)
  have "parse_loop l initial_parse s = parse_loop l (add_value (word_value w) initial_parse) r"
    using s(2-4) by (simp add: s(1) loop_blanks_idle loop_word initial_parse_def)
  moreover have "finishes l (add_value (word_value w) initial_parse) r (map word_value ws)"
    using rest_line_finishes [OF s(5), of "add_value (word_value w) initial_parse" l] assms(2)
    by (simp add: s(6) add_value_def initial_parse_def)
  ultimately show ?thesis by (simp add: finishes_def)
qed

section \<open>The parser accepts nothing else\<close>

lemma push_char_simps [simp]:
  "ps_quote (push_char c st) = ps_quote st" "ps_raw (push_char c st) = ps_raw st" "ps_argv (push_char c st) = ps_argv st"
  by (simp_all add: push_char_def)

lemma loop_invariant:
  assumes push: "\<And>st c. P st \<Longrightarrow> P (push_char c st)"
    and quote: "\<And>st q. P st \<Longrightarrow> P (st\<lparr>ps_quote := q, ps_started := True\<rparr>)"
    and raw: "\<And>st. P st \<Longrightarrow> P (st\<lparr>ps_raw := True\<rparr>)"
    and app: "\<And>st st2. P st \<Longrightarrow> append_current l st = Inr st2 \<Longrightarrow> P st2"
  shows "parse_loop l st r = Inr st1 \<Longrightarrow> P st \<Longrightarrow> P st1"
proof (induction r arbitrary: st rule: length_induct)
  case (1 r)
  have IH: "P st1" if "parse_loop l st' u = Inr st1" "length u < length r" "P st'" for u st'
    using 1(1) that by blast
  show ?case
  proof (cases r)
    case Nil
    then show ?thesis using 1 by simp
  next
    case (Cons c t)
    from 1(2) [unfolded Cons, unfolded parse_loop.simps(2)] \<open>P st\<close> show ?thesis
      by (simp del: parse_loop.simps(2) split: quote.splits if_splits list.splits sum.splits)
        (auto elim!: IH simp del: parse_loop.simps(2) simp: Cons intro: push quote raw app)
  qed
qed

lemma raw_stays: "parse_loop l st r = Inr st1 \<Longrightarrow> ps_raw st \<Longrightarrow> ps_raw st1"
  by (erule loop_invariant [where P = ps_raw, rotated 4]) (auto dest: append_current_idle)

lemma single_split:
  "parse_loop l st r = Inr st1 \<Longrightarrow> ps_quote st = QSingle \<Longrightarrow> ps_quote st1 = QNone \<Longrightarrow> \<exists>s r2. r = s @ squote # r2 \<and> squote \<notin> set s"
proof (rule ccontr)
  assume a: "parse_loop l st r = Inr st1" "ps_quote st = QSingle" "ps_quote st1 = QNone"
  assume "\<nexists>s r2. r = s @ squote # r2 \<and> squote \<notin> set s"
  then have "squote \<notin> set r" using split_list_first by metis
  then have "ps_quote st1 = QSingle" using a(1,2)
    by (induction r arbitrary: st) (auto simp: push_char_def)
  with a(3) show False by simp
qed

lemma double_split:
  "parse_loop l st r = Inr st1 \<Longrightarrow> ps_quote st = QDouble \<Longrightarrow> ps_quote st1 = QNone \<Longrightarrow> \<not> ps_raw st1 \<Longrightarrow>
   \<exists>ds r2. r = concat (map dpiece_text ds) @ dquote # r2 \<and> list_all dpiece_ok ds"
proof (induction r arbitrary: st rule: length_induct)
  case (1 r)
  obtain c t where r: "r = c # t" using 1 by (cases r) auto
  have step: "\<exists>ds r2. c # t = concat (map dpiece_text ds) @ dquote # r2 \<and> list_all dpiece_ok ds"
    if "dpiece_ok d" "c # t = dpiece_text d @ u" "parse_loop l st' u = Inr st1" "ps_quote st' = QDouble" for d u st'
  proof -
    note facts = that
    have "length u < length r" using facts(2) r by (cases d) auto
    then obtain ds r2 where "u = concat (map dpiece_text ds) @ dquote # r2" "list_all dpiece_ok ds"
      using 1(1) facts(3,4) 1(4,5) by blast
    then show ?thesis using that(1,2) by (intro exI [where x = "d # ds"] exI [where x = r2]) simp
  qed
  have loop: "parse_loop l st (c # t) = Inr st1" using 1(2) r by simp
  consider "c = dquote" | "c = CHR ''$'' \<or> c = CHR ''`''" | "c = bslash" | "dpiece_ok (DPlain c)" by auto
  then show ?case
  proof cases
    case 1
    then show ?thesis unfolding r by (intro exI [where x = "[]"] exI [where x = t]) simp
  next
    case 2
    then have "ps_raw st1" using loop \<open>ps_quote st = QDouble\<close> by (auto elim!: raw_stays)
    then show ?thesis using \<open>\<not> ps_raw st1\<close> by simp
  next
    case 3
    then obtain n u where t: "t = n # u" using loop \<open>ps_quote st = QDouble\<close> by (cases t) auto
    show ?thesis
    proof (cases "dpiece_ok (DEsc n)")
      case True
      then show ?thesis unfolding r using loop \<open>ps_quote st = QDouble\<close> 3 t
        by (intro step [of "DEsc n" u "push_char n st"]) auto
    next
      case False
      then show ?thesis unfolding r using loop \<open>ps_quote st = QDouble\<close> 3 t
        by (intro step [of "DKeep n" u "push_char n (push_char bslash st)"]) auto
    qed
  next
    case 4
    then show ?thesis unfolding r using loop \<open>ps_quote st = QDouble\<close>
      by (intro step [of "DPlain c" t "push_char c st"]) auto
  qed
qed

lemma rest_line_blank: "rest_line r us \<Longrightarrow> isspace c \<Longrightarrow> rest_line (c # r) us"
proof (induction rule: rest_line.induct)
  case (rest_end s)
  then show ?case by (intro rest_line.rest_end) simp
next
  case (rest_word b w r ws)
  then have "rest_line ((c # b) @ word_text w @ r) (w # ws)" by (intro rest_line.rest_word) (simp_all add: blanks_def)
  then show ?case by simp
qed

lemma append_current_idle_argv: "append_current l st = Inr st2 \<Longrightarrow> ps_current st2 = (if ps_started st then [] else ps_current st)
    \<and> ps_argv st2 = ps_argv st @ (if ps_started st then [ps_current st] else [])"
  by (auto simp: append_current_def split: if_splits)

lemma word_Cons [simp]: "word_text (p # w) = piece_text p @ word_text w" "word_value (p # w) = piece_value p @ word_value w"
  "word_text [] = []" "word_value [] = []"
  by (simp_all add: word_text_def word_value_def)

text \<open>The line behind a state in the middle of a word: the rest of the word, then further words.\<close>

definition continues :: "parse_state \<Rightarrow> string \<Rightarrow> string list \<Rightarrow> bool" where
  "continues st r argv \<longleftrightarrow>
     (\<exists>w r2 us. r = word_text w @ r2 \<and> list_all piece_ok w \<and> rest_line r2 us
        \<and> argv = ps_argv st @ (if ps_started st \<or> w \<noteq> [] then [ps_current st @ word_value w] else []) @ map word_value us)"

lemma continues_piece:
  assumes "piece_ok p" "continues (add_value (piece_value p) st) r argv"
  shows "continues st (piece_text p @ r) argv"
proof -
  obtain w r2 us where "r = word_text w @ r2" "list_all piece_ok w" "rest_line r2 us"
    "argv = ps_argv st @ [(ps_current st @ piece_value p) @ word_value w] @ map word_value us"
    using assms(2) by (auto simp: continues_def add_value_def)
  then show ?thesis using assms(1) unfolding continues_def
    by (intro exI [where x = "p # w"] exI [where x = r2] exI [where x = us]) simp
qed

lemma continues_blank:
  assumes "isspace c" "append_current l st = Inr st2" "continues st2 r argv" "\<not> ps_started st \<Longrightarrow> ps_current st = []"
  shows "continues st (c # r) argv"
proof -
  have st2: "\<not> ps_started st2" "ps_current st2 = []" "ps_argv st2 = ps_argv st @ (if ps_started st then [ps_current st] else [])"
    using append_current_idle [OF assms(2)] append_current_idle_argv [OF assms(2)] assms(4) by auto
  obtain w r2 us where w: "r = word_text w @ r2" "list_all piece_ok w" "rest_line r2 us"
    "argv = ps_argv st2 @ (if w \<noteq> [] then [word_value w] else []) @ map word_value us"
    using assms(3) st2 by (auto simp: continues_def)
  have "rest_line (c # r) (if w = [] then us else w # us)"
    using rest_line_blank [OF w(3) assms(1)] rest_line.rest_word [of "[c]" w r2 us] w assms(1) by (simp add: blanks_def)
  then show ?thesis unfolding continues_def using w(4) st2(3)
    by (intro exI [where x = "[]"] exI [where x = "c # r"] exI [where x = "if w = [] then us else w # us"]) simp
qed

lemma finishes_continues:
  "finishes l st r argv \<Longrightarrow> ps_quote st = QNone \<Longrightarrow> (\<not> ps_started st \<Longrightarrow> ps_current st = []) \<Longrightarrow> continues st r argv"
proof (induction r arbitrary: st rule: length_induct)
  case (1 r)
  note idle = 1(4) and none = 1(3)
  have piece: "continues st (piece_text p @ u) argv"
    if "piece_ok p" "r = piece_text p @ u" for p u
  proof -
    have "length u < length r" using that(2) by (cases p) auto
    moreover have "finishes l (add_value (piece_value p) st) u argv"
      using 1(2) loop_piece [OF that(1) none, of l u] that(2) by (simp add: finishes_def)
    ultimately have "continues (add_value (piece_value p) st) u argv" using 1(1) by (simp add: add_value_def)
    then show ?thesis by (rule continues_piece [OF that(1)])
  qed
  show ?case
  proof (cases r)
    case Nil
    then obtain st2 where "append_current l st = Inr st2" "argv = ps_argv st2" using 1(2) by (auto simp: finishes_def)
    then show ?thesis using append_current_idle_argv Nil unfolding continues_def
      by (intro exI [where x = "[]"] exI [where x = "[]"]) (simp add: rest_line.rest_end)
  next
    case (Cons c t)
    obtain st1 st2 where fin: "parse_loop l st (c # t) = Inr st1" "ps_quote st1 = QNone" "append_current l st1 = Inr st2"
        "ps_argv st2 = argv" "\<not> ps_raw st2" using 1(2) Cons by (auto simp: finishes_def)
    then have nraw: "\<not> ps_raw st1" using append_current_idle by blast
    consider "c = bslash" | "c = squote" | "c = dquote" | "is_shell_metacharacter c \<and> c \<notin> {bslash, squote, dquote}"
      | "isspace c" | "piece_ok (Plain c)" using isspace_plain by auto
    then show ?thesis
    proof cases
      case 1
      then obtain n u where "t = n # u" using fin(1) none by (cases t) auto
      then show ?thesis using piece [of "Esc n" u] Cons 1 by simp
    next
      case 2
      then obtain s u where "t = s @ squote # u" "squote \<notin> set s"
        using fin none single_split [of l "st\<lparr>ps_quote := QSingle, ps_started := True\<rparr>" t st1] by auto
      then show ?thesis using piece [of "Single s" u] Cons 2 by simp
    next
      case 3
      then obtain ds u where "t = concat (map dpiece_text ds) @ dquote # u" "list_all dpiece_ok ds"
        using fin none nraw double_split [of l "st\<lparr>ps_quote := QDouble, ps_started := True\<rparr>" t st1] by auto
      then show ?thesis using piece [of "Double ds" u] Cons 3 by simp
    next
      case 4
      then have "ps_raw st1" using fin(1) none by (auto elim!: raw_stays)
      with nraw show ?thesis by simp
    next
      case 5
      then obtain st3 where st3: "append_current l st = Inr st3" "parse_loop l st3 t = Inr st1"
        using fin(1) none isspace_plain [OF 5] by (auto split: sum.splits)
      then have "finishes l st3 t argv" using fin by (auto simp: finishes_def)
      then have "continues st3 t argv"
        using 1(1) Cons append_current_idle [OF st3(1)] append_current_idle_argv [OF st3(1)] none idle by auto
      then show ?thesis unfolding Cons by (intro continues_blank [OF 5 st3(1)]) (use idle in auto)
    next
      case 6
      then show ?thesis using piece [of "Plain c" t] Cons by simp
    qed
  qed
qed

lemma append_current_within:
  "append_current l st = Inr t \<Longrightarrow> argv_within l (ps_argv st) \<Longrightarrow> argv_within l (ps_argv t)"
  by (auto simp: append_current_def argv_within_def split: if_splits)

lemma argv_stays_within:
  assumes "parse_loop l initial_parse r = Inr st1" "append_current l st1 = Inr st2"
  shows "argv_within l (ps_argv st2)"
proof -
  have "argv_within l (ps_argv initial_parse)" by (simp add: initial_parse_def argv_within_def)
  with assms(1) have "argv_within l (ps_argv st1)"
    by (rule loop_invariant [where P = "\<lambda>st. argv_within l (ps_argv st)", rotated 4]) (auto intro: append_current_within)
  then show ?thesis using append_current_within assms(2) by blast
qed

lemma finishes_iff_shell_line:
  assumes "argv \<noteq> []"
  shows "finishes l initial_parse s argv \<longleftrightarrow> argv_within l argv \<and> (\<exists>ws. shell_line s ws \<and> argv = map word_value ws)"
proof
  assume fin: "finishes l initial_parse s argv"
  then have "continues initial_parse s argv" by (rule finishes_continues) (simp_all add: initial_parse_def)
  then obtain w r2 us where w: "s = word_text w @ r2" "list_all piece_ok w" "rest_line r2 us"
      "argv = (if w \<noteq> [] then [word_value w] else []) @ map word_value us"
    by (auto simp: continues_def initial_parse_def)
  have "\<exists>ws. shell_line s ws \<and> argv = map word_value ws"
  proof (cases "w = []")
    case False
    then show ?thesis using w by (intro exI [where x = "w # us"]) (force simp: shell_line_def)
  next
    case True
    then have "us \<noteq> []" using w assms by auto
    with w(3) obtain b v r3 vs where v: "r2 = b @ word_text v @ r3" "us = v # vs" "blanks b" "v \<noteq> []" "list_all piece_ok v" "rest_line r3 vs"
      by (auto elim: rest_line.cases)
    have "shell_line s us" unfolding shell_line_def using v w(1) True
      by (intro exI [where x = b] exI [where x = v] exI [where x = r3] exI [where x = vs]) (simp add: blanks_def)
    then show ?thesis using w(4) True by auto
  qed
  with fin show "argv_within l argv \<and> (\<exists>ws. shell_line s ws \<and> argv = map word_value ws)"
    by (auto simp: finishes_def dest: argv_stays_within)
next
  assume "argv_within l argv \<and> (\<exists>ws. shell_line s ws \<and> argv = map word_value ws)"
  then show "finishes l initial_parse s argv" using shell_line_finishes by blast
qed

definition starts_direct :: "string list \<Rightarrow> bool" where
  "starts_direct argv \<longleftrightarrow> argv \<noteq> [] \<and> hd argv \<noteq> [] \<and> \<not> is_assignment_word (hd argv) \<and> \<not> is_shell_command_position_word (hd argv)"

lemma finish_parse_direct:
  "(\<exists>st. parse_loop l initial_parse s = Inr st \<and> finish_parse l st = Inr \<lparr>cp_argv = argv, cp_requires_raw_shell = False\<rparr>)
     \<longleftrightarrow> starts_direct argv \<and> finishes l initial_parse s argv"
proof
  assume "\<exists>st. parse_loop l initial_parse s = Inr st \<and> finish_parse l st = Inr \<lparr>cp_argv = argv, cp_requires_raw_shell = False\<rparr>"
  then obtain st where st: "parse_loop l initial_parse s = Inr st"
      "finish_parse l st = Inr \<lparr>cp_argv = argv, cp_requires_raw_shell = False\<rparr>" by blast
  then obtain st2 where "append_current l st = Inr st2" "ps_quote st = QNone"
    by (auto simp: finish_parse_def split: sum.split_asm if_split_asm)
  with st show "starts_direct argv \<and> finishes l initial_parse s argv"
    by (auto simp: finish_parse_def finishes_def starts_direct_def split: if_split_asm)
next
  assume "starts_direct argv \<and> finishes l initial_parse s argv"
  then show "\<exists>st. parse_loop l initial_parse s = Inr st \<and> finish_parse l st = Inr \<lparr>cp_argv = argv, cp_requires_raw_shell = False\<rparr>"
    by (auto simp: finish_parse_def finishes_def starts_direct_def)
qed

lemma intent_compatibility_direct:
  assumes "validate_limits l = Inr ()"
  shows "intent_compatibility cmd l = Inr \<lparr>ci_lane = Compatibility, ci_argv = argv, ci_cwd = None, ci_source_text = cmd\<rparr>
    \<longleftrightarrow> cmd \<noteq> [] \<and> length cmd \<le> max_request_bytes l \<and> \<not> has_c0_or_del cmd \<and> starts_direct argv \<and> finishes l initial_parse cmd argv"
proof -
  have "intent_compatibility cmd l = Inr \<lparr>ci_lane = Compatibility, ci_argv = argv, ci_cwd = None, ci_source_text = cmd\<rparr>
    \<longleftrightarrow> parse_compatibility_command cmd l = Inr \<lparr>cp_argv = argv, cp_requires_raw_shell = False\<rparr>"
    by (auto simp: intent_compatibility_def split: sum.splits if_splits)
  also have "\<dots> \<longleftrightarrow> cmd \<noteq> [] \<and> length cmd \<le> max_request_bytes l \<and> \<not> has_c0_or_del cmd
      \<and> (\<exists>st. parse_loop l initial_parse cmd = Inr st \<and> finish_parse l st = Inr \<lparr>cp_argv = argv, cp_requires_raw_shell = False\<rparr>)"
    using assms by (simp add: parse_compatibility_command_def split: sum.splits)
  also note finish_parse_direct
  finally show ?thesis by simp
qed

lemma shell_line_nonempty: "shell_line s ws \<Longrightarrow> s \<noteq> [] \<and> ws \<noteq> []"
proof -
  have "word_text w \<noteq> []" if "w \<noteq> []" for w
  proof (cases w)
    case (Cons p v)
    then show ?thesis by (cases p) simp_all
  qed (use that in simp)
  then show "shell_line s ws \<Longrightarrow> s \<noteq> [] \<and> ws \<noteq> []" by (auto simp: shell_line_def)
qed

text \<open>
  C36: for valid limits, a compatibility request becomes a directly executed argument vector exactly
  when it is within the request bound and free of control bytes and is a line of the quoting
  grammar, without any unquoted shell metacharacter or expansion, whose words have that vector
  as values, within the argument bounds, and whose first word is non-empty and neither an
  assignment nor a shell word.
\<close>

theorem intent_compatibility_iff_shell_line:
  assumes "validate_limits l = Inr ()"
  shows "intent_compatibility cmd l = Inr \<lparr>ci_lane = Compatibility, ci_argv = argv, ci_cwd = None, ci_source_text = cmd\<rparr>
    \<longleftrightarrow> length cmd \<le> max_request_bytes l \<and> \<not> has_c0_or_del cmd \<and> starts_direct argv
      \<and> argv_within l argv \<and> (\<exists>ws. shell_line cmd ws \<and> argv = map word_value ws)"
  unfolding intent_compatibility_direct [OF assms] using finishes_iff_shell_line [of argv l cmd] shell_line_nonempty
  by (auto simp: starts_direct_def)

theorem intent_compatibility_iff_shell_line_witness:
  "validate_limits default_limits = Inr () \<and>
   (intent_compatibility ''ls \"a b\"'' default_limits
      = Inr \<lparr>ci_lane = Compatibility, ci_argv = [''ls'', ''a b''], ci_cwd = None, ci_source_text = ''ls \"a b\"''\<rparr>
    \<longleftrightarrow> length ''ls \"a b\"'' \<le> max_request_bytes default_limits \<and> \<not> has_c0_or_del ''ls \"a b\"'' \<and> starts_direct [''ls'', ''a b'']
      \<and> argv_within default_limits [''ls'', ''a b''] \<and> (\<exists>ws. shell_line ''ls \"a b\"'' ws \<and> [''ls'', ''a b''] = map word_value ws))
   \<and> intent_compatibility ''ls \"a b\"'' default_limits
      = Inr \<lparr>ci_lane = Compatibility, ci_argv = [''ls'', ''a b''], ci_cwd = None, ci_source_text = ''ls \"a b\"''\<rparr>"
proof (intro conjI)
  show v: "validate_limits default_limits = Inr ()" by code_simp
  have c: "\<not> has_c0_or_del ''ls \"a b\"''" by code_simp
  define st where "st = \<lparr>ps_argv = [''ls''], ps_raw = False, ps_current = ''a b'', ps_quote = QNone, ps_started = True\<rparr>"
  have p: "parse_loop default_limits initial_parse ''ls \"a b\"'' = Inr st"
    by (simp add: initial_parse_def append_current_def push_char_def is_shell_metacharacter_def isspace_def default_limits_def st_def)
  have f: "finish_parse default_limits st = Inr \<lparr>cp_argv = [''ls'', ''a b''], cp_requires_raw_shell = False\<rparr>"
    by (simp add: st_def finish_parse_def append_current_def default_limits_def is_assignment_word_def is_shell_command_position_word_def kShellWords_def)
  show "intent_compatibility ''ls \"a b\"'' default_limits
      = Inr \<lparr>ci_lane = Compatibility, ci_argv = [''ls'', ''a b''], ci_cwd = None, ci_source_text = ''ls \"a b\"''\<rparr>"
    using v c by (simp add: intent_compatibility_def parse_compatibility_command_def p f default_limits_def [THEN arg_cong [of _ _ max_request_bytes], simplified] del: parse_loop.simps has_c0_or_del.simps)
  show "intent_compatibility ''ls \"a b\"'' default_limits
      = Inr \<lparr>ci_lane = Compatibility, ci_argv = [''ls'', ''a b''], ci_cwd = None, ci_source_text = ''ls \"a b\"''\<rparr>
    \<longleftrightarrow> length ''ls \"a b\"'' \<le> max_request_bytes default_limits \<and> \<not> has_c0_or_del ''ls \"a b\"'' \<and> starts_direct [''ls'', ''a b'']
      \<and> argv_within default_limits [''ls'', ''a b''] \<and> (\<exists>ws. shell_line ''ls \"a b\"'' ws \<and> [''ls'', ''a b''] = map word_value ws)"
    by (rule intent_compatibility_iff_shell_line [OF v])
qed

section \<open>Bounds\<close>

lemma word_value_bytes: "set (word_value w) \<subseteq> set (word_text w) \<and> length (word_value w) \<le> length (word_text w)"
proof (induction w)
  case (Cons p w)
  have d: "set (concat (map dpiece_value ds)) \<subseteq> set (concat (map dpiece_text ds))
      \<and> length (concat (map dpiece_value ds)) \<le> length (concat (map dpiece_text ds))" for ds
  proof (induction ds)
    case (Cons e ds)
    then show ?case by (cases e) auto
  qed simp
  have "set (piece_value p) \<subseteq> set (piece_text p) \<and> length (piece_value p) \<le> length (piece_text p)"
    using d by (cases p) (simp_all add: subset_insertI2 le_SucI)
  then show ?case using Cons by (simp add: add_mono subset_iff)
qed simp

lemma rest_line_bytes:
  "rest_line r ws \<Longrightarrow> (\<forall>w \<in> set ws. set (word_value w) \<subseteq> set r) \<and> sum_list (map (length \<circ> word_value) ws) \<le> length r"
proof (induction rule: rest_line.induct)
  case (rest_word b w r ws)
  then show ?case using word_value_bytes [of w] by (auto 0 3)
qed simp

lemma shell_line_bytes:
  "shell_line r ws \<Longrightarrow> (\<forall>w \<in> set ws. set (word_value w) \<subseteq> set r) \<and> sum_list (map (length \<circ> word_value) ws) \<le> length r"
proof -
  assume "shell_line r ws"
  then obtain b w r2 us where "r = b @ word_text w @ r2" "rest_line r2 us" "ws = w # us" by (auto simp: shell_line_def)
  then show ?thesis using word_value_bytes [of w] rest_line_bytes [of r2 us] by (auto 0 3)
qed

definition argv_bounded :: "command_limits \<Rightarrow> string list \<Rightarrow> bool" where
  "argv_bounded l argv \<longleftrightarrow> argv \<noteq> [] \<and> hd argv \<noteq> [] \<and> argv_within l argv \<and> list_all (\<lambda>a. \<not> has_c0_or_del a) argv
     \<and> sum_list (map length argv) \<le> max_request_bytes l"

lemma structured_loop_ok:
  "structured_loop l n argv = Inr () \<longleftrightarrow> list_all (\<lambda>a. length a \<le> max_argument_bytes l \<and> \<not> has_c0_or_del a) argv
     \<and> (argv = [] \<or> n + sum_list (map length argv) \<le> max_request_bytes l)"
proof (induction argv arbitrary: n)
  case (Cons a argv)
  show ?case by (cases "argv = []") (auto simp: Cons exceeds_limit_def)
qed simp

lemma validate_structured_argv_iff:
  "validate_structured_argv argv l = Inr () \<longleftrightarrow> validate_limits l = Inr () \<and> argv_bounded l argv"
proof (cases "validate_limits l")
  case (Inr u)
  then show ?thesis
    by (auto simp: validate_structured_argv_def structured_loop_ok argv_bounded_def argv_within_def list_all_iff)
qed (simp add: validate_structured_argv_def)

lemma limits_bounded: "validate_limits l = Inr u \<Longrightarrow> max_request_bytes l \<le> 16384 \<and> max_argument_bytes l \<le> 4096 \<and> max_argv_entries l \<le> 128"
  by (auto simp: validate_limits_def invalid_limit_def split: if_split_asm)

lemma compatibility_bounded:
  assumes "intent_compatibility cmd l = Inr i" "has_argv i"
  shows "validate_limits l = Inr () \<and> argv_bounded l (ci_argv i)"
proof -
  have v: "validate_limits l = Inr ()"
    using assms(1) by (cases "validate_limits l") (auto simp: intent_compatibility_def parse_compatibility_command_def)
  obtain argv where i: "i = \<lparr>ci_lane = Compatibility, ci_argv = argv, ci_cwd = None, ci_source_text = cmd\<rparr>"
    using assms by (auto simp: intent_compatibility_def has_argv_def split: sum.split_asm if_split_asm)
  have fin: "length cmd \<le> max_request_bytes l" "\<not> has_c0_or_del cmd" "starts_direct argv" "finishes l initial_parse cmd argv"
    using assms(1) intent_compatibility_direct [OF v, of cmd argv] by (simp_all add: i)
  then obtain ws where ws: "shell_line cmd ws" "argv = map word_value ws" "argv_within l argv"
    using finishes_iff_shell_line [of argv l cmd] by (auto simp: starts_direct_def)
  have "list_all (\<lambda>a. \<not> has_c0_or_del a) argv"
    using shell_line_bytes [OF ws(1)] fin(2) by (auto simp: ws(2) list_all_iff has_c0_or_del_iff)
  then show ?thesis using v fin ws shell_line_bytes [OF ws(1)]
    by (simp add: argv_bounded_def i starts_direct_def comp_def)
qed

text \<open>
  C37: an intent that carries an argument vector, built by either constructor, has a non-empty
  executable argument, at most 128 arguments of at most 4096 bytes without control bytes, and
  at most 16384 bytes in all.
\<close>

theorem intent_argv_bounded:
  assumes "intent_compatibility cmd l = Inr i \<or> intent_structured argv cwd l = Inr i" "has_argv i"
  shows "argv_bounded l (ci_argv i) \<and> max_request_bytes l \<le> 16384 \<and> max_argument_bytes l \<le> 4096 \<and> max_argv_entries l \<le> 128"
proof (cases "intent_compatibility cmd l = Inr i")
  case True
  then show ?thesis using compatibility_bounded assms(2) limits_bounded by blast
next
  case False
  then have "validate_structured_argv argv l = Inr () \<and> ci_argv i = argv"
    using assms(1) by (auto simp: intent_structured_def split: sum.split_asm option.split_asm if_split_asm)
  then show ?thesis using validate_structured_argv_iff limits_bounded by blast
qed

theorem intent_argv_bounded_witness:
  "argv_bounded default_limits [''ls'', ''-l''] \<and> max_request_bytes default_limits \<le> 16384
     \<and> max_argument_bytes default_limits \<le> 4096 \<and> max_argv_entries default_limits \<le> 128"
proof -
  have "intent_structured [''ls'', ''-l''] None default_limits
      = Inr \<lparr>ci_lane = StructuredArgv, ci_argv = [''ls'', ''-l''], ci_cwd = None, ci_source_text = []\<rparr>" by code_simp
  then show ?thesis
    using intent_argv_bounded [of "[]" default_limits
      "\<lparr>ci_lane = StructuredArgv, ci_argv = [''ls'', ''-l''], ci_cwd = None, ci_source_text = []\<rparr>" "[''ls'', ''-l'']" None]
    by (simp add: has_argv_def)
qed

end
