(* ===== verification/Paths.thy ===== *)
theory Paths
  imports Text_Core
begin

text \<open>
  The operations of \<^verbatim>\<open>std::filesystem::path\<close> that the sources use, for POSIX paths as libstdc++
  implements them, and on top of them \<^verbatim>\<open>core/path.cpp\<close> and \<^verbatim>\<open>core/process_args.cpp\<close>.

  A path is its text. Its parts are what iterating over it yields: the root directory, the
  names between separators (repeated separators count once), and an empty last part when
  the text ends in a separator. The lexical operations work on the names.

  The main facts: an absolute path in normal form is determined by its names, none of which
  is a dot or dot-dot, and a normalized path is lexically inside a normalized root exactly
  when the root's names are a prefix of its names.
\<close>

section \<open>Parts of a path\<close>

abbreviation slash :: char where
  "slash \<equiv> CHR ''/''"

fun split_slash :: "string \<Rightarrow> string list" where
  "split_slash [] = [[]]"
| "split_slash (c # s) =
     (if c = slash then [] # split_slash s
      else (case split_slash s of [] \<Rightarrow> [[c]] | w # ws \<Rightarrow> (c # w) # ws))"

definition path_names :: "string \<Rightarrow> string list" where
  "path_names p = filter (\<lambda>w. w \<noteq> []) (split_slash p)"

definition is_absolute :: "string \<Rightarrow> bool" where
  "is_absolute p \<longleftrightarrow> p \<noteq> [] \<and> hd p = slash"

definition trailing_separator :: "string \<Rightarrow> bool" where
  "trailing_separator p \<longleftrightarrow> path_names p \<noteq> [] \<and> last p = slash"

definition path_parts :: "string \<Rightarrow> string list" where
  "path_parts p =
     (if is_absolute p then [''/''] else []) @ path_names p @ (if trailing_separator p then [[]] else [])"

text \<open>\<^verbatim>\<open>operator==\<close> compares the components, so repeated separators do not matter.\<close>

definition path_eq :: "string \<Rightarrow> string \<Rightarrow> bool" where
  "path_eq p q \<longleftrightarrow> path_parts p = path_parts q"

lemma path_eq_refl [simp]: "path_eq p p"
  by (simp add: path_eq_def)

definition path_filename :: "string \<Rightarrow> string" where
  "path_filename p = last (split_slash p)"

text \<open>\<^verbatim>\<open>a / b\<close>: an absolute right side replaces; a separator is added behind a file name.\<close>

definition path_append :: "string \<Rightarrow> string \<Rightarrow> string" where
  "path_append p q =
     (if is_absolute q then q
      else if path_filename p \<noteq> [] then p @ slash # q
      else p @ q)"

fun join_slash :: "string list \<Rightarrow> string" where
  "join_slash [] = []"
| "join_slash [w] = w"
| "join_slash (w # ws) = w @ slash # join_slash ws"

section \<open>Normal form\<close>

text \<open>One part at a time; \<open>stack\<close> is the reversed list of names kept so far.\<close>

fun normal_step :: "bool \<Rightarrow> string list \<Rightarrow> string list \<Rightarrow> string list" where
  "normal_step absolute stack [] = rev stack"
| "normal_step absolute stack (w # ws) =
     (if w = ''.'' then normal_step absolute stack ws
      else if w = ''..'' then
        (case stack of
           [] \<Rightarrow> if absolute then normal_step absolute [] ws else normal_step absolute [w] ws
         | u # rest \<Rightarrow> if u = ''..'' then normal_step absolute (w # stack) ws else normal_step absolute rest ws)
      else normal_step absolute (w # stack) ws)"

definition normal_trailing :: "string \<Rightarrow> string list \<Rightarrow> bool" where
  "normal_trailing p names \<longleftrightarrow>
     names \<noteq> [] \<and> last names \<noteq> ''..'' \<and>
     (trailing_separator p \<or> (path_names p \<noteq> [] \<and> last (path_names p) \<in> {''.'', ''..''}))"

definition render_path :: "bool \<Rightarrow> string list \<Rightarrow> bool \<Rightarrow> string" where
  "render_path absolute names trailing =
     (if absolute then ''/'' else []) @ join_slash names @ (if trailing then ''/'' else [])"

definition lexically_normal :: "string \<Rightarrow> string" where
  "lexically_normal p =
     (if p = [] then []
      else
        let names = normal_step (is_absolute p) [] (path_names p) in
        if names = [] \<and> \<not> is_absolute p then ''.''
        else render_path (is_absolute p) names (normal_trailing p names))"

section \<open>Relative paths\<close>

fun mismatch :: "string list \<Rightarrow> string list \<Rightarrow> string list \<times> string list" where
  "mismatch (a # as) (b # bs) = (if a = b then mismatch as bs else (a # as, b # bs))"
| "mismatch as bs = (as, bs)"

fun up_count :: "string list \<Rightarrow> int" where
  "up_count [] = 0"
| "up_count (p # ps) =
     (if p = ''..'' then up_count ps - 1
      else if p \<noteq> [] \<and> p \<noteq> ''.'' then up_count ps + 1
      else up_count ps)"

definition lexically_relative :: "string \<Rightarrow> string \<Rightarrow> string" where
  "lexically_relative p base =
     (if is_absolute p \<noteq> is_absolute base then []
      else
        let (a, b) = mismatch (path_parts p) (path_parts base) in
        if a = [] \<and> b = [] then ''.''
        else
          let n = up_count b in
          if n = 0 \<and> (a = [] \<or> hd a = []) then ''.''
          else if n \<ge> 0 then join_slash (replicate (nat n) ''..'' @ a)
          else [])"

text \<open>\<^verbatim>\<open>parent_path\<close>, up to repeated separators in the text.\<close>

definition parent_path :: "string \<Rightarrow> string" where
  "parent_path p =
     (if path_names p = [] then p
      else if trailing_separator p then render_path (is_absolute p) (path_names p) False
      else render_path (is_absolute p) (butlast (path_names p)) False)"

definition path_extension :: "string \<Rightarrow> string" where
  "path_extension p =
     (let f = path_filename p in
      if f = [] \<or> f = ''.'' \<or> f = ''..'' then []
      else
        let suffix_part = rev (takeWhile (\<lambda>c. c \<noteq> CHR ''.'') (rev f)) in
        if length suffix_part + 1 < length f then CHR ''.'' # suffix_part else [])"

section \<open>Absolute paths and process arguments\<close>

definition normalized_absolute_path :: "string \<Rightarrow> string \<Rightarrow> string" where
  "normalized_absolute_path cwd p =
     (if \<not> is_absolute p then lexically_normal (path_append cwd p) else lexically_normal p)"

definition is_within_path :: "string \<Rightarrow> string \<Rightarrow> bool" where
  "is_within_path parent candidate =
     (let parent_text = lexically_normal parent; candidate_text = lexically_normal candidate in
      if parent_text = [] then False
      else if candidate_text = parent_text then True
      else
        let pre = (if ends_with parent_text ''/'' then parent_text else parent_text @ ''/'') in
        starts_with candidate_text pre)"

definition is_workspace_relative_process_arg :: "string \<Rightarrow> bool" where
  "is_workspace_relative_process_arg v0 =
     (if v0 = [] then False
      else
        (case (if hd v0 = CHR ''-'' then
                 (case str_find ''='' v0 of
                    None \<Rightarrow> None
                  | Some separator \<Rightarrow> if drop (separator + 1) v0 = [] then None else Some (drop (separator + 1) v0))
               else Some v0) of
           None \<Rightarrow> False
         | Some v \<Rightarrow>
             if v = ''.'' \<or> v = ''..'' \<or> starts_with v ''./'' \<or> starts_with v ''../'' then True
             else if str_find ''/'' v = None then False
             else \<not> is_absolute v))"

definition safe_global_process_cwd :: "string \<Rightarrow> string \<Rightarrow> string \<Rightarrow> string" where
  "safe_global_process_cwd launch_cwd config_source workspace_dir =
     (let cwd0 = (if parent_path config_source \<noteq> [] then parent_path config_source else ''/'');
          cwd = (if cwd0 = [] \<or> cwd0 = ''.'' then ''/'' else cwd0);
          cwd_absolute = normalized_absolute_path launch_cwd cwd in
      if workspace_dir \<noteq> [] \<and> is_within_path (normalized_absolute_path launch_cwd workspace_dir) cwd_absolute then ''/''
      else if cwd_absolute = [] then ''/'' else cwd_absolute)"

section \<open>Names and texts\<close>

definition good_name :: "string \<Rightarrow> bool" where
  "good_name w \<longleftrightarrow> w \<noteq> [] \<and> slash \<notin> set w"

lemma split_slash_nonempty [simp]: "split_slash s \<noteq> []"
  by (induction s) (auto split: list.splits)

lemma split_slash_no_slash: "w \<in> set (split_slash s) \<Longrightarrow> slash \<notin> set w"
proof (induction s arbitrary: w)
  case (Cons c s)
  then show ?case by (cases "split_slash s") (auto split: if_splits)
qed simp

lemma split_slash_append:
  "slash \<notin> set w \<Longrightarrow> split_slash (w @ slash # s) = w # split_slash s"
  by (induction w) auto

lemma split_slash_word: "slash \<notin> set w \<Longrightarrow> split_slash w = [w]"
  by (induction w) auto

lemma path_names_good: "w \<in> set (path_names p) \<Longrightarrow> good_name w"
  using split_slash_no_slash by (auto simp: path_names_def good_name_def)

lemma path_names_slash [simp]: "path_names (slash # s) = path_names s"
  by (simp add: path_names_def)

lemma path_names_Nil [simp]: "path_names [] = []"
  by (simp add: path_names_def)

lemma path_names_join_tail:
  "\<forall>w \<in> set ws. good_name w \<Longrightarrow> t = [] \<or> t = ''/'' \<Longrightarrow> path_names (join_slash ws @ t) = ws"
proof (induction ws rule: join_slash.induct)
  case (2 w)
  then show ?case
    by (auto simp: path_names_def split_slash_word split_slash_append good_name_def)
next
  case (3 w v vs)
  then show ?case
    by (auto simp: path_names_def split_slash_append good_name_def)
qed auto

lemma path_names_render [simp]:
  "\<forall>w \<in> set ws. good_name w \<Longrightarrow> path_names (render_path absolute ws trailing) = ws"
  using path_names_join_tail [of ws "if trailing then ''/'' else []"] by (simp add: render_path_def)

lemma render_absolute [simp]: "is_absolute (render_path True ws trailing)"
  by (simp add: is_absolute_def render_path_def)

lemma join_slash_last: "ws \<noteq> [] \<Longrightarrow> good_name (last ws) \<Longrightarrow> join_slash ws \<noteq> [] \<and> last (join_slash ws) \<noteq> slash"
proof (induction ws rule: join_slash.induct)
  case (2 w)
  then show ?case by (cases w rule: rev_cases) (auto simp: good_name_def)
next
  case (3 w v vs)
  then show ?case by simp
qed simp

lemma trailing_render [simp]:
  assumes "\<forall>w \<in> set ws. good_name w" "ws \<noteq> []"
  shows "trailing_separator (render_path absolute ws trailing) = trailing"
proof -
  have "last (render_path absolute ws trailing) = slash \<longleftrightarrow> trailing"
    using assms join_slash_last [of ws] by (auto simp: render_path_def)
  with assms show ?thesis by (simp add: trailing_separator_def)
qed

section \<open>The normal form\<close>

definition dot_free :: "string list \<Rightarrow> bool" where
  "dot_free ws \<longleftrightarrow> (\<forall>w \<in> set ws. good_name w \<and> w \<noteq> ''.'' \<and> w \<noteq> ''..'')"

lemma dot_free_simps [simp]:
  "dot_free []" "dot_free (w # ws) \<longleftrightarrow> good_name w \<and> w \<noteq> ''.'' \<and> w \<noteq> ''..'' \<and> dot_free ws"
  "dot_free (rev ws) \<longleftrightarrow> dot_free ws" "dot_free (us @ ws) \<longleftrightarrow> dot_free us \<and> dot_free ws"
  by (auto simp: dot_free_def)

lemma dot_free_good: "dot_free ws \<Longrightarrow> \<forall>w \<in> set ws. good_name w"
  by (induction ws) auto

lemma good_dots: "good_name ''..''"
  by (simp add: good_name_def)

lemma normal_step_absolute:
  "\<forall>w \<in> set ws. good_name w \<Longrightarrow> dot_free stack \<Longrightarrow> dot_free (normal_step True stack ws)"
proof (induction ws arbitrary: stack)
  case (Cons w ws)
  then show ?case by (cases stack) simp_all
qed simp

lemma normal_step_dot_free: "dot_free ws \<Longrightarrow> normal_step absolute stack ws = rev stack @ ws"
  by (induction ws arbitrary: stack) auto

definition normal_names :: "string \<Rightarrow> string list" where
  "normal_names p = normal_step (is_absolute p) [] (path_names p)"

lemma normal_names_absolute: "is_absolute p \<Longrightarrow> dot_free (normal_names p)"
  using path_names_good normal_step_absolute [of "path_names p" "[]"]
  by (auto simp: normal_names_def)

lemma lexically_normal_absolute:
  "is_absolute p \<Longrightarrow> lexically_normal p = render_path True (normal_names p) (normal_trailing p (normal_names p))"
  by (auto simp: lexically_normal_def normal_names_def is_absolute_def Let_def)

text \<open>An absolute path in normal form.\<close>

definition normal_absolute :: "string \<Rightarrow> bool" where
  "normal_absolute p \<longleftrightarrow> (\<exists>ws t. dot_free ws \<and> (t \<longrightarrow> ws \<noteq> []) \<and> p = render_path True ws t)"

lemma lexically_normal_normal: "is_absolute p \<Longrightarrow> normal_absolute (lexically_normal p)"
  unfolding normal_absolute_def
  by (rule exI [where x = "normal_names p"], rule exI [where x = "normal_trailing p (normal_names p)"])
    (simp add: lexically_normal_absolute normal_names_absolute normal_trailing_def)

lemma normal_absolute_names:
  assumes "normal_absolute p"
  shows "is_absolute p" "dot_free (path_names p)" "p = render_path True (path_names p) (trailing_separator p)"
proof -
  obtain ws t where p: "dot_free ws" "t \<longrightarrow> ws \<noteq> []" "p = render_path True ws t"
    using assms by (auto simp: normal_absolute_def)
  then have g: "\<forall>w \<in> set ws. good_name w" by (auto simp: dot_free_def)
  show "is_absolute p" using p by simp
  show "dot_free (path_names p)" using p g by simp
  have "trailing_separator p = t"
  proof (cases "ws = []")
    case True
    with p show ?thesis by (simp add: trailing_separator_def render_path_def)
  next
    case False
    with g p(3) show ?thesis by simp
  qed
  then show "p = render_path True (path_names p) (trailing_separator p)" using p g by simp
qed

lemma normal_absolute_parts:
  assumes "normal_absolute p"
  shows "path_parts p = ''/'' # path_names p @ (if trailing_separator p then [[]] else [])"
  using normal_absolute_names(1) [OF assms] by (simp add: path_parts_def)

text \<open>Normalizing a normal form changes nothing.\<close>

lemma lexically_normal_idem:
  assumes "normal_absolute p"
  shows "lexically_normal p = p"
proof -
  note n = normal_absolute_names [OF assms]
  have names: "normal_names p = path_names p"
    using normal_step_dot_free [OF n(2), of "is_absolute p" "[]"] by (simp add: normal_names_def)
  have "normal_trailing p (path_names p) = trailing_separator p"
  proof (cases "path_names p = []")
    case False
    then have "last (path_names p) \<in> set (path_names p)" by simp
    with n(2) have "last (path_names p) \<noteq> ''.''" "last (path_names p) \<noteq> ''..''" by (auto simp: dot_free_def)
    with False show ?thesis by (simp add: normal_trailing_def)
  qed (simp add: normal_trailing_def trailing_separator_def)
  with names n(1,3) show ?thesis by (simp add: lexically_normal_absolute)
qed

section \<open>Containment\<close>

lemma mismatch_split: "mismatch as bs = (x, y) \<Longrightarrow> \<exists>pre. as = pre @ x \<and> bs = pre @ y \<and> (x = [] \<or> y = [] \<or> hd x \<noteq> hd y)"
proof (induction as bs arbitrary: x y rule: mismatch.induct)
  case (1 a as b bs)
  show ?case
  proof (cases "a = b")
    case True
    with 1 obtain pre where "as = pre @ x" "bs = pre @ y" "x = [] \<or> y = [] \<or> hd x \<noteq> hd y" by auto
    with True show ?thesis by (intro exI [where x = "a # pre"]) auto
  qed (use 1 in auto)
qed auto

lemma up_count_names: "dot_free ws \<Longrightarrow> up_count (ws @ (if t then [[]] else [])) = int (length ws)"
  by (induction ws) (auto simp: good_name_def)

lemma join_slash_trailing: "ws \<noteq> [] \<Longrightarrow> join_slash (ws @ [[]]) = join_slash ws @ ''/''"
  by (induction ws rule: join_slash.induct) auto

lemma join_render: "ws \<noteq> [] \<Longrightarrow> join_slash (ws @ (if t then [[]] else [])) = render_path False ws t"
  by (simp add: render_path_def join_slash_trailing)

lemma hd_render_relative:
  assumes "\<forall>w \<in> set ws. good_name w" "ws \<noteq> []"
  shows "render_path False ws t \<noteq> []" "path_parts (render_path False ws t) = ws @ (if t then [[]] else [])"
proof -
  obtain c u vs where ws: "ws = (c # u) # vs" "c \<noteq> slash"
    using assms by (cases ws; cases "hd ws") (auto simp: good_name_def)
  then have "\<exists>r. render_path False ws t = c # r" by (cases vs) (auto simp: render_path_def)
  then obtain r where r: "render_path False ws t = c # r" by blast
  then show "render_path False ws t \<noteq> []" by simp
  have "\<not> is_absolute (render_path False ws t)" using r ws(2) by (simp add: is_absolute_def)
  with assms show "path_parts (render_path False ws t) = ws @ (if t then [[]] else [])"
    by (simp add: path_parts_def)
qed

lemma mismatch_common [simp]: "mismatch (pre @ as) (pre @ bs) = mismatch as bs"
  by (induction pre) auto

lemma mismatch_right_Nil [simp]: "mismatch as [] = (as, [])"
  by (cases as) auto

lemma path_parts_dot: "path_parts ''.'' = [''.'']"
  by (simp add: path_parts_def path_names_def is_absolute_def trailing_separator_def)

lemma relative_inside:
  assumes p: "normal_absolute p" and b: "normal_absolute base" and "path_names p = path_names base @ R"
  shows "lexically_relative p base =
    (if R = [] then ''.'' else render_path False R (trailing_separator p))"
proof -
  note np = normal_absolute_parts [OF p] and nb = normal_absolute_parts [OF b]
  have R: "dot_free R" using normal_absolute_names(2) [OF p] assms(3) by simp
  have ab: "is_absolute p = is_absolute base" using normal_absolute_names(1) p b by blast
  have mm: "mismatch (path_parts p) (path_parts base) =
      mismatch (R @ (if trailing_separator p then [[]] else [])) (if trailing_separator base then [[]] else [])"
    unfolding np nb assms(3) by simp
  show ?thesis
  proof (cases R)
    case Nil
    then show ?thesis by (simp add: lexically_relative_def ab mm)
  next
    case (Cons r rs)
    with R have "r \<noteq> []" by (auto simp: good_name_def)
    with Cons have "mismatch (path_parts p) (path_parts base) =
        (R @ (if trailing_separator p then [[]] else []), if trailing_separator base then [[]] else [])"
      unfolding mm by simp
    with Cons \<open>r \<noteq> []\<close> show ?thesis
      using join_render [of R "trailing_separator p"] by (auto simp: lexically_relative_def ab)
  qed
qed

lemma relative_outside:
  assumes p: "normal_absolute p" and b: "normal_absolute base" and "\<not> prefix (path_names base) (path_names p)"
  shows "\<exists>rest. path_parts (lexically_relative p base) = ''..'' # rest"
proof -
  note np = normal_absolute_parts [OF p] and nb = normal_absolute_parts [OF b]
  have ab: "is_absolute p = is_absolute base" using normal_absolute_names(1) p b by blast
  obtain P B where "mismatch (path_names p) (path_names base) = (P, B)" by (cases "mismatch (path_names p) (path_names base)")
  then obtain pre where PB: "path_names p = pre @ P" "path_names base = pre @ B" "P = [] \<or> B = [] \<or> hd P \<noteq> hd B"
    using mismatch_split by blast
  have B: "B \<noteq> []" using assms(3) PB(1,2) by auto
  have free: "dot_free P" "dot_free B" using normal_absolute_names(2) [OF p] normal_absolute_names(2) [OF b] PB(1,2) by simp_all
  define tp tb where "tp = (if trailing_separator p then [[]] else [] :: string list)"
    and "tb = (if trailing_separator base then [[]] else [] :: string list)"
  have "mismatch (path_parts p) (path_parts base) = mismatch (P @ tp) (B @ tb)"
    unfolding np nb PB(1,2) tp_def tb_def by simp
  also have "\<dots> = (P @ tp, B @ tb)"
  proof -
    obtain b0 bs where b0: "B = b0 # bs" using B by (cases B) auto
    have "b0 \<noteq> []" using free(2) b0 by (auto simp: good_name_def)
    then show ?thesis using PB(3) by (cases P) (auto simp: b0 tp_def)
  qed
  finally have mm: "mismatch (path_parts p) (path_parts base) = (P @ tp, B @ tb)" .
  define ups where "ups = replicate (length B) ''..'' @ P"
  have "lexically_relative p base = join_slash (replicate (length B) ''..'' @ P @ tp)"
    using B up_count_names [OF free(2), of "trailing_separator base"]
    by (simp add: lexically_relative_def ab mm tb_def)
  also have "\<dots> = render_path False ups (trailing_separator p)"
    using join_render [of ups "trailing_separator p"] B by (simp add: ups_def tp_def)
  finally have rel: "lexically_relative p base = render_path False ups (trailing_separator p)" .
  have good: "\<forall>w \<in> set ups. good_name w" 
    using dot_free_good [OF free(1)] good_dots by (simp add: ups_def ball_Un set_replicate_conv_if)
  obtain us where us: "ups = ''..'' # us" using B by (cases B) (simp_all add: ups_def)
  then show ?thesis using hd_render_relative(2) [OF good, of "trailing_separator p"] rel by simp
qed

text \<open>
  The lexical containment test of the sources: the relative path exists and does not start by
  leaving the root.
\<close>

definition lexically_inside :: "string \<Rightarrow> string \<Rightarrow> bool" where
  "lexically_inside base p \<longleftrightarrow>
     lexically_relative p base \<noteq> [] \<and> hd (path_parts (lexically_relative p base)) \<noteq> ''..''"

lemma lexically_inside_iff:
  assumes "normal_absolute p" "normal_absolute base"
  shows "lexically_inside base p \<longleftrightarrow> prefix (path_names base) (path_names p)"
proof (cases "prefix (path_names base) (path_names p)")
  case True
  then obtain R where R: "path_names p = path_names base @ R" by (auto simp: prefix_def)
  have free: "dot_free R" using normal_absolute_names(2) [OF assms(1)] R by simp
  then have good: "\<forall>w \<in> set R. good_name w" by (rule dot_free_good)
  show ?thesis
  proof (cases R)
    case Nil
    then show ?thesis using True relative_inside [OF assms R] by (simp add: lexically_inside_def path_parts_dot)
  next
    case (Cons r rs)
    then have "hd (R @ (if trailing_separator p then [[]] else [])) \<noteq> ''..''" using free by simp
    then show ?thesis
      using True relative_inside [OF assms R] hd_render_relative [OF good, of "trailing_separator p"] Cons
      by (simp add: lexically_inside_def)
  qed
next
  case False
  then show ?thesis using relative_outside [OF assms] by (auto simp: lexically_inside_def)
qed

section \<open>Containment by text\<close>

lemma split_slash_cut: "split_slash (a @ slash # b) = split_slash a @ split_slash b"
proof (induction a)
  case (Cons c a)
  then show ?case by (cases "split_slash a") auto
qed simp

lemma path_names_cut: "path_names (a @ slash # b) = path_names a @ path_names b"
  by (simp add: path_names_def split_slash_cut)

lemma join_slash_append: "us \<noteq> [] \<Longrightarrow> vs \<noteq> [] \<Longrightarrow> join_slash (us @ vs) = join_slash us @ slash # join_slash vs"
  by (induction us rule: join_slash.induct) (auto simp: neq_Nil_conv)

lemma render_extend:
  assumes "ws \<noteq> []"
  shows "render_path True (ws @ R) t = render_path True ws False \<or> starts_with (render_path True (ws @ R) t) (render_path True ws False @ ''/'')"
proof (cases "R = []")
  case True
  then show ?thesis by (cases t) (auto simp: render_path_def starts_with_iff)
next
  case False
  then show ?thesis using assms by (auto simp: render_path_def starts_with_iff join_slash_append)
qed

lemma render_ends_with:
  assumes "dot_free ws" "ws \<noteq> []"
  shows "\<not> ends_with (render_path True ws False) ''/''"
proof -
  have "join_slash ws \<noteq> []" "last (join_slash ws) \<noteq> slash"
    using join_slash_last [of ws] dot_free_good [OF assms(1)] assms(2) by auto
  then show ?thesis by (auto simp: ends_with_def suffix_def render_path_def dest: arg_cong [where f = last])
qed

lemma text_containment:
  assumes p: "normal_absolute p" and c: "normal_absolute c" and t: "\<not> trailing_separator p"
  shows "(c = p \<or> starts_with c (if ends_with p ''/'' then p else p @ ''/'')) \<longleftrightarrow> prefix (path_names p) (path_names c)"
proof -
  note np = normal_absolute_names [OF p] and nc = normal_absolute_names [OF c]
  show ?thesis
  proof (cases "path_names p = []")
    case True
    then have "p = ''/''" using np(3) t by (simp add: render_path_def)
    moreover have "starts_with c ''/''" using nc(1) by (cases c) (auto simp: is_absolute_def starts_with_def)
    ultimately show ?thesis using True by (simp add: ends_with_def)
  next
    case False
    have p': "p = render_path True (path_names p) False" using np(3) t by simp
    have ends: "\<not> ends_with p ''/''" using render_ends_with [OF np(2) False] p' by simp
    show ?thesis
    proof
      assume "c = p \<or> starts_with c (if ends_with p ''/'' then p else p @ ''/'')"
      then consider "c = p" | x where "c = p @ slash # x" using ends by (auto simp: starts_with_iff)
      then show "prefix (path_names p) (path_names c)" by cases (auto simp: path_names_cut)
    next
      assume "prefix (path_names p) (path_names c)"
      then obtain R where "path_names c = path_names p @ R" by (auto simp: prefix_def)
      then show "c = p \<or> starts_with c (if ends_with p ''/'' then p else p @ ''/'')"
        using render_extend [OF False, of R "trailing_separator c"] nc(3) p' ends by simp
    qed
  qed
qed

lemma normalized_absolute_normal: "is_absolute cwd \<Longrightarrow> normal_absolute (normalized_absolute_path cwd p)"
proof -
  assume "is_absolute cwd"
  then have "is_absolute (path_append cwd p)" by (auto simp: path_append_def is_absolute_def)
  then show ?thesis by (simp add: normalized_absolute_path_def lexically_normal_normal)
qed

lemma is_within_path_iff:
  assumes "normal_absolute p" "normal_absolute c" "\<not> trailing_separator p"
  shows "is_within_path p c \<longleftrightarrow> prefix (path_names p) (path_names c)"
proof -
  have "p \<noteq> []" using normal_absolute_names(1) [OF assms(1)] by (auto simp: is_absolute_def)
  then show ?thesis
    using text_containment [OF assms] by (auto simp: is_within_path_def lexically_normal_idem assms(1,2) Let_def)
qed

text \<open>
  The working directory chosen for a process that is configured outside the workspace is
  absolute, in normal form, and is either the root or lies outside the workspace, for a
  workspace path without a trailing separator.
\<close>

theorem safe_global_process_cwd_outside:
  assumes "is_absolute launch" "workspace \<noteq> []" "\<not> trailing_separator (normalized_absolute_path launch workspace)"
  shows "normal_absolute (safe_global_process_cwd launch config workspace) \<and>
    (safe_global_process_cwd launch config workspace = ''/'' \<or>
     \<not> prefix (path_names (normalized_absolute_path launch workspace)) (path_names (safe_global_process_cwd launch config workspace)))"
proof -
  have root: "normal_absolute ''/''"
    unfolding normal_absolute_def by (rule exI [where x = "[]"], rule exI [where x = False]) (simp add: render_path_def)
  show ?thesis
    using assms is_within_path_iff [OF normalized_absolute_normal normalized_absolute_normal assms(3)] root
      normalized_absolute_normal [OF assms(1)]
    by (simp add: safe_global_process_cwd_def Let_def)
qed

theorem safe_global_process_cwd_outside_witness:
  "normal_absolute (safe_global_process_cwd ''/h'' ''/w/ava/mcp.json'' ''/w'') \<and>
   safe_global_process_cwd ''/h'' ''/w/ava/mcp.json'' ''/w'' = ''/''"
proof -
  have h: "is_absolute ''/h''" "\<not> trailing_separator (normalized_absolute_path ''/h'' ''/w'')" by code_simp+
  have "safe_global_process_cwd ''/h'' ''/w/ava/mcp.json'' ''/w'' = ''/''" by code_simp
  with safe_global_process_cwd_outside [OF h(1) _ h(2), of "''/w/ava/mcp.json''"] show ?thesis by simp
qed

text \<open>
  The text comparison does not see through a trailing separator: a workspace given as \<^verbatim>\<open>/w/\<close>
  lets a configuration file directly in the workspace start its process there.
\<close>

lemma safe_global_process_cwd_trailing:
  "safe_global_process_cwd ''/h'' ''/w/mcp.json'' ''/w/'' = ''/w''"
  by code_simp

end
