(* ===== verification/Command_Types.thy ===== *)
theory Command_Types
  imports Command_Intent Paths
begin

text \<open>
  The data of the command planner, \<^verbatim>\<open>command/command.h\<close>: enumerations, the sealed identity of
  paths and executables, capabilities and classifications, and the names of the
  enumerations (\<^verbatim>\<open>command_plan.cpp\<close>, \<^verbatim>\<open>to_string\<close>). Unsigned 64-bit quantities that are only
  copied, compared and printed are natural numbers, signed ones integers.
\<close>

section \<open>Enumerations\<close>

datatype command_runtime_mode = Legacy | PromptOnly | Enabled

datatype command_execution_domain = DirectArgv | RawShellDomain

datatype path_provenance = StartupPath | UserLocal | WorkspaceVenv | WorkspaceNodeModules

datatype executable_origin = SystemOrigin | UserOrigin | WorkspaceOrigin

datatype command_level = Standard | Sensitive | Critical

datatype command_family =
    Inspection | CmakeBuildFamily | CtestFamily | NinjaFamily | MakeFamily | PackageManagerScript | PytestFamily
  | WorkspaceScriptFamily | InstallOrUpdate | RemoteGitMutation | PublishOrDeploy | Network | WorkspaceMutation
  | InterpreterInline | DestructiveOrPrivileged | UnknownWrapper | RawShellFamily | UnverifiedDelegatedExecutor

datatype command_recipe =
    Pwd | Ls | GitStatus | GitDiff | GitLogOne | CmakeBuild | Ctest | Ninja | Make | PackageManagerRunScript
  | Pytest | WorkspaceScript

datatype interactive_scope = Once | SessionScope | WorkspaceScope

fun lane_to_string :: "command_intent_lane \<Rightarrow> string" where
  "lane_to_string Compatibility = ''compatibility''"
| "lane_to_string StructuredArgv = ''structured_argv''"
| "lane_to_string RawShellLane = ''raw_shell''"

fun runtime_mode_to_string :: "command_runtime_mode \<Rightarrow> string" where
  "runtime_mode_to_string Legacy = ''legacy''"
| "runtime_mode_to_string PromptOnly = ''prompt-only''"
| "runtime_mode_to_string Enabled = ''enabled''"

fun domain_to_string :: "command_execution_domain \<Rightarrow> string" where
  "domain_to_string DirectArgv = ''direct_argv''"
| "domain_to_string RawShellDomain = ''raw_shell''"

fun provenance_to_string :: "path_provenance \<Rightarrow> string" where
  "provenance_to_string StartupPath = ''startup_path''"
| "provenance_to_string UserLocal = ''user_local''"
| "provenance_to_string WorkspaceVenv = ''workspace_venv''"
| "provenance_to_string WorkspaceNodeModules = ''workspace_node_modules''"

fun origin_to_string :: "executable_origin \<Rightarrow> string" where
  "origin_to_string SystemOrigin = ''system''"
| "origin_to_string UserOrigin = ''user''"
| "origin_to_string WorkspaceOrigin = ''workspace''"

fun level_to_string :: "command_level \<Rightarrow> string" where
  "level_to_string Standard = ''standard''"
| "level_to_string Sensitive = ''sensitive''"
| "level_to_string Critical = ''critical''"

fun family_to_string :: "command_family \<Rightarrow> string" where
  "family_to_string Inspection = ''inspection''"
| "family_to_string CmakeBuildFamily = ''cmake_build''"
| "family_to_string CtestFamily = ''ctest''"
| "family_to_string NinjaFamily = ''ninja''"
| "family_to_string MakeFamily = ''make''"
| "family_to_string PackageManagerScript = ''package_manager_script''"
| "family_to_string PytestFamily = ''pytest''"
| "family_to_string WorkspaceScriptFamily = ''workspace_script''"
| "family_to_string InstallOrUpdate = ''install_or_update''"
| "family_to_string RemoteGitMutation = ''remote_git_mutation''"
| "family_to_string PublishOrDeploy = ''publish_or_deploy''"
| "family_to_string Network = ''network''"
| "family_to_string WorkspaceMutation = ''workspace_mutation''"
| "family_to_string InterpreterInline = ''interpreter_inline''"
| "family_to_string DestructiveOrPrivileged = ''destructive_or_privileged''"
| "family_to_string UnknownWrapper = ''unknown_wrapper''"
| "family_to_string RawShellFamily = ''raw_shell''"
| "family_to_string UnverifiedDelegatedExecutor = ''unverified_delegated_executor''"

fun recipe_to_string :: "command_recipe \<Rightarrow> string" where
  "recipe_to_string Pwd = ''pwd''"
| "recipe_to_string Ls = ''ls''"
| "recipe_to_string GitStatus = ''git_status''"
| "recipe_to_string GitDiff = ''git_diff''"
| "recipe_to_string GitLogOne = ''git_log_one''"
| "recipe_to_string CmakeBuild = ''cmake_build''"
| "recipe_to_string Ctest = ''ctest''"
| "recipe_to_string Ninja = ''ninja''"
| "recipe_to_string Make = ''make''"
| "recipe_to_string PackageManagerRunScript = ''package_manager_run_script''"
| "recipe_to_string Pytest = ''pytest''"
| "recipe_to_string WorkspaceScript = ''workspace_script''"

fun scope_to_string :: "interactive_scope \<Rightarrow> string" where
  "scope_to_string Once = ''once''"
| "scope_to_string SessionScope = ''session''"
| "scope_to_string WorkspaceScope = ''workspace''"

section \<open>Sealed identities\<close>

record path_ancestor_metadata =
  anc_path :: string
  anc_device :: nat
  anc_inode :: nat
  anc_mode :: nat
  anc_owner :: nat
  anc_group :: nat
  anc_link_count :: nat
  anc_changed_seconds :: int
  anc_changed_nanoseconds :: int
  anc_is_symlink :: bool
  anc_identity_bound :: bool

text \<open>\<^verbatim>\<open>operator==\<close> of an ancestor: link count and change times count only when its identity is bound.\<close>

definition ancestor_equal :: "path_ancestor_metadata \<Rightarrow> path_ancestor_metadata \<Rightarrow> bool" where
  "ancestor_equal lhs rhs =
     (if \<not> path_eq (anc_path lhs) (anc_path rhs) \<or> anc_device lhs \<noteq> anc_device rhs \<or> anc_inode lhs \<noteq> anc_inode rhs
         \<or> anc_mode lhs \<noteq> anc_mode rhs \<or> anc_owner lhs \<noteq> anc_owner rhs \<or> anc_group lhs \<noteq> anc_group rhs
         \<or> anc_is_symlink lhs \<noteq> anc_is_symlink rhs \<or> anc_identity_bound lhs \<noteq> anc_identity_bound rhs
      then False
      else if \<not> anc_identity_bound lhs then True
      else anc_link_count lhs = anc_link_count rhs \<and> anc_changed_seconds lhs = anc_changed_seconds rhs
        \<and> anc_changed_nanoseconds lhs = anc_changed_nanoseconds rhs)"

text \<open>
  \<^verbatim>\<open>PathMetadata\<close> and \<^verbatim>\<open>ExecutableMetadata\<close> have the same fields in the same order; both are
  this record.
\<close>

record path_metadata =
  requested_path :: string
  canonical_path :: string
  md_device :: nat
  md_inode :: nat
  md_mode :: nat
  md_size :: nat
  md_owner :: nat
  md_group :: nat
  md_link_count :: nat
  md_changed_seconds :: int
  md_changed_nanoseconds :: int
  requested_path_is_symlink :: bool
  requested_device :: nat
  requested_inode :: nat
  requested_mode :: nat
  requested_owner :: nat
  requested_group :: nat
  requested_link_count :: nat
  requested_changed_seconds :: int
  requested_changed_nanoseconds :: int
  ancestor_metadata :: "path_ancestor_metadata list"

type_synonym executable_metadata = path_metadata

text \<open>The defaulted \<^verbatim>\<open>operator==\<close>: member by member.\<close>

definition metadata_equal :: "path_metadata \<Rightarrow> path_metadata \<Rightarrow> bool" where
  "metadata_equal lhs rhs \<longleftrightarrow>
     path_eq (requested_path lhs) (requested_path rhs) \<and> path_eq (canonical_path lhs) (canonical_path rhs)
     \<and> md_device lhs = md_device rhs \<and> md_inode lhs = md_inode rhs \<and> md_mode lhs = md_mode rhs \<and> md_size lhs = md_size rhs
     \<and> md_owner lhs = md_owner rhs \<and> md_group lhs = md_group rhs \<and> md_link_count lhs = md_link_count rhs
     \<and> md_changed_seconds lhs = md_changed_seconds rhs \<and> md_changed_nanoseconds lhs = md_changed_nanoseconds rhs
     \<and> requested_path_is_symlink lhs = requested_path_is_symlink rhs \<and> requested_device lhs = requested_device rhs
     \<and> requested_inode lhs = requested_inode rhs \<and> requested_mode lhs = requested_mode rhs
     \<and> requested_owner lhs = requested_owner rhs \<and> requested_group lhs = requested_group rhs
     \<and> requested_link_count lhs = requested_link_count rhs
     \<and> requested_changed_seconds lhs = requested_changed_seconds rhs
     \<and> requested_changed_nanoseconds lhs = requested_changed_nanoseconds rhs
     \<and> list_all2 ancestor_equal (ancestor_metadata lhs) (ancestor_metadata rhs)"

record synthetic_environment_roots =
  root_home :: path_metadata
  root_xdg_config_home :: path_metadata
  root_xdg_cache_home :: path_metadata
  root_xdg_data_home :: path_metadata
  root_xdg_state_home :: path_metadata
  root_tmpdir :: path_metadata

definition roots_equal :: "synthetic_environment_roots \<Rightarrow> synthetic_environment_roots \<Rightarrow> bool" where
  "roots_equal lhs rhs \<longleftrightarrow>
     metadata_equal (root_home lhs) (root_home rhs) \<and> metadata_equal (root_xdg_config_home lhs) (root_xdg_config_home rhs)
     \<and> metadata_equal (root_xdg_cache_home lhs) (root_xdg_cache_home rhs)
     \<and> metadata_equal (root_xdg_data_home lhs) (root_xdg_data_home rhs)
     \<and> metadata_equal (root_xdg_state_home lhs) (root_xdg_state_home rhs) \<and> metadata_equal (root_tmpdir lhs) (root_tmpdir rhs)"

record command_path_entry =
  pe_directory :: string
  pe_provenance :: path_provenance
  pe_metadata :: path_metadata

record shebang_interpreter =
  si_interpreter :: executable_metadata
  si_argument :: string
  si_resolved_via_env :: bool

record resolved_executable =
  re_executable :: executable_metadata
  re_origin :: executable_origin
  re_shebang_interpreters :: "shebang_interpreter list"
  re_shebang_fully_resolved :: bool

section \<open>Classification\<close>

record command_capabilities =
  executes_mutable_project_code :: bool
  requires_containment :: bool
  network_enabled :: bool
  mutates_workspace :: bool
  destructive_or_privileged :: bool
  interpreter_inline :: bool
  unknown_wrapper :: bool
  raw_shell_capability :: bool

definition no_capabilities :: command_capabilities where
  "no_capabilities = \<lparr>executes_mutable_project_code = False, requires_containment = False, network_enabled = False,
     mutates_workspace = False, destructive_or_privileged = False, interpreter_inline = False, unknown_wrapper = False,
     raw_shell_capability = False\<rparr>"

record recipe_descriptor =
  rd_recipe :: command_recipe
  rd_canonical_argv :: "string list"
  rd_path_arguments :: "path_metadata list"

record command_classification =
  cc_level :: command_level
  cc_family :: command_family
  cc_recipe :: "recipe_descriptor option"
  cc_capabilities :: command_capabilities
  cc_max_interactive_scope :: interactive_scope
  cc_ask_candidate :: bool

record workspace_script_recipe =
  ws_script :: string
  ws_argv_tail :: "string list"

section \<open>The names are injective\<close>

named_theorems command_names

lemma lane_to_string_inj [command_names]: "lane_to_string a = lane_to_string b \<longleftrightarrow> a = b"
  by (cases a; cases b) simp_all

lemma domain_to_string_inj [command_names]: "domain_to_string a = domain_to_string b \<longleftrightarrow> a = b"
  by (cases a; cases b) simp_all

lemma provenance_to_string_inj [command_names]: "provenance_to_string a = provenance_to_string b \<longleftrightarrow> a = b"
  by (cases a; cases b) simp_all

lemma origin_to_string_inj [command_names]: "origin_to_string a = origin_to_string b \<longleftrightarrow> a = b"
  by (cases a; cases b) simp_all

lemma level_to_string_inj [command_names]: "level_to_string a = level_to_string b \<longleftrightarrow> a = b"
  by (cases a; cases b) simp_all

lemma family_to_string_inj [command_names]: "family_to_string a = family_to_string b \<longleftrightarrow> a = b"
  by (cases a; cases b) simp_all

lemma recipe_to_string_inj [command_names]: "recipe_to_string a = recipe_to_string b \<longleftrightarrow> a = b"
  by (cases a; cases b) simp_all

lemma scope_to_string_inj [command_names]: "scope_to_string a = scope_to_string b \<longleftrightarrow> a = b"
  by (cases a; cases b) simp_all

end
