(* ===== verification/Anchors.thy ===== *)
theory Anchors
  imports Core_Error Paths
begin

text \<open>
  Anchored filesystem access: \<^verbatim>\<open>core/AnchorSet.cpp\<close> (choosing the writable anchor of a path),
  \<^verbatim>\<open>core/open_beneath.cpp\<close> (opening beneath an anchor) and \<^verbatim>\<open>core/AnchorOpen.cpp\<close> (writable
  opens, and external reads that may follow links only while they stay outside every anchor).

  The kernel is a parameter, the record \<open>kernel\<close>: one function per system call the sources
  make on an open descriptor. A descriptor is a number, a failing call returns its errno.
  Descriptor duplication and closing have no effect on which object is reached and are left
  out. The retry of \<^verbatim>\<open>openat2\<close> is a function of the attempt, and the reopening of an external
  target is its own call, so that a change of the filesystem between two calls is not ruled out.
\<close>

section \<open>The kernel\<close>

type_synonym descriptor = nat
type_synonym errno = nat
type_synonym 'a syscall = "errno + 'a"
type_synonym file_id = "nat \<times> nat"

datatype file_type = Directory | Regular | Symlink | OtherFile

record open_flags =
  o_rdonly :: bool
  o_directory :: bool
  o_creat :: bool
  o_nofollow :: bool

record kernel =
  k_strerror :: "errno \<Rightarrow> string"
  k_open_root :: "descriptor syscall"
  k_open_anchor :: "string \<Rightarrow> descriptor syscall"
  k_open_nofollow :: "descriptor \<Rightarrow> string \<Rightarrow> descriptor syscall"
  k_open_parent :: "descriptor \<Rightarrow> descriptor syscall"
  k_file_type :: "descriptor \<Rightarrow> file_type syscall"
  k_file_id :: "descriptor \<Rightarrow> file_id syscall"
  k_read_link :: "descriptor \<Rightarrow> string syscall"
  k_openat2_beneath :: "nat \<Rightarrow> descriptor \<Rightarrow> string \<Rightarrow> open_flags \<Rightarrow> nat \<Rightarrow> descriptor syscall"
  k_openat :: "descriptor \<Rightarrow> string \<Rightarrow> open_flags \<Rightarrow> nat \<Rightarrow> descriptor syscall"

definition ENOENT :: errno where "ENOENT = 2"
definition EIO :: errno where "EIO = 5"
definition E2BIG :: errno where "E2BIG = 7"
definition EAGAIN :: errno where "EAGAIN = 11"
definition EXDEV :: errno where "EXDEV = 18"
definition ENOTDIR :: errno where "ENOTDIR = 20"
definition EINVAL :: errno where "EINVAL = 22"
definition ENOSYS :: errno where "ENOSYS = 38"
definition ELOOP :: errno where "ELOOP = 40"

section \<open>Anchor sets\<close>

record anchor =
  an_fd :: descriptor
  an_root :: string

record anchor_ref =
  ar_anchor :: anchor
  ar_relative :: string

fun parts_within :: "string list \<Rightarrow> string list \<Rightarrow> bool" where
  "parts_within [] candidate = True"
| "parts_within (r # rs) [] = False"
| "parts_within (r # rs) (c # cs) = (if c \<noteq> r then False else parts_within rs cs)"

definition path_is_within :: "string \<Rightarrow> string \<Rightarrow> bool" where
  "path_is_within root candidate = parts_within (path_parts root) (path_parts candidate)"

definition anchor_error :: "kernel \<Rightarrow> string \<Rightarrow> string \<Rightarrow> errno option \<Rightarrow> ava_error" where
  "anchor_error k message p cause =
     (let e = make_error Io message;
          e2 = (if p \<noteq> [] then with_context e ''path'' p else e) in
      (case cause of Some n \<Rightarrow> with_context e2 ''cause'' (k_strerror k n) | None \<Rightarrow> e2))"

definition normalize_relative :: "anchor \<Rightarrow> string \<Rightarrow> string option" where
  "normalize_relative a relative =
     (let normalized_absolute = lexically_normal (path_append (an_root a) relative);
          normalized0 = lexically_relative normalized_absolute (an_root a);
          normalized = (if normalized0 = ''.'' then [] else normalized0) in
      if normalized \<noteq> [] \<and> hd (path_parts normalized) = ''..'' then None else Some normalized)"

definition ref_absolute :: "anchor_ref \<Rightarrow> string" where
  "ref_absolute r = path_append (an_root (ar_anchor r)) (ar_relative r)"

fun anchor_set_open_loop :: "kernel \<Rightarrow> string \<Rightarrow> string list \<Rightarrow> anchor list \<Rightarrow> anchor list ava_result" where
  "anchor_set_open_loop k cwd [] anchors = Inr anchors"
| "anchor_set_open_loop k cwd (root # roots) anchors =
     (if root = [] then anchor_set_open_loop k cwd roots anchors
      else
        let absolute = normalized_absolute_path cwd root in
        if \<not> is_absolute absolute then Inl (anchor_error k ''failed to resolve anchor root path'' root None)
        else
          (case k_open_anchor k absolute of
             Inl n \<Rightarrow>
               if n = ENOENT then anchor_set_open_loop k cwd roots anchors
               else Inl (anchor_error k ''failed to open anchor directory'' absolute (Some n))
           | Inr fd \<Rightarrow> anchor_set_open_loop k cwd roots (anchors @ [\<lparr>an_fd = fd, an_root = absolute\<rparr>])))"

definition anchor_set_open :: "kernel \<Rightarrow> string \<Rightarrow> string list \<Rightarrow> anchor list ava_result" where
  "anchor_set_open k cwd roots =
     (case anchor_set_open_loop k cwd roots [] of
        Inl e \<Rightarrow> Inl e
      | Inr anchors \<Rightarrow>
          if anchors = [] then Inl (anchor_error k ''no anchor directories could be opened'' [] None) else Inr anchors)"

fun best_anchor :: "string \<Rightarrow> anchor option \<Rightarrow> anchor list \<Rightarrow> anchor option" where
  "best_anchor absolute best [] = best"
| "best_anchor absolute best (a # as) =
     (if \<not> path_is_within (an_root a) absolute then best_anchor absolute best as
      else
        (case best of
           None \<Rightarrow> best_anchor absolute (Some a) as
         | Some b \<Rightarrow> best_anchor absolute (if length (an_root a) > length (an_root b) then Some a else Some b) as))"

definition find_anchor :: "kernel \<Rightarrow> anchor list \<Rightarrow> string \<Rightarrow> anchor_ref ava_result" where
  "find_anchor k anchors candidate =
     (if candidate = [] then Inl (anchor_error k ''candidate path is empty'' candidate None)
      else if \<not> is_absolute candidate then
        (case normalize_relative (hd anchors) candidate of
           None \<Rightarrow> Inl (anchor_error k ''AnchorRef relative escapes its anchor root'' candidate None)
         | Some relative \<Rightarrow> Inr \<lparr>ar_anchor = hd anchors, ar_relative = relative\<rparr>)
      else
        let absolute = lexically_normal candidate in
        (case best_anchor absolute None anchors of
           None \<Rightarrow> Inl (make_error PermissionDenied ''path is outside all writable anchor directories'')
         | Some best \<Rightarrow>
             let relative0 = lexically_relative absolute (an_root best);
                 relative = (if relative0 = ''.'' then [] else relative0) in
             (case normalize_relative best relative of
                None \<Rightarrow> Inl (anchor_error k ''AnchorRef relative escapes its anchor root'' candidate None)
              | Some normalized \<Rightarrow> Inr \<lparr>ar_anchor = best, ar_relative = normalized\<rparr>)))"

definition contains_lexical :: "kernel \<Rightarrow> anchor list \<Rightarrow> string \<Rightarrow> bool" where
  "contains_lexical k anchors candidate = (case find_anchor k anchors candidate of Inl _ \<Rightarrow> False | Inr _ \<Rightarrow> True)"

definition launch_workspace_root :: "anchor list \<Rightarrow> string" where
  "launch_workspace_root anchors = an_root (hd anchors)"

section \<open>Opening beneath an anchor\<close>

fun open_fallback_loop :: "kernel \<Rightarrow> open_flags \<Rightarrow> nat \<Rightarrow> descriptor \<Rightarrow> string list \<Rightarrow> descriptor syscall" where
  "open_fallback_loop k flags mode current [] = Inr current"
| "open_fallback_loop k flags mode current (name # rest) =
     (if name = [] \<or> name = ''.'' then open_fallback_loop k flags mode current rest
      else if name = ''..'' then Inl EXDEV
      else
        let flags2 = (if rest = [] then flags\<lparr>o_nofollow := True\<rparr>
                      else \<lparr>o_rdonly = True, o_directory = True, o_creat = False, o_nofollow = True\<rparr>) in
        (case k_openat k current name flags2 mode of
           Inl n \<Rightarrow> Inl n
         | Inr fd \<Rightarrow> open_fallback_loop k flags mode fd rest))"

definition open_beneath_fallback :: "kernel \<Rightarrow> descriptor \<Rightarrow> string \<Rightarrow> open_flags \<Rightarrow> nat \<Rightarrow> descriptor syscall" where
  "open_beneath_fallback k anchor_fd relative flags mode =
     (if relative = [] then
        (if o_directory flags then k_openat k anchor_fd ''.'' (flags\<lparr>o_nofollow := True\<rparr>) mode else Inr anchor_fd)
      else open_fallback_loop k flags mode anchor_fd (path_parts relative))"

fun openat2_attempts :: "kernel \<Rightarrow> descriptor \<Rightarrow> string \<Rightarrow> open_flags \<Rightarrow> nat \<Rightarrow> nat list \<Rightarrow> errno \<Rightarrow> descriptor syscall" where
  "openat2_attempts k fd path flags mode [] last_error = Inl last_error"
| "openat2_attempts k fd path flags mode (attempt # rest) last_error =
     (case k_openat2_beneath k attempt fd path flags mode of
        Inr opened \<Rightarrow> Inr opened
      | Inl n \<Rightarrow> if n \<noteq> EAGAIN then Inl n else openat2_attempts k fd path flags mode rest n)"

definition open_beneath :: "kernel \<Rightarrow> descriptor \<Rightarrow> string \<Rightarrow> open_flags \<Rightarrow> nat \<Rightarrow> descriptor syscall" where
  "open_beneath k anchor_fd relative flags mode =
     (let path = (if relative = [] then ''.'' else relative) in
      (case openat2_attempts k anchor_fd path flags mode [0..<8] 0 of
         Inr opened \<Rightarrow> Inr opened
       | Inl n \<Rightarrow>
           if n = ENOSYS \<or> n = EINVAL \<or> n = E2BIG then open_beneath_fallback k anchor_fd relative flags mode else Inl n))"

section \<open>External reads\<close>

text \<open>A thrown \<^verbatim>\<open>std::system_error\<close>, or a returned error.\<close>

datatype failure = Thrown errno | Returned ava_error

partial_function (option) beneath_walk :: "kernel \<Rightarrow> file_id list \<Rightarrow> descriptor \<Rightarrow> file_id \<Rightarrow> (failure + bool) option" where
  "beneath_walk k anchor_ids current current_id =
     (if current_id \<in> set anchor_ids then Some (Inr True)
      else
        (case k_open_parent k current of
           Inl n \<Rightarrow> Some (Inl (Thrown n))
         | Inr parent \<Rightarrow>
             (case k_file_id k parent of
                Inl n \<Rightarrow> Some (Inl (Thrown n))
              | Inr parent_id \<Rightarrow>
                  if parent_id = current_id then Some (Inr False)
                  else beneath_walk k anchor_ids parent parent_id)))"

declare beneath_walk.simps [code]

definition is_beneath_any_anchor :: "kernel \<Rightarrow> file_id list \<Rightarrow> descriptor \<Rightarrow> (failure + bool) option" where
  "is_beneath_any_anchor k anchor_ids directory =
     (case k_file_id k directory of
        Inl n \<Rightarrow> Some (Inl (Thrown n))
      | Inr current_id \<Rightarrow> beneath_walk k anchor_ids directory current_id)"

record resolved_path =
  rp_object :: descriptor
  rp_parent :: "descriptor option"
  rp_final_component :: string
  rp_is_directory :: bool

definition resolved_directory :: "resolved_path \<Rightarrow> descriptor" where
  "resolved_directory p = (if rp_is_directory p then rp_object p else the (rp_parent p))"

definition enters_anchor :: ava_error where
  "enters_anchor = make_error Configuration ''external path resolution enters a writable anchor''"

definition guard_outside :: "kernel \<Rightarrow> file_id list \<Rightarrow> descriptor \<Rightarrow> (failure + 'a) option \<Rightarrow> (failure + 'a) option" where
  "guard_outside k anchor_ids directory continue =
     (case is_beneath_any_anchor k anchor_ids directory of
        None \<Rightarrow> None
      | Some (Inl e) \<Rightarrow> Some (Inl e)
      | Some (Inr beneath) \<Rightarrow> if beneath then Some (Inl (Returned enters_anchor)) else continue)"

definition path_components :: "string \<Rightarrow> string list" where
  "path_components p = path_names p @ (if trailing_separator p then [[]] else [])"

function resolve_loop ::
  "kernel \<Rightarrow> file_id list \<Rightarrow> bool \<Rightarrow> descriptor \<Rightarrow> nat \<Rightarrow> descriptor \<Rightarrow> string list \<Rightarrow> (failure + resolved_path) option" where
  "resolve_loop k ids nofollow root followed current [] =
     guard_outside k ids current
       (Some (Inr \<lparr>rp_object = current, rp_parent = None, rp_final_component = [], rp_is_directory = True\<rparr>))"
| "resolve_loop k ids nofollow root followed current (component # components) =
     (if component = [] \<or> component = ''.'' then resolve_loop k ids nofollow root followed current components
      else if component = ''..'' then
        (case k_open_parent k current of
           Inl n \<Rightarrow> Some (Inl (Thrown n))
         | Inr parent \<Rightarrow> guard_outside k ids parent (resolve_loop k ids nofollow root followed parent components))
      else
        (case k_open_nofollow k current component of
           Inl n \<Rightarrow> Some (Inl (Thrown n))
         | Inr object \<Rightarrow>
             (case k_file_type k object of
                Inl n \<Rightarrow> Some (Inl (Thrown n))
              | Inr kind \<Rightarrow>
                  if kind = Symlink \<and> \<not> (nofollow \<and> components = []) then
                    (if followed + 1 > 40 then Some (Inl (Thrown ELOOP))
                     else
                       (case k_read_link k object of
                          Inl n \<Rightarrow> Some (Inl (Thrown n))
                        | Inr target \<Rightarrow>
                            resolve_loop k ids nofollow root (followed + 1) (if is_absolute target then root else current)
                              (path_components target @ components)))
                  else
                    let resolved = \<lparr>rp_object = object, rp_parent = Some current, rp_final_component = component,
                                    rp_is_directory = (kind = Directory)\<rparr> in
                    guard_outside k ids (resolved_directory resolved)
                      (if components = [] then Some (Inr resolved)
                       else if kind \<noteq> Directory then Some (Inl (Thrown ENOTDIR))
                       else resolve_loop k ids nofollow root followed object components))))"
  by pat_completeness auto
termination
  by (relation "measures [\<lambda>(k, ids, nofollow, root, followed, current, components). 40 - followed,
                          \<lambda>(k, ids, nofollow, root, followed, current, components). length components]") auto

fun collect_anchor_ids :: "kernel \<Rightarrow> anchor list \<Rightarrow> failure + file_id list" where
  "collect_anchor_ids k [] = Inr []"
| "collect_anchor_ids k (a # as) =
     (case k_file_type k (an_fd a) of
        Inl n \<Rightarrow> Inl (Thrown n)
      | Inr kind \<Rightarrow>
          if kind \<noteq> Directory then Inl (Thrown ENOTDIR)
          else
            (case k_file_id k (an_fd a) of
               Inl n \<Rightarrow> Inl (Thrown n)
             | Inr i \<Rightarrow> (case collect_anchor_ids k as of Inl e \<Rightarrow> Inl e | Inr ids \<Rightarrow> Inr (i # ids))))"

definition resolve_external_path :: "kernel \<Rightarrow> anchor list \<Rightarrow> string \<Rightarrow> bool \<Rightarrow> (failure + resolved_path) option" where
  "resolve_external_path k anchors absolute nofollow_logical_final =
     (case collect_anchor_ids k anchors of
        Inl e \<Rightarrow> Some (Inl e)
      | Inr ids \<Rightarrow>
          (case k_open_root k of
             Inl n \<Rightarrow> Some (Inl (Thrown n))
           | Inr root \<Rightarrow> resolve_loop k ids nofollow_logical_final root 0 root (path_components absolute)))"

definition reopen_resolved_object :: "kernel \<Rightarrow> resolved_path \<Rightarrow> open_flags \<Rightarrow> nat \<Rightarrow> descriptor syscall" where
  "reopen_resolved_object k resolved flags mode =
     (case k_file_id k (rp_object resolved) of
        Inl n \<Rightarrow> Inl n
      | Inr expected \<Rightarrow>
          (case (case rp_parent resolved of
                   Some parent \<Rightarrow> k_openat k parent (rp_final_component resolved) (flags\<lparr>o_nofollow := True\<rparr>) mode
                 | None \<Rightarrow> k_openat k (rp_object resolved) ''.'' (flags\<lparr>o_nofollow := True\<rparr>) mode) of
             Inl n \<Rightarrow> Inl n
           | Inr fd \<Rightarrow>
               (case k_file_id k fd of
                  Inl n \<Rightarrow> Inl n
                | Inr i \<Rightarrow> if i \<noteq> expected then Inl EIO else Inr fd)))"

definition open_path_error :: "kernel \<Rightarrow> string \<Rightarrow> errno \<Rightarrow> string \<Rightarrow> string \<Rightarrow> ava_error" where
  "open_path_error k message error_number path anchor_root =
     (let category = (if error_number = ELOOP \<or> error_number = EXDEV then PermissionDenied
                      else if error_number = ENOENT then NotFound else Io);
          e0 = make_error category message;
          e1 = (if path \<noteq> [] then with_context e0 ''path'' path else e0);
          e2 = (if anchor_root \<noteq> [] then with_context e1 ''anchor_root'' anchor_root else e1) in
      if error_number \<noteq> 0 then with_context e2 ''cause'' (k_strerror k error_number) else e2)"

record anchor_open =
  ao_fd :: descriptor
  ao_root :: string
  ao_absolute :: string
  ao_relative :: string

definition open_writable :: "kernel \<Rightarrow> anchor list \<Rightarrow> string \<Rightarrow> open_flags \<Rightarrow> nat \<Rightarrow> anchor_open ava_result" where
  "open_writable k anchors candidate flags mode =
     (case find_anchor k anchors candidate of
        Inl e \<Rightarrow> Inl e
      | Inr ref \<Rightarrow>
          (case open_beneath k (an_fd (ar_anchor ref)) (ar_relative ref) flags mode of
             Inl n \<Rightarrow> Inl (open_path_error k ''open_writable failed to open path beneath its anchor'' n
                           (ref_absolute ref) (an_root (ar_anchor ref)))
           | Inr fd \<Rightarrow> Inr \<lparr>ao_fd = fd, ao_root = an_root (ar_anchor ref), ao_absolute = ref_absolute ref,
                            ao_relative = ar_relative ref\<rparr>))"

definition open_readable :: "kernel \<Rightarrow> anchor list \<Rightarrow> string \<Rightarrow> open_flags \<Rightarrow> nat \<Rightarrow> anchor_open ava_result option" where
  "open_readable k anchors candidate flags mode =
     (if \<not> o_rdonly flags then Some (Inl (make_error InvalidArgument ''open_readable requires O_RDONLY access flags''))
      else
        (case find_anchor k anchors candidate of
           Inr ref \<Rightarrow>
             (case open_beneath k (an_fd (ar_anchor ref)) (ar_relative ref) flags mode of
                Inl n \<Rightarrow> Some (Inl (open_path_error k ''open_readable failed to open path beneath its anchor'' n
                                    (ref_absolute ref) (an_root (ar_anchor ref))))
              | Inr fd \<Rightarrow> Some (Inr \<lparr>ao_fd = fd, ao_root = an_root (ar_anchor ref), ao_absolute = ref_absolute ref,
                                     ao_relative = ar_relative ref\<rparr>))
         | Inl e \<Rightarrow>
             if err_category e \<noteq> PermissionDenied then Some (Inl e)
             else
               let absolute = lexically_normal candidate;
                   failed = (\<lambda>n. Inl (open_path_error k ''open_readable failed to inspect and open external path'' n absolute [])) in
               (case resolve_external_path k anchors absolute (o_nofollow flags) of
                  None \<Rightarrow> None
                | Some (Inl (Thrown n)) \<Rightarrow> Some (failed n)
                | Some (Inl (Returned err)) \<Rightarrow> Some (Inl (with_context err ''path'' absolute))
                | Some (Inr resolved) \<Rightarrow>
                    (case reopen_resolved_object k resolved flags mode of
                       Inl n \<Rightarrow> Some (failed n)
                     | Inr fd \<Rightarrow> Some (Inr \<lparr>ao_fd = fd, ao_root = [], ao_absolute = absolute, ao_relative = []\<rparr>)))))"

section \<open>Choosing an anchor\<close>

lemma parts_within_prefix: "parts_within a b \<longleftrightarrow> prefix a b"
  by (induction a b rule: parts_within.induct) auto

lemma last_split_slash: "c \<noteq> slash \<Longrightarrow> last (split_slash (u @ [c])) \<noteq> []"
proof (induction u)
  case (Cons d u)
  then show ?case by (cases "split_slash (u @ [c])") (auto split: if_splits)
qed simp

lemma path_filename_empty: "path_filename p = [] \<longleftrightarrow> p = [] \<or> last p = slash"
proof (cases p rule: rev_cases)
  case (snoc u c)
  then show ?thesis using split_slash_cut [of u "[]"] last_split_slash [of c u]
    by (cases "c = slash") (simp_all add: path_filename_def)
qed (simp add: path_filename_def)

lemma path_names_append:
  assumes "\<not> is_absolute q"
  shows "path_names (path_append p q) = path_names p @ path_names q"
proof (cases "path_filename p \<noteq> []")
  case True
  then show ?thesis using assms by (simp add: path_append_def path_names_cut)
next
  case False
  then consider "p = []" | u where "p = u @ [slash]"
    using path_filename_empty [of p] by (metis append_butlast_last_id)
  then show ?thesis
  proof cases
    case 2
    then have "path_names (p @ q) = path_names p @ path_names q"
      using path_names_cut [of u q] path_names_cut [of u "[]"] by simp
    then show ?thesis using assms False by (simp add: path_append_def)
  qed (use assms in \<open>simp add: path_append_def path_filename_def\<close>)
qed

lemma path_append_absolute: "is_absolute p \<Longrightarrow> is_absolute (path_append p q)"
  by (auto simp: path_append_def is_absolute_def)

lemma render_relative_not_absolute:
  "\<forall>w \<in> set ws. good_name w \<Longrightarrow> ws \<noteq> [] \<Longrightarrow> \<not> is_absolute (render_path False ws t)"
proof -
  assume "\<forall>w \<in> set ws. good_name w" "ws \<noteq> []"
  then obtain c u vs where "ws = (c # u) # vs" "c \<noteq> slash"
    by (cases ws; cases "hd ws") (auto simp: good_name_def)
  then show "\<not> is_absolute (render_path False ws t)" by (cases vs) (auto simp: render_path_def is_absolute_def)
qed

lemma normalize_relative_spec:
  assumes root: "normal_absolute (an_root a)" and n: "normalize_relative a rel = Some n"
  shows "\<not> is_absolute n" "dot_free (path_names n)"
    "path_names (lexically_normal (path_append (an_root a) rel)) = path_names (an_root a) @ path_names n"
proof -
  define p where "p = lexically_normal (path_append (an_root a) rel)"
  have p: "normal_absolute p"
    unfolding p_def by (intro lexically_normal_normal path_append_absolute normal_absolute_names(1) [OF root])
  have "prefix (path_names (an_root a)) (path_names p)"
  proof (rule ccontr)
    assume "\<not> prefix (path_names (an_root a)) (path_names p)"
    then obtain rest where rest: "path_parts (lexically_relative p (an_root a)) = ''..'' # rest"
      using relative_outside [OF p root] by blast
    then have "lexically_relative p (an_root a) \<noteq> ''.''" by (auto simp: path_parts_dot)
    moreover have "lexically_relative p (an_root a) \<noteq> []"
      using rest by (auto simp: path_parts_def is_absolute_def trailing_separator_def)
    ultimately show False using n rest by (simp add: normalize_relative_def p_def [symmetric])
  qed
  then obtain R where R: "path_names p = path_names (an_root a) @ R" by (auto simp: prefix_def)
  have free: "dot_free R" using normal_absolute_names(2) [OF p] R by simp
  note good = dot_free_good [OF free]
  have "n = (if R = [] then [] else render_path False R (trailing_separator p))"
  proof (cases "R = []")
    case False
    then have "path_names (render_path False R (trailing_separator p)) = R" using good by simp
    moreover have "path_names ''.'' = [''.'']" by (simp add: path_names_def)
    ultimately have "render_path False R (trailing_separator p) \<noteq> ''.''" using free by auto
    then show ?thesis using n relative_inside [OF p root R] False
      by (simp add: normalize_relative_def p_def [symmetric] Let_def split: if_split_asm)
  qed (use n relative_inside [OF p root R] in \<open>simp add: normalize_relative_def p_def [symmetric]\<close>)
  then have "path_names n = R \<and> \<not> is_absolute n"
    using good render_relative_not_absolute by (auto simp: is_absolute_def)
  then show "\<not> is_absolute n" "dot_free (path_names n)"
    "path_names (lexically_normal (path_append (an_root a) rel)) = path_names (an_root a) @ path_names n"
    using R free by (simp_all add: p_def)
qed

lemma best_anchor_chosen:
  "best_anchor p best as = Some b \<Longrightarrow>
   (best = Some b \<or> b \<in> set as \<and> path_is_within (an_root b) p)
   \<and> (\<forall>a \<in> set as. path_is_within (an_root a) p \<longrightarrow> length (an_root a) \<le> length (an_root b))
   \<and> (\<forall>c. best = Some c \<longrightarrow> length (an_root c) \<le> length (an_root b))"
proof (induction as arbitrary: best)
  case (Cons a as)
  show ?case
  proof (cases "path_is_within (an_root a) p")
    case True
    then show ?thesis using Cons.prems Cons.IH by (cases best) (force split: if_split_asm)+
  next
    case False
    then show ?thesis using Cons by auto
  qed
qed simp

lemma within_prefix:
  assumes "normal_absolute p" "normal_absolute root" "path_is_within root p"
  shows "prefix (path_names root) (path_names p)"
proof -
  obtain rest where r: "path_names p @ (if trailing_separator p then [[]] else []) = path_names root @ (if trailing_separator root then [[]] else []) @ rest"
    using assms(3) by (auto simp: path_is_within_def parts_within_prefix normal_absolute_parts [OF assms(1)] normal_absolute_parts [OF assms(2)] prefix_def)
  have good: "[] \<notin> set (path_names root)" by (simp add: path_names_def)
  show ?thesis
  proof (cases "trailing_separator p")
    case False
    then show ?thesis using r by (auto simp: prefix_def)
  next
    case True
    then have "prefix (path_names root) (path_names p @ [[]])" using r by (auto simp: prefix_def)
    then show ?thesis using good by (auto simp: prefix_snoc)
  qed
qed

lemma inside_append_normal:
  assumes "normal_absolute p" "normal_absolute root" "path_is_within root p"
  shows "path_names (lexically_normal (path_append root (if lexically_relative p root = ''.'' then [] else lexically_relative p root))) = path_names p"
proof -
  obtain R where R: "path_names p = path_names root @ R" using within_prefix [OF assms] by (auto simp: prefix_def)
  have free: "dot_free R" using normal_absolute_names(2) [OF assms(1)] R by simp
  define q where "q = (if lexically_relative p root = ''.'' then [] else lexically_relative p root)"
  have "path_names q = R \<and> \<not> is_absolute q"
  proof (cases "R = []")
    case True
    then show ?thesis using relative_inside [OF assms(1,2) R] by (simp add: q_def is_absolute_def)
  next
    case False
    have pn: "path_names (render_path False R (trailing_separator p)) = R" using dot_free_good [OF free] by simp
    moreover have "path_names ''.'' = [''.'']" by (simp add: path_names_def)
    ultimately have "render_path False R (trailing_separator p) \<noteq> ''.''" using free by auto
    then have "q = render_path False R (trailing_separator p)" using relative_inside [OF assms(1,2) R] False by (simp add: q_def)
    then show ?thesis using pn render_relative_not_absolute [OF dot_free_good [OF free] False] by simp
  qed
  then have names: "path_names (path_append root q) = path_names p" by (simp add: path_names_append R)
  have ab: "is_absolute (path_append root q)" by (intro path_append_absolute normal_absolute_names(1) [OF assms(2)])
  have "normal_names (path_append root q) = path_names p"
    using names normal_absolute_names(2) [OF assms(1)] by (simp add: normal_names_def normal_step_dot_free)
  then show ?thesis unfolding q_def [symmetric]
    using lexically_normal_absolute [OF ab] dot_free_good [OF normal_absolute_names(2) [OF assms(1)]] by simp
qed

lemma anchor_set_open_loop_normal:
  "anchor_set_open_loop k cwd roots acc = Inr anchors \<Longrightarrow> is_absolute cwd \<Longrightarrow> \<forall>a \<in> set acc. normal_absolute (an_root a)
    \<Longrightarrow> \<forall>a \<in> set anchors. normal_absolute (an_root a)"
proof (induction roots arbitrary: acc)
  case (Cons r roots)
  then show ?case
    by (auto simp: Let_def normalized_absolute_normal split: if_split_asm sum.split_asm)
qed simp

lemma anchor_set_open_normal:
  "anchor_set_open k cwd roots = Inr anchors \<Longrightarrow> is_absolute cwd \<Longrightarrow> anchors \<noteq> [] \<and> (\<forall>a \<in> set anchors. normal_absolute (an_root a))"
  unfolding anchor_set_open_def using anchor_set_open_loop_normal [of k cwd roots "[]" anchors]
  by (auto split: sum.split_asm if_split_asm)

lemma ref_names:
  assumes "normal_absolute (an_root a)" "normalize_relative a rel = Some n"
  shows "path_names (ref_absolute \<lparr>ar_anchor = a, ar_relative = n\<rparr>) = path_names (lexically_normal (path_append (an_root a) rel))"
  using normalize_relative_spec [OF assms] by (simp add: ref_absolute_def path_names_append)

definition anchor_contains :: "anchor list \<Rightarrow> string \<Rightarrow> anchor_ref \<Rightarrow> bool" where
  "anchor_contains anchors candidate r \<longleftrightarrow>
     ar_anchor r \<in> set anchors \<and> dot_free (path_names (ar_relative r))
     \<and> path_names (ref_absolute r) = path_names (an_root (ar_anchor r)) @ path_names (ar_relative r)
     \<and> path_names (ref_absolute r)
         = path_names (lexically_normal (if is_absolute candidate then candidate else path_append (launch_workspace_root anchors) candidate))
     \<and> (is_absolute candidate \<longrightarrow>
          (\<forall>a \<in> set anchors. path_is_within (an_root a) (lexically_normal candidate) \<longrightarrow> length (an_root a) \<le> length (an_root (ar_anchor r))))"

lemma find_anchor_relative:
  assumes "anchors \<noteq> []" "\<forall>a \<in> set anchors. normal_absolute (an_root a)" "\<not> is_absolute candidate" "find_anchor k anchors candidate = Inr r"
  shows "anchor_contains anchors candidate r"
proof -
  have root: "normal_absolute (an_root (hd anchors))" and "hd anchors \<in> set anchors" using assms(1,2) by simp_all
  obtain n where n: "normalize_relative (hd anchors) candidate = Some n" "r = \<lparr>ar_anchor = hd anchors, ar_relative = n\<rparr>"
    using assms(3,4) by (auto simp: find_anchor_def split: if_split_asm option.split_asm)
  show ?thesis unfolding anchor_contains_def
    using normalize_relative_spec [OF root n(1)] ref_names [OF root n(1)] assms(1,3)
    by (simp add: n(2) launch_workspace_root_def)
qed

lemma find_anchor_absolute:
  assumes "\<forall>a \<in> set anchors. normal_absolute (an_root a)" "is_absolute candidate" "find_anchor k anchors candidate = Inr r"
  shows "anchor_contains anchors candidate r"
proof -
  define p where "p = lexically_normal candidate"
  have p: "normal_absolute p" unfolding p_def by (rule lexically_normal_normal [OF assms(2)])
  obtain b where b: "best_anchor p None anchors = Some b"
    using assms(2,3) by (auto simp: find_anchor_def p_def is_absolute_def Let_def split: option.split_asm)
  define rel where "rel = (if lexically_relative p (an_root b) = ''.'' then [] else lexically_relative p (an_root b))"
  obtain n where n: "normalize_relative b rel = Some n" "r = \<lparr>ar_anchor = b, ar_relative = n\<rparr>"
    using assms(2,3) b by (auto simp: find_anchor_def p_def [symmetric] is_absolute_def Let_def rel_def split: option.split_asm)
  have chosen: "b \<in> set anchors" "path_is_within (an_root b) p"
      "\<forall>a \<in> set anchors. path_is_within (an_root a) p \<longrightarrow> length (an_root a) \<le> length (an_root b)"
    using best_anchor_chosen [OF b] by auto
  have root: "normal_absolute (an_root b)" using assms(1) chosen(1) by blast
  have "path_names (lexically_normal (path_append (an_root b) rel)) = path_names p"
    unfolding rel_def by (rule inside_append_normal [OF p root chosen(2)])
  then show ?thesis unfolding anchor_contains_def
    using normalize_relative_spec [OF root n(1)] ref_names [OF root n(1)] chosen assms(2)
    by (simp add: n(2) p_def)
qed


section \<open>External reads stay outside every anchor\<close>

text \<open>\<open>climbs k d e\<close>: following parents from the directory \<open>d\<close> reaches \<open>e\<close> before the root repeats.\<close>

inductive climbs :: "kernel \<Rightarrow> descriptor \<Rightarrow> descriptor \<Rightarrow> bool" for k where
  climbs_self: "climbs k d d"
| climbs_up: "k_file_id k d = Inr i \<Longrightarrow> k_open_parent k d = Inr p \<Longrightarrow> k_file_id k p = Inr j \<Longrightarrow> j \<noteq> i \<Longrightarrow> climbs k p e \<Longrightarrow> climbs k d e"

definition outside_anchors :: "kernel \<Rightarrow> file_id list \<Rightarrow> descriptor \<Rightarrow> bool" where
  "outside_anchors k ids d \<longleftrightarrow> (\<forall>e j. climbs k d e \<longrightarrow> k_file_id k e = Inr j \<longrightarrow> j \<notin> set ids)"

lemma beneath_walk_False:
  "climbs k d e \<Longrightarrow> k_file_id k d = Inr i \<Longrightarrow> beneath_walk k ids d i = Some (Inr False) \<Longrightarrow> k_file_id k e = Inr j \<Longrightarrow> j \<notin> set ids"
proof (induction arbitrary: i rule: climbs.induct)
  case (climbs_self d)
  then show ?case by (auto simp: beneath_walk.simps [of k ids d] split: if_split_asm)
next
  case (climbs_up d i' p j' e)
  then have "beneath_walk k ids p j' = Some (Inr False)"
    by (simp add: beneath_walk.simps [of k ids d] split: if_split_asm)
  then show ?case using climbs_up by blast
qed

lemma guard_outside_ok:
  assumes "guard_outside k ids d continue = Some (Inr r)"
  shows "outside_anchors k ids d" "continue = Some (Inr r)"
proof -
  have "is_beneath_any_anchor k ids d = Some (Inr False)" "continue = Some (Inr r)"
    using assms by (auto simp: guard_outside_def split: option.split_asm sum.split_asm if_split_asm)
  then show "outside_anchors k ids d" "continue = Some (Inr r)"
    using beneath_walk_False by (auto simp: is_beneath_any_anchor_def outside_anchors_def split: sum.split_asm)
qed

lemma resolve_loop_outside:
  "resolve_loop k ids nofollow root followed current comps = Some (Inr r) \<Longrightarrow> outside_anchors k ids (resolved_directory r)"
proof (induction k ids nofollow root followed current comps rule: resolve_loop.induct)
  case (1 k ids nofollow root followed current)
  then show ?case using guard_outside_ok by (fastforce simp: resolved_directory_def)
next
  case (2 k ids nofollow root followed current c cs)
  consider "c = [] \<or> c = ''.''" | "c = ''..''" | "c \<noteq> []" "c \<noteq> ''.''" "c \<noteq> ''..''" by blast
  then show ?case
  proof cases
    case 1
    then show ?thesis using 2 by simp
  next
    case 2
    then show ?thesis using "2.prems" "2.IH"(2) by (auto split: sum.split_asm dest: guard_outside_ok(2))
  next
    case 3
    then obtain object kind where o: "k_open_nofollow k current c = Inr object" "k_file_type k object = Inr kind"
      using "2.prems" by (auto split: sum.split_asm)
    show ?thesis
    proof (cases "kind = Symlink \<and> \<not> (nofollow \<and> cs = [])")
      case True
      then show ?thesis using "2.prems" "2.IH"(3) 3 o by (auto split: sum.split_asm if_split_asm)
    next
      case False
      then show ?thesis using "2.prems" "2.IH"(4) 3 o
        by (auto simp: Let_def split: if_split_asm dest: guard_outside_ok)
    qed
  qed
qed

lemma resolve_external_outside:
  "resolve_external_path k anchors absolute nofollow = Some (Inr r) \<Longrightarrow>
   \<exists>ids. collect_anchor_ids k anchors = Inr ids \<and> outside_anchors k ids (resolved_directory r)"
  by (auto simp: resolve_external_path_def split: sum.split_asm dest: resolve_loop_outside)

lemma reopen_same_object: "reopen_resolved_object k r flags mode = Inr fd \<Longrightarrow> k_file_id k fd = k_file_id k (rp_object r)"
  by (auto simp: reopen_resolved_object_def split: sum.split_asm if_split_asm)

text \<open>A small filesystem: the anchor \<open>/w\<close> and, outside of it, the file \<open>/etc/hosts\<close>.\<close>

definition sample_lookup :: "descriptor \<Rightarrow> string \<Rightarrow> descriptor syscall" where
  "sample_lookup d name =
     (if d = 0 \<and> name = ''w'' then Inr 1
      else if d = 0 \<and> name = ''etc'' then Inr 2
      else if d = 2 \<and> name = ''hosts'' then Inr 3
      else Inl ENOENT)"

definition sample_kernel :: kernel where
  "sample_kernel =
     \<lparr>k_strerror = (\<lambda>n. ''error''), k_open_root = Inr 0, k_open_anchor = (\<lambda>p. Inr 1), k_open_nofollow = sample_lookup,
      k_open_parent = (\<lambda>d. Inr (if d = 3 then 2 else 0)),
      k_file_type = (\<lambda>d. Inr (if d = 3 then Regular else Directory)), k_file_id = (\<lambda>d. Inr (0, d)),
      k_read_link = (\<lambda>d. Inl EINVAL), k_openat2_beneath = (\<lambda>attempt fd path flags mode. Inl ENOSYS),
      k_openat = (\<lambda>fd name flags mode. sample_lookup fd name)\<rparr>"

definition sample_anchors :: "anchor list" where
  "sample_anchors = [\<lparr>an_fd = 1, an_root = ''/w''\<rparr>]"

definition read_flags :: open_flags where
  "read_flags = \<lparr>o_rdonly = True, o_directory = False, o_creat = False, o_nofollow = False\<rparr>"




text \<open>The loops end: a filesystem whose parents lead to the root in finitely many steps.\<close>

definition rooted :: "kernel \<Rightarrow> (descriptor \<Rightarrow> nat) \<Rightarrow> bool" where
  "rooted k depth \<longleftrightarrow>
     (\<forall>d p i j. k_file_id k d = Inr i \<longrightarrow> k_open_parent k d = Inr p \<longrightarrow> k_file_id k p = Inr j \<longrightarrow> j \<noteq> i \<longrightarrow> depth p < depth d)"

lemma beneath_walk_total:
  "rooted k depth \<Longrightarrow> k_file_id k d = Inr i \<Longrightarrow> beneath_walk k ids d i \<noteq> None"
proof (induction "depth d" arbitrary: d i rule: less_induct)
  case less
  have up: "beneath_walk k ids p j \<noteq> None" if "k_open_parent k d = Inr p" "k_file_id k p = Inr j" "j \<noteq> i" for p j
  proof -
    have "depth p < depth d" using less.prems that unfolding rooted_def by blast
    then show ?thesis using less that by blast
  qed
  show ?case
  proof (cases "k_open_parent k d")
    case (Inr p)
    with up show ?thesis by (cases "k_file_id k p") (simp_all add: beneath_walk.simps [of k ids d])
  qed (simp add: beneath_walk.simps [of k ids d])
qed

lemma guard_outside_total: "rooted k depth \<Longrightarrow> continue \<noteq> None \<Longrightarrow> guard_outside k ids d continue \<noteq> None"
  using beneath_walk_total [of k depth d _ ids]
  by (auto simp: guard_outside_def is_beneath_any_anchor_def split: option.splits sum.splits)

lemma resolve_loop_total:
  "rooted k depth \<Longrightarrow> resolve_loop k ids nofollow root followed current comps \<noteq> None"
proof (induction k ids nofollow root followed current comps rule: resolve_loop.induct)
  case (1 k ids nofollow root followed current)
  then show ?case using guard_outside_total [of k depth "Some _"] by simp
next
  case (2 k ids nofollow root followed current c cs)
  have g: "\<exists>y. guard_outside k ids d (Some x) = Some y" for d and x :: "failure + resolved_path"
    using guard_outside_total [OF "2.prems", of "Some x"] by auto
  consider "c = [] \<or> c = ''.''" | "c = ''..''" | "c \<noteq> []" "c \<noteq> ''.''" "c \<noteq> ''..''" by blast
  then show ?case
  proof cases
    case 1
    then show ?thesis using 2 by simp
  next
    case 2
    then show ?thesis using "2.prems" "2.IH"(2) by (auto simp: g split: sum.split)
  next
    case 3
    show ?thesis
    proof (cases "k_open_nofollow k current c")
      case (Inr object)
      show ?thesis
      proof (cases "k_file_type k object")
        case (Inr kind)
        note o = \<open>k_open_nofollow k current c = Inr object\<close> Inr
        show ?thesis
        proof (cases "kind = Symlink \<and> \<not> (nofollow \<and> cs = [])")
          case True
          then show ?thesis using "2.prems" "2.IH"(3) 3 o by (auto split: sum.split)
        next
          case False
          then have "resolve_loop k ids nofollow root followed object cs \<noteq> None" if "cs \<noteq> []" "kind = Directory"
            using "2.prems" "2.IH"(4) 3 o that by auto
          then show ?thesis using False 3 o
            by (auto simp: Let_def intro!: guard_outside_total [OF "2.prems", simplified])
        qed
      qed (use 3 Inr in simp)
    qed (use 3 in simp)
  qed
qed

text \<open>
  C38: on a filesystem in which every directory reaches the root in finitely many parent steps,
  \<^verbatim>\<open>open_readable\<close> always returns: the ascent to the root ends, and the resolution ends because at
  most 40 links are followed.
\<close>

theorem open_readable_returns:
  assumes "rooted k depth"
  shows "\<exists>r. open_readable k anchors candidate flags mode = Some r"
proof -
  have "resolve_external_path k anchors p nofollow \<noteq> None" for p nofollow
    using resolve_loop_total [OF assms] by (auto simp: resolve_external_path_def split: sum.split)
  then obtain r where "resolve_external_path k anchors (lexically_normal candidate) (o_nofollow flags) = Some r" by blast
  then show ?thesis by (auto simp: open_readable_def Let_def split: sum.split failure.split)
qed

theorem open_readable_returns_witness:
  "rooted sample_kernel (\<lambda>d. d) \<and> (\<exists>r. open_readable sample_kernel sample_anchors ''/etc/passwd'' read_flags 0 = Some r)"
proof
  show r: "rooted sample_kernel (\<lambda>d. d)" by (auto simp: rooted_def sample_kernel_def split: if_splits)
  show "\<exists>r. open_readable sample_kernel sample_anchors ''/etc/passwd'' read_flags 0 = Some r"
    by (rule open_readable_returns [OF r])
qed

section \<open>The component walk\<close>

inductive descends :: "kernel \<Rightarrow> descriptor \<Rightarrow> descriptor \<Rightarrow> bool" for k where
  descends_self: "descends k d d"
| descends_step: "descends k d e \<Longrightarrow> o_nofollow flags \<Longrightarrow> name \<noteq> ''..'' \<Longrightarrow> k_openat k e name flags mode = Inr f \<Longrightarrow> descends k d f"

lemma open_fallback_loop_descends:
  "open_fallback_loop k flags mode current comps = Inr fd \<Longrightarrow> descends k anchor current \<Longrightarrow> descends k anchor fd \<and> ''..'' \<notin> set comps"
proof (induction comps arbitrary: current)
  case (Cons name rest)
  show ?case
  proof (cases "name = [] \<or> name = ''.''")
    case True
    then show ?thesis using Cons by auto
  next
    case False
    then obtain flags2 fd2 where "k_openat k current name flags2 mode = Inr fd2" "o_nofollow flags2" "name \<noteq> ''..''"
        "open_fallback_loop k flags mode fd2 rest = Inr fd"
      using Cons.prems(1) by (auto simp: Let_def split: if_split_asm sum.split_asm)
    then show ?thesis using Cons.IH descends_step [OF Cons.prems(2)] by auto
  qed
qed simp



end
