(* ===== verification/Command_Discovery.thy ===== *)
theory Command_Discovery
  imports Command_Types Anchors
begin

text \<open>
  Discovery of a command's surroundings, \<^verbatim>\<open>command/discovery.cpp\<close> and \<^verbatim>\<open>command/private_group.cpp\<close>:
  capturing the identity of paths through the anchors, validating owners and modes, building
  the search path, resolving an executable with its shebang chain, sealing recipe arguments,
  and comparing recorded identities with fresh ones.

  What the operating system answers is a parameter, the record \<open>host\<close>. The two looks that
  the code takes at a final component (before and after opening it) are two functions of the
  host, so the check that nothing changed in between is not vacuous. \<^verbatim>\<open>open_readable\<close> need not
  return on every filesystem, so the operations that use it live in \<open>io\<close>: no value when a
  loop does not return, otherwise an error or a result. Mode bits are read off the number
  \<^verbatim>\<open>st_mode\<close>; casts between equal or wider integer types are omitted.
\<close>

section \<open>The host\<close>

record stat_result =
  st_dev :: nat
  st_ino :: nat
  st_mode :: nat
  st_size :: nat
  st_uid :: nat
  st_gid :: nat
  st_nlink :: nat
  st_ctim_sec :: int
  st_ctim_nsec :: int

record passwd_record =
  pw_name :: "string option"
  pw_uid :: nat
  pw_gid :: nat

record group_record =
  gr_name :: "string option"
  gr_gid :: nat
  gr_mem :: "string list"

text \<open>An account file: its metadata, its records, and whether reading ends without an error.\<close>

record 'r account_file =
  af_status :: stat_result
  af_records :: "'r list"
  af_ends :: bool

record host =
  h_kernel :: kernel
  h_euid :: nat
  h_open_path :: "string \<Rightarrow> descriptor syscall"
  h_fstat :: "descriptor \<Rightarrow> stat_result syscall"
  h_fstatat :: "descriptor \<Rightarrow> string \<Rightarrow> stat_result syscall"
  h_fstat_again :: "descriptor \<Rightarrow> stat_result syscall"
  h_fstatat_again :: "descriptor \<Rightarrow> string \<Rightarrow> stat_result syscall"
  h_readlink_fd :: "descriptor \<Rightarrow> string syscall"
  h_read :: "descriptor \<Rightarrow> nat \<Rightarrow> string syscall"
  h_exists :: "string \<Rightarrow> bool syscall"
  h_symlink_found :: "string \<Rightarrow> bool syscall"
  h_getenv_path :: "string option"
  h_passwd_file :: "passwd_record account_file option"
  h_group_file :: "group_record account_file option"

type_synonym 'a io = "'a ava_result option"

definition io_bind :: "'a io \<Rightarrow> ('a \<Rightarrow> 'b io) \<Rightarrow> 'b io" where
  "io_bind m f = (case m of None \<Rightarrow> None | Some (Inl e) \<Rightarrow> Some (Inl e) | Some (Inr x) \<Rightarrow> f x)"

abbreviation io_return :: "'a \<Rightarrow> 'a io" where
  "io_return x \<equiv> Some (Inr x)"

abbreviation io_fail :: "ava_error \<Rightarrow> 'a io" where
  "io_fail e \<equiv> Some (Inl e)"

section \<open>Modes and owners\<close>

definition S_IWOTH :: "nat \<Rightarrow> bool" where "S_IWOTH m \<longleftrightarrow> (m div 2) mod 2 = 1"
definition S_IWGRP :: "nat \<Rightarrow> bool" where "S_IWGRP m \<longleftrightarrow> (m div 16) mod 2 = 1"
definition S_ISVTX :: "nat \<Rightarrow> bool" where "S_ISVTX m \<longleftrightarrow> (m div 512) mod 2 = 1"
definition S_ISDIR :: "nat \<Rightarrow> bool" where "S_ISDIR m \<longleftrightarrow> (m div 4096) mod 16 = 4"
definition S_ISREG :: "nat \<Rightarrow> bool" where "S_ISREG m \<longleftrightarrow> (m div 4096) mod 16 = 8"
definition S_ISLNK :: "nat \<Rightarrow> bool" where "S_ISLNK m \<longleftrightarrow> (m div 4096) mod 16 = 10"
definition group_or_other_bits :: "nat \<Rightarrow> nat" where "group_or_other_bits m = m mod 64"
definition any_execute_bit :: "nat \<Rightarrow> bool" where "any_execute_bit m \<longleftrightarrow> (m div 64) mod 2 = 1 \<or> (m div 8) mod 2 = 1 \<or> m mod 2 = 1"

datatype expected_node = AnyNode | DirectoryNode | RegularNode

definition is_within :: "string \<Rightarrow> string \<Rightarrow> bool" where
  "is_within child parent =
     (if \<not> is_absolute child \<or> \<not> is_absolute parent then False
      else
        let relative = lexically_relative (lexically_normal child) (lexically_normal parent) in
        path_parts relative \<noteq> [] \<and> hd (path_parts relative) \<noteq> ''..'')"

definition mode_is_safe :: "nat \<Rightarrow> bool" where
  "mode_is_safe m \<longleftrightarrow> \<not> S_IWGRP m \<and> \<not> S_IWOTH m"

definition owner_is_safe :: "host \<Rightarrow> nat \<Rightarrow> bool \<Rightarrow> bool" where
  "owner_is_safe h uid require_current_user =
     (if require_current_user then uid = h_euid h else uid = h_euid h \<or> uid = 0)"

definition is_sticky_directory :: "nat \<Rightarrow> bool" where
  "is_sticky_directory m \<longleftrightarrow> S_ISDIR m \<and> S_ISVTX m"

subsection \<open>The private primary group\<close>

abbreviation (input) kMaxAccountRecords :: nat where "kMaxAccountRecords \<equiv> 16 * 1024"
abbreviation (input) kMaxGroupMembers :: nat where "kMaxGroupMembers \<equiv> 1024"
abbreviation (input) kMaxUsernameBytes :: nat where "kMaxUsernameBytes \<equiv> 256"

definition trusted_account_file :: "stat_result \<Rightarrow> bool" where
  "trusted_account_file s \<longleftrightarrow> \<not> (\<not> S_ISREG (st_mode s) \<or> st_uid s \<noteq> 0 \<or> S_IWGRP (st_mode s) \<or> S_IWOTH (st_mode s) \<or> st_nlink s \<noteq> 1)"

definition copy_bounded_username :: "string option \<Rightarrow> string option" where
  "copy_bounded_username v =
     (case v of
        None \<Rightarrow> None
      | Some name \<Rightarrow> if length name = 0 \<or> length name \<ge> kMaxUsernameBytes then None else Some name)"

text \<open>The scan of the passwd file: the name copied so far, the number of matching records, the record index.\<close>

fun passwd_scan :: "nat \<Rightarrow> nat \<Rightarrow> bool \<Rightarrow> string option \<Rightarrow> nat \<Rightarrow> nat \<Rightarrow> passwd_record list \<Rightarrow> string option" where
  "passwd_scan user_id group_id ends username matching index [] =
     (if index > kMaxAccountRecords \<or> \<not> ends then None else if matching = 1 then username else None)"
| "passwd_scan user_id group_id ends username matching index (r # rs) =
     (if index \<ge> kMaxAccountRecords then None
      else if pw_gid r \<noteq> group_id then passwd_scan user_id group_id ends username matching (index + 1) rs
      else if matching + 1 \<noteq> 1 \<or> pw_uid r \<noteq> user_id then None
      else
        (case copy_bounded_username (pw_name r) of
           None \<Rightarrow> None
         | Some name \<Rightarrow> passwd_scan user_id group_id ends (Some name) (matching + 1) (index + 1) rs))"

definition local_passwd_only_member :: "host \<Rightarrow> nat \<Rightarrow> nat \<Rightarrow> string option" where
  "local_passwd_only_member h user_id group_id =
     (case h_passwd_file h of
        None \<Rightarrow> None
      | Some f \<Rightarrow>
          if \<not> trusted_account_file (af_status f) then None
          else passwd_scan user_id group_id (af_ends f) None 0 0 (af_records f))"

fun members_are :: "string \<Rightarrow> nat \<Rightarrow> string list \<Rightarrow> bool" where
  "members_are username index [] = True"
| "members_are username index (m # ms) =
     (if index \<ge> kMaxGroupMembers \<or> m \<noteq> username then False else members_are username (index + 1) ms)"

fun group_scan :: "nat \<Rightarrow> string \<Rightarrow> bool \<Rightarrow> nat \<Rightarrow> nat \<Rightarrow> group_record list \<Rightarrow> bool" where
  "group_scan group_id username ends matching index [] =
     (if index > kMaxAccountRecords \<or> \<not> ends then False else matching = 1)"
| "group_scan group_id username ends matching index (r # rs) =
     (if index \<ge> kMaxAccountRecords then False
      else if gr_gid r \<noteq> group_id then group_scan group_id username ends matching (index + 1) rs
      else if matching + 1 \<noteq> 1 \<or> gr_name r \<noteq> Some username then False
      else if \<not> members_are username 0 (gr_mem r) then False
      else group_scan group_id username ends (matching + 1) (index + 1) rs)"

definition local_group_is_named_private_primary_group :: "host \<Rightarrow> nat \<Rightarrow> string \<Rightarrow> bool" where
  "local_group_is_named_private_primary_group h group_id username =
     (case h_group_file h of
        None \<Rightarrow> False
      | Some f \<Rightarrow>
          if \<not> trusted_account_file (af_status f) then False
          else group_scan group_id username (af_ends f) 0 0 (af_records f))"

definition is_current_user_private_primary_group_directory :: "host \<Rightarrow> nat \<Rightarrow> nat \<Rightarrow> nat \<Rightarrow> bool" where
  "is_current_user_private_primary_group_directory h m uid gid =
     (if \<not> S_ISDIR m \<or> uid = 0 \<or> uid \<noteq> h_euid h \<or> S_IWOTH m then False
      else
        (case local_passwd_only_member h uid gid of
           None \<Rightarrow> False
         | Some username \<Rightarrow> local_group_is_named_private_primary_group h gid username))"

definition directory_mode_is_safe :: "host \<Rightarrow> nat \<Rightarrow> nat \<Rightarrow> nat \<Rightarrow> bool \<Rightarrow> bool" where
  "directory_mode_is_safe h m uid gid allow_private_primary_group_write =
     (if S_IWOTH m then False
      else if \<not> S_IWGRP m then True
      else allow_private_primary_group_write \<and> is_current_user_private_primary_group_directory h m uid gid)"

definition ancestor_directory_mode_is_safe :: "host \<Rightarrow> nat \<Rightarrow> nat \<Rightarrow> nat \<Rightarrow> bool" where
  "ancestor_directory_mode_is_safe h m uid gid =
     (if mode_is_safe m then True
      else if is_sticky_directory m \<and> uid = 0 then True
      else directory_mode_is_safe h m uid gid True)"

section \<open>Capturing identities\<close>

definition normalized_absolute :: "string \<Rightarrow> string \<Rightarrow> string ava_result" where
  "normalized_absolute input label =
     (if input = [] \<or> \<not> is_absolute input \<or> has_forbidden_path_byte input then
        Inl (command_error InvalidArgument (label @ '' must be an absolute logical path without control bytes'') ''path'' input)
      else Inr (lexically_normal input))"

definition caused :: "host \<Rightarrow> errno \<Rightarrow> ava_error \<Rightarrow> ava_error" where
  "caused h n e = with_context e ''cause'' (k_strerror (h_kernel h) n)"

definition metadata_stat :: "host \<Rightarrow> string \<Rightarrow> string \<Rightarrow> stat_result ava_result" where
  "metadata_stat h path label =
     (case h_open_path h path of
        Inl n \<Rightarrow> Inl (caused h n (command_error (if n = ENOENT then NotFound else Io) (''failed to inspect '' @ label) ''path'' path))
      | Inr fd \<Rightarrow>
          (case h_fstat h fd of
             Inl n \<Rightarrow> Inl (caused h n (command_error Io (''failed to read metadata for '' @ label) ''path'' path))
           | Inr status \<Rightarrow> Inr status))"

definition ancestor_metadata_from :: "string \<Rightarrow> stat_result \<Rightarrow> path_ancestor_metadata" where
  "ancestor_metadata_from path status =
     \<lparr>anc_path = path, anc_device = st_dev status, anc_inode = st_ino status, anc_mode = st_mode status, anc_owner = st_uid status,
      anc_group = st_gid status, anc_link_count = st_nlink status, anc_changed_seconds = st_ctim_sec status,
      anc_changed_nanoseconds = st_ctim_nsec status, anc_is_symlink = S_ISLNK (st_mode status),
      anc_identity_bound = (\<not> (is_sticky_directory (st_mode status) \<and> st_uid status = 0))\<rparr>"

fun capture_parents ::
  "host \<Rightarrow> string \<Rightarrow> string \<Rightarrow> string list \<Rightarrow> string list \<times> path_ancestor_metadata list \<Rightarrow> (string list \<times> path_ancestor_metadata list) ava_result" where
  "capture_parents h label current [] acc = Inr acc"
| "capture_parents h label current (component # rest) (seen, captured) =
     (let path = path_append current component in
      if list_ex (path_eq path) seen then capture_parents h label path rest (seen, captured)
      else
        (case metadata_stat h path label of
           Inl e \<Rightarrow> Inl e
         | Inr status \<Rightarrow>
             capture_parents h label path rest (path # seen, captured @ [ancestor_metadata_from path status])))"

definition capture_ancestor_metadata :: "host \<Rightarrow> string \<Rightarrow> string \<Rightarrow> string \<Rightarrow> path_ancestor_metadata list ava_result" where
  "capture_ancestor_metadata h requested canonical label =
     (case capture_parents h label ''/'' (path_components (parent_path requested)) ([], []) of
        Inl e \<Rightarrow> Inl e
      | Inr acc \<Rightarrow>
          (case capture_parents h label ''/'' (path_components (parent_path canonical)) acc of
             Inl e \<Rightarrow> Inl e
           | Inr (seen, captured) \<Rightarrow> Inr captured))"

definition metadata_from :: "string \<Rightarrow> stat_result \<Rightarrow> stat_result \<Rightarrow> path_ancestor_metadata list \<Rightarrow> path_metadata" where
  "metadata_from requested requested_status target_status ancestors =
     \<lparr>requested_path = requested, canonical_path = requested, md_device = st_dev target_status, md_inode = st_ino target_status,
      md_mode = st_mode target_status, md_size = st_size target_status, md_owner = st_uid target_status,
      md_group = st_gid target_status, md_link_count = st_nlink target_status, md_changed_seconds = st_ctim_sec target_status,
      md_changed_nanoseconds = st_ctim_nsec target_status, requested_path_is_symlink = S_ISLNK (st_mode requested_status),
      requested_device = st_dev requested_status, requested_inode = st_ino requested_status,
      requested_mode = st_mode requested_status, requested_owner = st_uid requested_status,
      requested_group = st_gid requested_status, requested_link_count = st_nlink requested_status,
      requested_changed_seconds = st_ctim_sec requested_status, requested_changed_nanoseconds = st_ctim_nsec requested_status,
      ancestor_metadata = ancestors\<rparr>"

definition o_path_directory :: open_flags where
  "o_path_directory = \<lparr>o_rdonly = True, o_directory = True, o_creat = False, o_nofollow = False\<rparr>"

definition anchored_final_status :: "host \<Rightarrow> bool \<Rightarrow> anchor_ref \<Rightarrow> string \<Rightarrow> stat_result ava_result" where
  "anchored_final_status h again ref label =
     (let fstat = (if again then h_fstat_again h else h_fstat h);
          fstatat = (if again then h_fstatat_again h else h_fstatat h);
          anchor_fd = an_fd (ar_anchor ref) in
      if ar_relative ref = [] \<or> ar_relative ref = ''.'' then
        (case fstat anchor_fd of
           Inl n \<Rightarrow> Inl (caused h n (command_error Io (''failed to inspect '' @ label) [] []))
         | Inr status \<Rightarrow> Inr status)
      else
        let parent_relative = parent_path (ar_relative ref) in
        (case (if parent_relative \<noteq> [] \<and> parent_relative \<noteq> ''.'' then
                 open_beneath (h_kernel h) anchor_fd parent_relative o_path_directory 0
               else Inr anchor_fd) of
           Inl n \<Rightarrow> Inl (caused h n (command_error PermissionDenied ''failed to inspect descriptor-bound path parent'' ''path'' (ref_absolute ref)))
         | Inr parent_fd \<Rightarrow>
             (case fstatat parent_fd (path_filename (ar_relative ref)) of
                Inl n \<Rightarrow> Inl (caused h n (command_error (if n = ENOENT then NotFound else Io) (''failed to inspect '' @ label) ''path'' (ref_absolute ref)))
              | Inr status \<Rightarrow> Inr status)))"

definition same_identity :: "stat_result \<Rightarrow> stat_result \<Rightarrow> bool" where
  "same_identity a b \<longleftrightarrow>
     st_dev a = st_dev b \<and> st_ino a = st_ino b \<and> st_mode a = st_mode b \<and> st_uid a = st_uid b \<and> st_gid a = st_gid b
     \<and> st_nlink a = st_nlink b \<and> st_ctim_sec a = st_ctim_sec b \<and> st_ctim_nsec a = st_ctim_nsec b"

definition node_flags :: "expected_node \<Rightarrow> open_flags" where
  "node_flags expected = \<lparr>o_rdonly = True, o_directory = (expected = DirectoryNode), o_creat = False, o_nofollow = False\<rparr>"

definition unchanged_during_inspection :: "host \<Rightarrow> anchor_ref option \<Rightarrow> stat_result \<Rightarrow> string \<Rightarrow> string \<Rightarrow> unit ava_result" where
  "unchanged_during_inspection h ref requested_status requested label =
     (case ref of
        None \<Rightarrow> Inr ()
      | Some r \<Rightarrow>
          (case anchored_final_status h True r label of
             Inr observed \<Rightarrow>
               if same_identity observed requested_status then Inr ()
               else Inl (command_error Io (label @ '' changed during descriptor inspection'') ''path'' requested)
           | Inl _ \<Rightarrow> Inl (command_error Io (label @ '' changed during descriptor inspection'') ''path'' requested)))"

definition inspect_path_metadata :: "host \<Rightarrow> string \<Rightarrow> expected_node \<Rightarrow> bool \<Rightarrow> string \<Rightarrow> anchor list option \<Rightarrow> path_metadata io" where
  "inspect_path_metadata h input expected reject_final_symlink label anchors =
     io_bind (Some (normalized_absolute input label)) (\<lambda>requested.
       let ref = (case anchors of
                    None \<Rightarrow> None
                  | Some as \<Rightarrow> (case find_anchor (h_kernel h) as requested of Inl _ \<Rightarrow> None | Inr r \<Rightarrow> Some r)) in
       io_bind (Some (case ref of Some r \<Rightarrow> anchored_final_status h False r label | None \<Rightarrow> metadata_stat h requested label))
         (\<lambda>requested_status.
           if reject_final_symlink \<and> ref = None \<and> S_ISLNK (st_mode requested_status) then
             io_fail (command_error PermissionDenied (label @ '' must not be a final-component symlink'') ''path'' requested)
           else
             (case anchors of
                None \<Rightarrow> io_fail (invalid_command ''command planning requires the shared AnchorSet'')
              | Some as \<Rightarrow>
                  io_bind (open_readable (h_kernel h) as requested (node_flags expected) 0) (\<lambda>opened.
                    (case h_fstat h (ao_fd opened) of
                       Inl n \<Rightarrow> io_fail (caused h n (command_error Io (''failed to read descriptor metadata for '' @ label) ''path'' requested))
                     | Inr target_status \<Rightarrow>
                         io_bind (Some (unchanged_during_inspection h ref requested_status requested label)) (\<lambda>_.
                           if expected = DirectoryNode \<and> \<not> S_ISDIR (st_mode target_status)
                              \<or> expected = RegularNode \<and> \<not> S_ISREG (st_mode target_status)
                           then io_fail (command_error InvalidArgument (label @ '' has an unexpected file type'') ''path'' requested)
                           else
                             io_bind (Some (if ref = None then capture_ancestor_metadata h requested requested ''path ancestor'' else Inr []))
                               (\<lambda>ancestors. io_return (metadata_from requested requested_status target_status ancestors))))))))"

section \<open>Validating owners and modes\<close>

fun validate_safe_ancestors :: "host \<Rightarrow> path_ancestor_metadata list \<Rightarrow> unit ava_result" where
  "validate_safe_ancestors h [] = Inr ()"
| "validate_safe_ancestors h (a # as) =
     (if anc_is_symlink a then
        (if \<not> S_ISLNK (anc_mode a) \<or> \<not> owner_is_safe h (anc_owner a) False \<or> anc_link_count a \<noteq> 1 then
           Inl (command_error PermissionDenied ''command path symlink ancestor has an unsafe owner or link count'' ''path'' (anc_path a))
         else validate_safe_ancestors h as)
      else if \<not> S_ISDIR (anc_mode a) then
        Inl (command_error PermissionDenied ''command path ancestor is not a directory'' ''path'' (anc_path a))
      else if \<not> owner_is_safe h (anc_owner a) False then
        Inl (command_error PermissionDenied ''command path ancestor has an unsafe owner'' ''path'' (anc_path a))
      else if \<not> ancestor_directory_mode_is_safe h (anc_mode a) (anc_owner a) (anc_group a) then
        Inl (command_error PermissionDenied
          ''command path ancestor is group/world writable outside the verified private-primary-group exception'' ''path'' (anc_path a))
      else validate_safe_ancestors h as)"

definition validate_safe_final_symlink_identity :: "host \<Rightarrow> string \<Rightarrow> bool \<Rightarrow> nat \<Rightarrow> nat \<Rightarrow> nat \<Rightarrow> string \<Rightarrow> unit ava_result" where
  "validate_safe_final_symlink_identity h path is_symlink m owner link_count label =
     (if \<not> is_symlink then Inr ()
      else if \<not> S_ISLNK m \<or> \<not> owner_is_safe h owner False \<or> link_count \<noteq> 1 then
        Inl (command_error PermissionDenied (label @ '' symlink has an unsafe owner or link count'') ''path'' path)
      else Inr ())"

definition validate_safe_final_symlink :: "host \<Rightarrow> path_metadata \<Rightarrow> string \<Rightarrow> unit ava_result" where
  "validate_safe_final_symlink h md label =
     validate_safe_final_symlink_identity h (requested_path md) (requested_path_is_symlink md) (requested_mode md) (requested_owner md)
       (requested_link_count md) label"

definition both_valid :: "unit ava_result \<Rightarrow> unit ava_result \<Rightarrow> unit ava_result" where
  "both_valid first second = (case first of Inl e \<Rightarrow> Inl e | Inr _ \<Rightarrow> second)"

definition validate_safe_directory :: "host \<Rightarrow> path_metadata \<Rightarrow> bool \<Rightarrow> bool \<Rightarrow> string \<Rightarrow> unit ava_result" where
  "validate_safe_directory h md require_current_user allow_private_primary_group_write label =
     (if \<not> S_ISDIR (md_mode md) \<or> \<not> directory_mode_is_safe h (md_mode md) (md_owner md) (md_group md) allow_private_primary_group_write
         \<or> \<not> owner_is_safe h (md_owner md) require_current_user
      then Inl (command_error PermissionDenied
        (label @ '' has unsafe ownership or group/world-writable permissions outside the verified private-primary-group exception'')
        ''path'' (canonical_path md))
      else both_valid (validate_safe_final_symlink h md label) (validate_safe_ancestors h (ancestor_metadata md)))"

definition validate_safe_authority_node :: "host \<Rightarrow> path_metadata \<Rightarrow> unit ava_result" where
  "validate_safe_authority_node h md =
     (if S_ISDIR (md_mode md) then validate_safe_directory h md True True ''AVA authority root''
      else if \<not> S_ISREG (md_mode md) \<or> \<not> mode_is_safe (md_mode md) \<or> \<not> owner_is_safe h (md_owner md) True \<or> md_link_count md \<noteq> 1
      then Inl (command_error PermissionDenied ''AVA authority node must be a safely owned directory or regular file''
        ''path'' (canonical_path md))
      else both_valid (validate_safe_final_symlink h md ''AVA authority node'') (validate_safe_ancestors h (ancestor_metadata md)))"

definition validate_synthetic_environment_directory :: "host \<Rightarrow> path_metadata \<Rightarrow> string \<Rightarrow> unit ava_result" where
  "validate_synthetic_environment_directory h md label =
     (if \<not> S_ISDIR (md_mode md) \<or> \<not> owner_is_safe h (md_owner md) True \<or> group_or_other_bits (md_mode md) \<noteq> 0
      then Inl (command_error PermissionDenied (label @ '' must be an owner-owned 0700-style directory'') ''path'' (canonical_path md))
      else validate_safe_ancestors h (ancestor_metadata md))"

definition validate_safe_recipe_path :: "host \<Rightarrow> path_metadata \<Rightarrow> unit ava_result" where
  "validate_safe_recipe_path h md =
     (if \<not> S_ISDIR (md_mode md) \<and> \<not> S_ISREG (md_mode md) \<or> \<not> mode_is_safe (md_mode md) \<or> \<not> owner_is_safe h (md_owner md) False
         \<or> S_ISREG (md_mode md) \<and> md_link_count md \<noteq> 1
      then Inl (command_error PermissionDenied
        ''recipe path argument has unsafe ownership, mode, link count, or symlink provenance'' ''path'' (canonical_path md))
      else validate_safe_ancestors h (ancestor_metadata md))"

definition validate_safe_executable :: "host \<Rightarrow> executable_metadata \<Rightarrow> unit ava_result" where
  "validate_safe_executable h md =
     (if \<not> S_ISREG (md_mode md) \<or> \<not> any_execute_bit (md_mode md) then
        Inl (command_error InvalidArgument ''resolved command is not a regular executable file'' ''path'' (canonical_path md))
      else if \<not> mode_is_safe (md_mode md) \<or> \<not> owner_is_safe h (md_owner md) False \<or> md_link_count md \<noteq> 1 then
        Inl (command_error PermissionDenied ''resolved command has unsafe owner, writable mode, or link count'' ''path'' (canonical_path md))
      else
        both_valid
          (validate_safe_final_symlink_identity h (requested_path md) (requested_path_is_symlink md) (requested_mode md)
             (requested_owner md) (requested_link_count md) ''executable'')
          (validate_safe_ancestors h (ancestor_metadata md)))"

end
