(* ===== verification/Command_Search.thy ===== *)
theory Command_Search
  imports Command_Discovery
begin

text \<open>
  The search half of \<^verbatim>\<open>command/discovery.cpp\<close>: sealing executables, building the search path and
  following shebang chains.
\<close>

section \<open>Options and contexts\<close>

record command_environment_options =
  eo_profile_id :: string
  eo_user :: string
  eo_logname :: string
  eo_home :: string
  eo_xdg_config_home :: string
  eo_xdg_cache_home :: string
  eo_xdg_data_home :: string
  eo_xdg_state_home :: string
  eo_tmpdir :: string

record command_build_options =
  bo_workspace :: string
  bo_anchor_set :: "anchor list option"
  bo_trusted_home :: string
  bo_discover_host_user_tools :: bool
  bo_startup_path :: "string option"
  bo_shell :: string
  bo_ava_authority_roots :: "string list"
  bo_environment :: command_environment_options
  bo_workspace_script_recipes :: "workspace_script_recipe list"
  bo_limits :: command_limits

record sealed_command_context =
  sc_workspace :: string
  sc_cwd :: string
  sc_workspace_metadata :: path_metadata
  sc_cwd_metadata :: path_metadata
  sc_trusted_home_metadata :: path_metadata
  sc_ava_authority_roots :: "string list"
  sc_ava_authority_root_metadata :: "path_metadata list"
  sc_synthetic_environment_roots :: synthetic_environment_roots
  sc_path_entries :: "command_path_entry list"

lemma io_bind_cong [fundef_cong]:
  "m = m' \<Longrightarrow> (\<And>x. m' = Some (Inr x) \<Longrightarrow> f x = g x) \<Longrightarrow> io_bind m f = io_bind m' g"
  by (auto simp: io_bind_def split: option.split sum.split)

section \<open>Executables\<close>

datatype descriptor_path_failure = ReadlinkFailure errno | DeletedFailure | NotAbsoluteFailure

definition descriptor_physical_path_checked :: "host \<Rightarrow> descriptor \<Rightarrow> descriptor_path_failure + string" where
  "descriptor_physical_path_checked h fd =
     (case h_readlink_fd h fd of
        Inl n \<Rightarrow> Inl (ReadlinkFailure n)
      | Inr target \<Rightarrow>
          if target = [] then Inl (ReadlinkFailure EIO)
          else if ends_with target '' (deleted)'' then Inl DeletedFailure
          else if hd target \<noteq> slash then Inl NotAbsoluteFailure
          else Inr target)"

definition descriptor_executable_path :: "host \<Rightarrow> descriptor \<Rightarrow> string \<Rightarrow> string ava_result" where
  "descriptor_executable_path h fd logical =
     (case descriptor_physical_path_checked h fd of
        Inr physical \<Rightarrow> Inr (lexically_normal physical)
      | Inl DeletedFailure \<Rightarrow> Inl (command_error Io ''executable changed during descriptor identity capture'' ''path'' logical)
      | Inl NotAbsoluteFailure \<Rightarrow> Inl (command_error Io ''executable descriptor identity is not absolute'' ''path'' logical)
      | Inl (ReadlinkFailure n) \<Rightarrow>
          Inl (caused h n (command_error Io ''failed to derive narrow executable identity from its descriptor'' ''path'' logical)))"

definition opened_matches :: "stat_result \<Rightarrow> path_metadata \<Rightarrow> bool" where
  "opened_matches s md \<longleftrightarrow> st_dev s = md_device md \<and> st_ino s = md_inode md \<and> st_ctim_sec s = md_changed_seconds md
     \<and> st_ctim_nsec s = md_changed_nanoseconds md"

definition executable_metadata :: "host \<Rightarrow> string \<Rightarrow> anchor list \<Rightarrow> executable_metadata io" where
  "executable_metadata h requested anchors =
     io_bind (inspect_path_metadata h requested RegularNode False ''executable'' (Some anchors)) (\<lambda>md.
       io_bind (open_readable (h_kernel h) anchors (requested_path md) (node_flags AnyNode) 0) (\<lambda>opened.
         let changed = command_error Io ''executable changed during descriptor identity capture'' ''path'' (requested_path md) in
         (case h_fstat h (ao_fd opened) of
            Inl n \<Rightarrow> io_fail changed
          | Inr opened_status \<Rightarrow>
              if \<not> opened_matches opened_status md then io_fail changed
              else
                io_bind (Some (descriptor_executable_path h (ao_fd opened) (requested_path md))) (\<lambda>physical.
                  let executable = md\<lparr>canonical_path := physical\<rparr> in
                  io_bind (Some (validate_safe_executable h executable)) (\<lambda>_. io_return executable)))))"

section \<open>The search path\<close>

fun split_path :: "string \<Rightarrow> string list" where
  "split_path [] = [[]]"
| "split_path (c # s) =
     (if c = CHR '':'' then [] # split_path s
      else (case split_path s of [] \<Rightarrow> [[c]] | w # ws \<Rightarrow> (c # w) # ws))"

definition safe_path_directory :: "host \<Rightarrow> string \<Rightarrow> path_provenance \<Rightarrow> anchor list \<Rightarrow> command_path_entry io" where
  "safe_path_directory h requested provenance anchors =
     (if requested = [] \<or> \<not> is_absolute requested then
        io_fail (command_error InvalidArgument ''PATH entry must be an absolute non-empty directory'' ''path'' requested)
      else if has_forbidden_path_byte requested \<or> CHR '':'' \<in> set requested then
        io_fail (command_error InvalidArgument ''PATH entry contains unsafe bytes'' ''path'' requested)
      else
        let startup = (provenance = StartupPath) in
        io_bind (inspect_path_metadata h requested DirectoryNode (\<not> startup) ''PATH entry'' (Some anchors)) (\<lambda>md.
          io_bind (Some (validate_safe_directory h md (\<not> startup) True ''PATH directory'')) (\<lambda>_.
            io_return \<lparr>pe_directory = canonical_path md, pe_provenance = provenance, pe_metadata = md\<rparr>)))"

definition append_unique_path :: "command_path_entry list \<Rightarrow> command_path_entry \<Rightarrow> command_path_entry list" where
  "append_unique_path entries entry =
     (if list_ex (\<lambda>existing. path_eq (pe_directory existing) (pe_directory entry)) entries then entries else entries @ [entry])"

definition exposes_home :: "path_metadata \<Rightarrow> command_path_entry \<Rightarrow> bool" where
  "exposes_home trusted_home_metadata safe \<longleftrightarrow>
     path_eq (pe_directory safe) ''/'' \<or> is_within (canonical_path trusted_home_metadata) (pe_directory safe)
     \<or> md_device (pe_metadata safe) = md_device trusted_home_metadata \<and> md_inode (pe_metadata safe) = md_inode trusted_home_metadata"

fun startup_entries :: "host \<Rightarrow> path_metadata \<Rightarrow> anchor list \<Rightarrow> command_path_entry list \<Rightarrow> string list \<Rightarrow> command_path_entry list io" where
  "startup_entries h trusted_home_metadata anchors entries [] = io_return entries"
| "startup_entries h trusted_home_metadata anchors entries (entry # rest) =
     (if entry = [] then io_fail (invalid_command ''startup PATH contains an empty entry'')
      else
        (case safe_path_directory h entry StartupPath anchors of
           None \<Rightarrow> None
         | Some (Inl e) \<Rightarrow>
             if err_category e = InvalidArgument then io_fail e
             else startup_entries h trusted_home_metadata anchors entries rest
         | Some (Inr safe) \<Rightarrow>
             if exposes_home trusted_home_metadata safe then startup_entries h trusted_home_metadata anchors entries rest
             else startup_entries h trusted_home_metadata anchors (append_unique_path entries safe) rest))"

definition add_optional_candidate ::
  "host \<Rightarrow> anchor list \<Rightarrow> string \<Rightarrow> path_provenance \<Rightarrow> command_path_entry list \<Rightarrow> command_path_entry list io" where
  "add_optional_candidate h anchors candidate provenance entries =
     (case safe_path_directory h candidate provenance anchors of
        None \<Rightarrow> None
      | Some (Inl _) \<Rightarrow> io_return entries
      | Some (Inr safe) \<Rightarrow> io_return (append_unique_path entries safe))"

fun path_size_loop :: "nat \<Rightarrow> nat \<Rightarrow> command_path_entry list \<Rightarrow> unit ava_result" where
  "path_size_loop max_bytes total_bytes [] = Inr ()"
| "path_size_loop max_bytes total_bytes (entry # rest) =
     (if exceeds_limit total_bytes (length (pe_directory entry)) max_bytes then
        Inl (invalid_command ''derived PATH exceeds the bounded size'')
      else path_size_loop max_bytes (total_bytes + length (pe_directory entry)) rest)"

definition startup_path_entries :: "host \<Rightarrow> command_build_options \<Rightarrow> path_metadata \<Rightarrow> anchor list \<Rightarrow> command_path_entry list io" where
  "startup_path_entries h options trusted_home_metadata anchors =
     (case (case bo_startup_path options of Some p \<Rightarrow> Some p | None \<Rightarrow> h_getenv_path h) of
        None \<Rightarrow> io_return []
      | Some p \<Rightarrow>
          if length p > max_path_bytes (bo_limits options) then io_fail (invalid_command ''startup PATH exceeds the bounded input size'')
          else if has_c0_or_del p then io_fail (invalid_command ''startup PATH contains a forbidden control byte'')
          else if length (split_path p) > max_path_entries (bo_limits options) then
            io_fail (invalid_command ''startup PATH has too many entries'')
          else startup_entries h trusted_home_metadata anchors [] (split_path p))"

definition discover_path :: "host \<Rightarrow> command_build_options \<Rightarrow> string \<Rightarrow> path_metadata \<Rightarrow> anchor list \<Rightarrow> command_path_entry list io" where
  "discover_path h options workspace trusted_home_metadata anchors =
     (let limits = bo_limits options;
          trusted_home = canonical_path trusted_home_metadata in
      io_bind (startup_path_entries h options trusted_home_metadata anchors) (\<lambda>entries0.
      io_bind
        (if bo_discover_host_user_tools options then
           add_optional_candidate h anchors (path_append (path_append trusted_home ''.local'') ''bin'') UserLocal entries0
         else io_return entries0)
        (\<lambda>entries1.
      io_bind (add_optional_candidate h anchors (path_append (path_append workspace ''.venv'') ''bin'') WorkspaceVenv entries1) (\<lambda>entries2.
      io_bind (add_optional_candidate h anchors (path_append (path_append workspace ''node_modules'') ''.bin'') WorkspaceNodeModules entries2)
        (\<lambda>entries.
          if length entries > max_path_entries limits then io_fail (invalid_command ''derived PATH has too many safe entries'')
          else io_bind (Some (path_size_loop (max_path_bytes limits) 0 entries)) (\<lambda>_. io_return entries))))))"

definition executable_origin :: "executable_metadata \<Rightarrow> string \<Rightarrow> string \<Rightarrow> executable_origin" where
  "executable_origin executable workspace trusted_home =
     (if is_within (requested_path executable) workspace then WorkspaceOrigin
      else if is_within (requested_path executable) trusted_home then UserOrigin
      else if md_owner executable \<noteq> 0 \<or> requested_path_is_symlink executable \<and> requested_owner executable \<noteq> 0
              \<or> list_ex (\<lambda>a. anc_identity_bound a \<and> anc_owner a \<noteq> 0) (ancestor_metadata executable)
      then UserOrigin
      else SystemOrigin)"

section \<open>Shebang chains\<close>

record shebang_parse =
  sp_interpreter_path :: string
  sp_argument :: string
  sp_is_env :: bool

definition is_separator :: "char \<Rightarrow> bool" where
  "is_separator ch \<longleftrightarrow> ch = CHR '' '' \<or> ch = CHR 0x09"

abbreviation (input) kLinuxShebangBufferBytes :: nat where
  "kLinuxShebangBufferBytes \<equiv> 256"

definition parse_shebang_line :: "nat \<Rightarrow> string \<Rightarrow> string \<Rightarrow> shebang_parse option ava_result" where
  "parse_shebang_line read_limit canonical line =
     (if \<not> starts_with line ''#!'' then Inr None
      else
        let newline = str_find [CHR 0x0A] line in
        if newline = None \<and> length line = read_limit then
          Inl (command_error InvalidArgument ''shebang line exceeds the sealed Linux interpreter buffer; shorten the shebang before execution''
            ''path'' canonical)
        else
          let body = (case newline of None \<Rightarrow> drop 2 line | Some n \<Rightarrow> take (n - 2) (drop 2 line));
              start = dropWhile is_separator body;
              interpreter = takeWhile (\<lambda>ch. \<not> is_separator ch) start;
              argument = dropWhile is_separator (dropWhile (\<lambda>ch. \<not> is_separator ch) start) in
          if interpreter = [] \<or> has_c0_or_del interpreter \<or> \<not> is_absolute interpreter then
            Inl (command_error InvalidArgument ''shebang must name an absolute interpreter path'' ''path'' canonical)
          else Inr (Some \<lparr>sp_interpreter_path = interpreter, sp_argument = argument, sp_is_env = (interpreter = ''/usr/bin/env'')\<rparr>))"

definition shebang_interpreter_path :: "host \<Rightarrow> executable_metadata \<Rightarrow> command_limits \<Rightarrow> anchor list \<Rightarrow> shebang_parse option io" where
  "shebang_interpreter_path h executable limits anchors =
     io_bind (open_readable (h_kernel h) anchors (requested_path executable) (node_flags AnyNode) 0) (\<lambda>opened.
       let changed = command_error Io ''executable changed during shebang inspection'' ''path'' (canonical_path executable) in
       (case h_fstat h (ao_fd opened) of
          Inl n \<Rightarrow> io_fail changed
        | Inr status \<Rightarrow>
            if \<not> S_ISREG (st_mode status) \<or> \<not> opened_matches status executable then io_fail changed
            else
              let read_limit = min (max_shebang_bytes limits + 1) kLinuxShebangBufferBytes in
              (case h_read h (ao_fd opened) read_limit of
                 Inl n \<Rightarrow> io_fail (caused h n (command_error Io ''failed to read executable shebang'' ''path'' (canonical_path executable)))
               | Inr line \<Rightarrow> Some (parse_shebang_line read_limit (canonical_path executable) line))))"

fun resolve_env_name :: "host \<Rightarrow> string \<Rightarrow> anchor list \<Rightarrow> command_path_entry list \<Rightarrow> executable_metadata option option" where
  "resolve_env_name h name anchors [] = Some None"
| "resolve_env_name h name anchors (entry # rest) =
     (if name = [] \<or> slash \<in> set name \<or> has_c0_or_del name then Some None
      else
        let candidate = path_append (pe_directory entry) name in
        (case h_exists h candidate of
           Inl _ \<Rightarrow> resolve_env_name h name anchors rest
         | Inr exists \<Rightarrow>
             if \<not> exists then resolve_env_name h name anchors rest
             else
               (case executable_metadata h candidate anchors of
                  None \<Rightarrow> None
                | Some (Inl _) \<Rightarrow> Some None
                | Some (Inr md) \<Rightarrow> Some (Some md))))"

text \<open>The single name in the argument of an \<^verbatim>\<open>env\<close> shebang, if it is one.\<close>

definition env_name :: "string \<Rightarrow> string option" where
  "env_name argument =
     (let start = dropWhile is_separator argument;
          token = takeWhile (\<lambda>ch. \<not> is_separator ch) start;
          rest = dropWhile is_separator (dropWhile (\<lambda>ch. \<not> is_separator ch) start) in
      if token = [] \<or> rest \<noteq> [] then None else Some token)"

definition chain_cycle :: "string \<Rightarrow> ava_error" where
  "chain_cycle path = command_error InvalidArgument ''shebang interpreter chain contains a cycle'' ''path'' path"

function shebang_chain_loop ::
  "host \<Rightarrow> executable_metadata \<Rightarrow> command_limits \<Rightarrow> command_path_entry list \<Rightarrow> anchor list \<Rightarrow> string list \<Rightarrow> shebang_interpreter list
    \<Rightarrow> executable_metadata \<Rightarrow> (shebang_interpreter list \<times> bool) io" where
  "shebang_chain_loop h executable limits path_entries anchors seen interpreters current =
     io_bind (shebang_interpreter_path h current limits anchors) (\<lambda>parsed.
       case parsed of
         None \<Rightarrow> io_return (interpreters, True)
       | Some parse \<Rightarrow>
           if length interpreters \<ge> max_shebang_depth limits then
             io_fail (command_error InvalidArgument ''shebang interpreter chain exceeds the bounded depth'' ''path'' (canonical_path executable))
           else if sp_is_env parse then
             io_bind (executable_metadata h (sp_interpreter_path parse) anchors) (\<lambda>env_meta.
               if list_ex (path_eq (canonical_path env_meta)) seen then io_fail (chain_cycle (canonical_path env_meta))
               else
                 let interpreters1 = interpreters @ [\<lparr>si_interpreter = env_meta, si_argument = sp_argument parse, si_resolved_via_env = False\<rparr>];
                     seen1 = canonical_path env_meta # seen in
                 (case env_name (sp_argument parse) of
                    None \<Rightarrow> io_return (interpreters1, False)
                  | Some name \<Rightarrow>
                      (case resolve_env_name h name anchors path_entries of
                         None \<Rightarrow> None
                       | Some None \<Rightarrow> io_return (interpreters1, False)
                       | Some (Some resolved) \<Rightarrow>
                           if list_ex (path_eq (canonical_path resolved)) seen1 then io_fail (chain_cycle (canonical_path resolved))
                           else
                             shebang_chain_loop h executable limits path_entries anchors (canonical_path resolved # seen1)
                               (interpreters1 @ [\<lparr>si_interpreter = resolved, si_argument = [], si_resolved_via_env = True\<rparr>]) resolved)))
           else
             io_bind (executable_metadata h (sp_interpreter_path parse) anchors) (\<lambda>interpreter.
               if list_ex (path_eq (canonical_path interpreter)) seen then io_fail (chain_cycle (canonical_path interpreter))
               else
                 shebang_chain_loop h executable limits path_entries anchors (canonical_path interpreter # seen)
                   (interpreters @ [\<lparr>si_interpreter = interpreter, si_argument = sp_argument parse, si_resolved_via_env = False\<rparr>]) interpreter))"
  by pat_completeness auto
termination
  by (relation "measure (\<lambda>(h, executable, limits, path_entries, anchors, seen, interpreters, current).
                           max_shebang_depth limits - length interpreters)") auto

definition inspect_shebang_chain ::
  "host \<Rightarrow> executable_metadata \<Rightarrow> command_limits \<Rightarrow> command_path_entry list \<Rightarrow> anchor list \<Rightarrow> (shebang_interpreter list \<times> bool) io" where
  "inspect_shebang_chain h executable limits path_entries anchors =
     shebang_chain_loop h executable limits path_entries anchors [canonical_path executable] [] executable"

end
