(* ===== verification/Command_Context.thy ===== *)
theory Command_Context
  imports Command_Search
begin

text \<open>
  Resolving the executable of a request, sealing the context of a command, sealing recipe
  path arguments, and comparing sealed identities with the current ones (the last part of
  \<^verbatim>\<open>command/discovery.cpp\<close>). The host of a freshness check is the host at that later moment.
\<close>

section \<open>Resolving an executable\<close>

fun search_executable :: "host \<Rightarrow> string \<Rightarrow> anchor list \<Rightarrow> command_path_entry list \<Rightarrow> executable_metadata io" where
  "search_executable h requested anchors [] = io_fail (command_error NotFound ''executable was not found'' [] [])"
| "search_executable h requested anchors (entry # rest) =
     (let candidate = path_append (pe_directory entry) requested in
      (case h_exists h candidate of
         Inl n \<Rightarrow> io_fail (caused h n (command_error Io ''failed to inspect executable candidate'' ''path'' candidate))
       | Inr exists \<Rightarrow>
           if \<not> exists then search_executable h requested anchors rest else executable_metadata h candidate anchors))"

definition join_origin :: "executable_origin \<Rightarrow> executable_origin \<Rightarrow> executable_origin" where
  "join_origin origin interpreter_origin =
     (if interpreter_origin = WorkspaceOrigin then WorkspaceOrigin
      else if interpreter_origin = UserOrigin \<and> origin = SystemOrigin then UserOrigin
      else origin)"

definition resolve_executable ::
  "host \<Rightarrow> string list \<Rightarrow> command_path_entry list \<Rightarrow> string \<Rightarrow> string \<Rightarrow> string \<Rightarrow> command_limits \<Rightarrow> anchor list option \<Rightarrow> resolved_executable io" where
  "resolve_executable h argv path_entries cwd workspace trusted_home limits anchor_set =
     (if argv = [] \<or> hd argv = [] then io_fail (invalid_command ''command argv has no executable identity'')
      else
        (case anchor_set of
           None \<Rightarrow> io_fail (invalid_command ''executable resolution requires the shared AnchorSet'')
         | Some anchors \<Rightarrow>
             let requested = hd argv in
             io_bind
               (if is_absolute requested \<or> slash \<in> set requested then
                  executable_metadata h (lexically_normal (if is_absolute requested then requested else path_append cwd requested)) anchors
                else search_executable h requested anchors path_entries)
               (\<lambda>md.
                 io_bind (inspect_shebang_chain h md limits path_entries anchors) (\<lambda>(interpreters, fully_resolved).
                   io_return
                     \<lparr>re_executable = md,
                      re_origin = foldl join_origin (executable_origin md workspace trusted_home)
                                    (map (\<lambda>i. executable_origin (si_interpreter i) workspace trusted_home) interpreters),
                      re_shebang_interpreters = interpreters, re_shebang_fully_resolved = fully_resolved\<rparr>))))"

section \<open>The sealed context\<close>

definition capture_cwd :: "host \<Rightarrow> string option \<Rightarrow> anchor list \<Rightarrow> path_metadata \<Rightarrow> path_metadata io" where
  "capture_cwd h requested_cwd anchors workspace_metadata =
     (case requested_cwd of
        None \<Rightarrow> io_return workspace_metadata
      | Some d \<Rightarrow>
          let candidate = (if is_absolute d then d else path_append (canonical_path workspace_metadata) d) in
          io_bind (inspect_path_metadata h (lexically_normal candidate) DirectoryNode False ''command cwd'' (Some anchors)) (\<lambda>captured.
            let denied = command_error PermissionDenied ''command cwd must remain inside the descriptor-bound logical workspace''
                           ''cwd'' (canonical_path captured) in
            if \<not> is_within (canonical_path captured) (canonical_path workspace_metadata) then io_fail denied
            else
              (case find_anchor (h_kernel h) anchors (requested_path captured) of
                 Inl _ \<Rightarrow> io_fail denied
               | Inr cwd_anchor \<Rightarrow>
                   if \<not> path_eq (an_root (ar_anchor cwd_anchor)) (launch_workspace_root anchors) then io_fail denied
                   else
                     io_bind (Some (validate_safe_directory h captured False True ''command cwd'')) (\<lambda>_. io_return captured))))"

fun capture_authority_roots ::
  "host \<Rightarrow> anchor list \<Rightarrow> string \<Rightarrow> string list \<Rightarrow> string list \<Rightarrow> path_metadata list \<Rightarrow> (string list \<times> path_metadata list) io" where
  "capture_authority_roots h anchors workspace [] paths captured = io_return (paths, captured)"
| "capture_authority_roots h anchors workspace (root # roots) paths captured =
     io_bind (Some (normalized_absolute root ''AVA authority root'')) (\<lambda>normalized.
       if is_within normalized workspace \<or> is_within workspace normalized then
         io_fail (command_error PermissionDenied ''command workspace must not overlap with any AVA authority root'' ''workspace'' workspace)
       else
         (case h_symlink_found h normalized of
            Inl n \<Rightarrow> io_fail (command_error Io ''failed to inspect AVA authority root'' ''path'' normalized)
          | Inr found \<Rightarrow>
              if \<not> found then capture_authority_roots h anchors workspace roots (paths @ [normalized]) captured
              else
                io_bind (inspect_path_metadata h normalized AnyNode True ''AVA authority root'' (Some anchors)) (\<lambda>authority.
                  io_bind (Some (validate_safe_authority_node h authority)) (\<lambda>_.
                    capture_authority_roots h anchors workspace roots (paths @ [normalized]) (captured @ [authority])))))"

definition overlaps_path :: "string \<Rightarrow> string \<Rightarrow> bool" where
  "overlaps_path candidate protected_root \<longleftrightarrow> is_within candidate protected_root \<or> is_within protected_root candidate"

definition capture_synthetic_root ::
  "host \<Rightarrow> command_limits \<Rightarrow> anchor list \<Rightarrow> string \<Rightarrow> string \<Rightarrow> string \<Rightarrow> string \<Rightarrow> path_metadata io" where
  "capture_synthetic_root h limits anchors workspace trusted_home path name =
     io_bind (Some (normalized_absolute path name)) (\<lambda>synthetic.
       if length synthetic > max_path_bytes limits then
         io_fail (command_error InvalidArgument (name @ '' exceeds the bounded synthetic environment path size'') ''path'' synthetic)
       else
         let not_beneath = command_error InvalidArgument (name @ '' must be beneath a pre-opened non-workspace writable anchor'') ''path'' synthetic in
         (case find_anchor (h_kernel h) anchors synthetic of
            Inl _ \<Rightarrow> io_fail not_beneath
          | Inr selected_anchor \<Rightarrow>
              if path_eq (an_root (ar_anchor selected_anchor)) (launch_workspace_root anchors) then io_fail not_beneath
              else
                io_bind (inspect_path_metadata h synthetic DirectoryNode False name (Some anchors)) (\<lambda>md.
                  io_bind (Some (validate_synthetic_environment_directory h md name)) (\<lambda>_.
                    if overlaps_path (canonical_path md) workspace \<or> overlaps_path (canonical_path md) trusted_home then
                      io_fail (command_error InvalidArgument (name @ '' must be disjoint from workspace and trusted AVA host roots'')
                        ''path'' (canonical_path md))
                    else io_return md))))"

definition capture_synthetic_roots ::
  "host \<Rightarrow> command_build_options \<Rightarrow> anchor list \<Rightarrow> string \<Rightarrow> string \<Rightarrow> synthetic_environment_roots io" where
  "capture_synthetic_roots h options anchors workspace trusted_home =
     (let environment = bo_environment options;
          capture = capture_synthetic_root h (bo_limits options) anchors workspace trusted_home in
      io_bind (capture (eo_home environment) ''HOME'') (\<lambda>home.
      io_bind (capture (eo_xdg_config_home environment) ''XDG_CONFIG_HOME'') (\<lambda>xdg_config_home.
      io_bind (capture (eo_xdg_cache_home environment) ''XDG_CACHE_HOME'') (\<lambda>xdg_cache_home.
      io_bind (capture (eo_xdg_data_home environment) ''XDG_DATA_HOME'') (\<lambda>xdg_data_home.
      io_bind (capture (eo_xdg_state_home environment) ''XDG_STATE_HOME'') (\<lambda>xdg_state_home.
      io_bind (capture (eo_tmpdir environment) ''TMPDIR'') (\<lambda>tmpdir.
        io_return \<lparr>root_home = home, root_xdg_config_home = xdg_config_home, root_xdg_cache_home = xdg_cache_home,
                   root_xdg_data_home = xdg_data_home, root_xdg_state_home = xdg_state_home, root_tmpdir = tmpdir\<rparr>)))))))"

definition entries_disjoint :: "string list \<Rightarrow> command_path_entry list \<Rightarrow> unit ava_result" where
  "entries_disjoint authority_paths entries =
     (if list_ex (\<lambda>entry. list_ex (\<lambda>authority. overlaps_path (pe_directory entry) authority) authority_paths) entries then
        Inl (command_error PermissionDenied ''sealed command PATH entries must remain disjoint from AVA authority roots'' [] [])
      else Inr ())"

definition discover_command_context :: "host \<Rightarrow> command_intent \<Rightarrow> command_build_options \<Rightarrow> sealed_command_context io" where
  "discover_command_context h intent options =
     io_bind (Some (validate_limits (bo_limits options))) (\<lambda>_.
     case bo_anchor_set options of
       None \<Rightarrow> io_fail (invalid_command ''command planning requires the shared AnchorSet'')
     | Some anchors \<Rightarrow>
     io_bind (Some (normalized_absolute (bo_workspace options) ''command workspace'')) (\<lambda>workspace.
     if \<not> path_eq workspace (launch_workspace_root anchors) then
       io_fail (command_error InvalidArgument ''command workspace must exactly match the shared AnchorSet launch workspace'' ''workspace'' workspace)
     else
     io_bind (inspect_path_metadata h workspace DirectoryNode False ''command workspace'' (Some anchors)) (\<lambda>workspace_metadata.
     io_bind (Some (validate_safe_directory h workspace_metadata False True ''command workspace'')) (\<lambda>_.
     io_bind (capture_cwd h (ci_cwd intent) anchors workspace_metadata) (\<lambda>cwd_metadata.
     io_bind (inspect_path_metadata h (bo_trusted_home options) DirectoryNode True ''trusted command discovery home'' (Some anchors))
       (\<lambda>trusted_home.
     io_bind (Some (validate_safe_directory h trusted_home True False ''trusted command discovery home'')) (\<lambda>_.
     if is_within (canonical_path trusted_home) (canonical_path workspace_metadata) then
       io_fail (command_error PermissionDenied ''command workspace must not equal or contain the trusted real home directory''
         ''workspace'' (canonical_path workspace_metadata))
     else if length (bo_ava_authority_roots options) > max_path_entries (bo_limits options) then
       io_fail (invalid_command ''AVA authority root list has too many entries'')
     else
     io_bind (capture_authority_roots h anchors (canonical_path workspace_metadata) (bo_ava_authority_roots options) [] [])
       (\<lambda>(authority_paths, authority_roots).
     io_bind (capture_synthetic_roots h options anchors (canonical_path workspace_metadata) (canonical_path trusted_home)) (\<lambda>roots.
     io_bind (discover_path h options (canonical_path workspace_metadata) trusted_home anchors) (\<lambda>entries.
     io_bind (Some (entries_disjoint authority_paths entries)) (\<lambda>_.
       io_return \<lparr>sc_workspace = canonical_path workspace_metadata, sc_cwd = canonical_path cwd_metadata,
                  sc_workspace_metadata = workspace_metadata, sc_cwd_metadata = cwd_metadata,
                  sc_trusted_home_metadata = trusted_home, sc_ava_authority_roots = authority_paths,
                  sc_ava_authority_root_metadata = authority_roots, sc_synthetic_environment_roots = roots,
                  sc_path_entries = entries\<rparr>)))))))))))"

section \<open>Recipe path arguments\<close>

text \<open>A sealed argument, or nothing when the argument is unsafe, missing or outside of the workspace.\<close>

definition seal_recipe_path_argument :: "host \<Rightarrow> string \<Rightarrow> string \<Rightarrow> string \<Rightarrow> anchor list option \<Rightarrow> path_metadata option option" where
  "seal_recipe_path_argument h v cwd workspace anchor_set =
     (if v = [] \<or> has_c0_or_del v then Some None
      else
        (case normalized_absolute (if is_absolute v then v else path_append cwd v) ''recipe path argument'' of
           Inl _ \<Rightarrow> Some None
         | Inr normalized \<Rightarrow>
             if \<not> is_within normalized workspace then Some None
             else
               (case anchor_set of
                  None \<Rightarrow> Some None
                | Some anchors \<Rightarrow>
                    (case find_anchor (h_kernel h) anchors normalized of
                       Inl _ \<Rightarrow> Some None
                     | Inr selected_anchor \<Rightarrow>
                         if \<not> path_eq (an_root (ar_anchor selected_anchor)) (launch_workspace_root anchors) then Some None
                         else
                           (case inspect_path_metadata h normalized AnyNode False ''recipe path argument'' (Some anchors) of
                              None \<Rightarrow> None
                            | Some (Inl _) \<Rightarrow> Some None
                            | Some (Inr md) \<Rightarrow>
                                if \<not> is_within (canonical_path md) workspace then Some None
                                else (case validate_safe_recipe_path h md of Inl _ \<Rightarrow> Some None | Inr _ \<Rightarrow> Some (Some md)))))))"

section \<open>Freshness\<close>

definition root_sticky_ancestor_is_fresh :: "path_ancestor_metadata \<Rightarrow> path_ancestor_metadata \<Rightarrow> bool" where
  "root_sticky_ancestor_is_fresh expected observed \<longleftrightarrow>
     anc_group expected = anc_group observed \<and> S_ISDIR (anc_mode observed) \<and> anc_owner observed = 0 \<and> is_sticky_directory (anc_mode observed)"

fun ancestors_are_fresh :: "path_ancestor_metadata list \<Rightarrow> path_ancestor_metadata list \<Rightarrow> bool" where
  "ancestors_are_fresh [] [] = True"
| "ancestors_are_fresh (expected # es) (observed # os) =
     (if \<not> path_eq (anc_path expected) (anc_path observed) \<or> anc_is_symlink expected \<noteq> anc_is_symlink observed
         \<or> anc_identity_bound expected \<noteq> anc_identity_bound observed then False
      else if anc_identity_bound expected then
        (if \<not> ancestor_equal expected observed then False else ancestors_are_fresh es os)
      else if \<not> root_sticky_ancestor_is_fresh expected observed then False
      else ancestors_are_fresh es os)"
| "ancestors_are_fresh _ _ = False"

definition trusted_home_matches_ancestor :: "path_metadata \<Rightarrow> path_ancestor_metadata \<Rightarrow> bool" where
  "trusted_home_matches_ancestor home ancestor \<longleftrightarrow>
     path_eq (requested_path home) (canonical_path home) \<and> path_eq (requested_path home) (anc_path ancestor) \<and> \<not> requested_path_is_symlink home
     \<and> \<not> anc_is_symlink ancestor \<and> anc_identity_bound ancestor \<and> S_ISDIR (md_mode home)
     \<and> md_device home = requested_device home \<and> md_device home = anc_device ancestor
     \<and> md_inode home = requested_inode home \<and> md_inode home = anc_inode ancestor
     \<and> md_mode home = requested_mode home \<and> md_mode home = anc_mode ancestor
     \<and> md_owner home = requested_owner home \<and> md_owner home = anc_owner ancestor
     \<and> md_group home = requested_group home \<and> md_group home = anc_group ancestor"

fun user_tool_ancestors_loop :: "path_metadata \<Rightarrow> bool \<Rightarrow> path_ancestor_metadata list \<Rightarrow> path_ancestor_metadata list \<Rightarrow> bool" where
  "user_tool_ancestors_loop home relaxed [] [] = relaxed"
| "user_tool_ancestors_loop home relaxed (expected # es) (observed # os) =
     (if \<not> path_eq (anc_path expected) (anc_path observed) \<or> anc_is_symlink expected \<noteq> anc_is_symlink observed
         \<or> anc_identity_bound expected \<noteq> anc_identity_bound observed then False
      else if path_eq (anc_path expected) (requested_path home) then
        (if relaxed \<or> \<not> trusted_home_matches_ancestor home expected \<or> anc_device expected \<noteq> anc_device observed
            \<or> anc_inode expected \<noteq> anc_inode observed \<or> anc_mode expected \<noteq> anc_mode observed \<or> anc_owner expected \<noteq> anc_owner observed
            \<or> anc_group expected \<noteq> anc_group observed \<or> \<not> S_ISDIR (anc_mode observed) then False
         else user_tool_ancestors_loop home True es os)
      else if anc_identity_bound expected then
        (if \<not> ancestor_equal expected observed then False else user_tool_ancestors_loop home relaxed es os)
      else if \<not> root_sticky_ancestor_is_fresh expected observed then False
      else user_tool_ancestors_loop home relaxed es os)"
| "user_tool_ancestors_loop home relaxed _ _ = False"

definition user_tool_ancestors_are_fresh :: "path_ancestor_metadata list \<Rightarrow> path_ancestor_metadata list \<Rightarrow> path_metadata \<Rightarrow> bool" where
  "user_tool_ancestors_are_fresh recorded current home = user_tool_ancestors_loop home False recorded current"

definition trusted_home_directory_identity_is_fresh :: "path_metadata \<Rightarrow> path_metadata \<Rightarrow> bool" where
  "trusted_home_directory_identity_is_fresh recorded current =
     (if \<not> path_eq (requested_path recorded) (requested_path current) \<or> \<not> path_eq (canonical_path recorded) (canonical_path current)
         \<or> md_device recorded \<noteq> md_device current \<or> md_inode recorded \<noteq> md_inode current \<or> md_mode recorded \<noteq> md_mode current
         \<or> md_owner recorded \<noteq> md_owner current \<or> md_group recorded \<noteq> md_group current
         \<or> requested_path_is_symlink recorded \<noteq> requested_path_is_symlink current
         \<or> requested_device recorded \<noteq> requested_device current \<or> requested_inode recorded \<noteq> requested_inode current
         \<or> requested_mode recorded \<noteq> requested_mode current \<or> requested_owner recorded \<noteq> requested_owner current
         \<or> requested_group recorded \<noteq> requested_group current then False
      else if requested_path_is_symlink recorded
         \<and> (requested_link_count recorded \<noteq> requested_link_count current
            \<or> requested_changed_seconds recorded \<noteq> requested_changed_seconds current
            \<or> requested_changed_nanoseconds recorded \<noteq> requested_changed_nanoseconds current) then False
      else S_ISDIR (md_mode current))"

definition is_sealed_user_tool_path :: "string \<Rightarrow> path_metadata \<Rightarrow> bool" where
  "is_sealed_user_tool_path path home =
     (if path = [] \<or> \<not> is_absolute path \<or> \<not> path_eq path (lexically_normal path) \<or> requested_path home = []
         \<or> \<not> is_absolute (requested_path home) \<or> \<not> path_eq (requested_path home) (lexically_normal (requested_path home))
         \<or> \<not> path_eq (requested_path home) (canonical_path home) \<or> requested_path_is_symlink home
         \<or> \<not> S_ISDIR (md_mode home) \<or> is_within (requested_path home) path
      then False
      else is_within path (requested_path home))"

definition ancestors_fresh_for :: "path_metadata option \<Rightarrow> path_metadata \<Rightarrow> path_metadata \<Rightarrow> bool" where
  "ancestors_fresh_for trusted_home recorded current =
     (case trusted_home of
        Some home \<Rightarrow> user_tool_ancestors_are_fresh (ancestor_metadata recorded) (ancestor_metadata current) home
      | None \<Rightarrow> ancestors_are_fresh (ancestor_metadata recorded) (ancestor_metadata current))"

definition path_metadata_is_fresh_with_ancestors :: "host \<Rightarrow> path_metadata \<Rightarrow> path_metadata option \<Rightarrow> anchor list option \<Rightarrow> bool io" where
  "path_metadata_is_fresh_with_ancestors h recorded trusted_home anchor_set =
     (if anchor_set = None then io_fail (invalid_command ''path freshness requires the shared AnchorSet'')
      else
        io_bind (inspect_path_metadata h (requested_path recorded) AnyNode False ''sealed path'' anchor_set) (\<lambda>current.
          if \<not> ancestors_fresh_for trusted_home recorded current then io_return False
          else
            (case validate_safe_ancestors h (ancestor_metadata current) of
               Inl _ \<Rightarrow> io_return False
             | Inr _ \<Rightarrow>
                 if S_ISDIR (md_mode current) \<and> \<not> directory_mode_is_safe h (md_mode current) (md_owner current) (md_group current) True
                 then io_return False
                 else io_return (metadata_equal (current\<lparr>ancestor_metadata := ancestor_metadata recorded\<rparr>) recorded))))"

definition path_metadata_is_fresh :: "host \<Rightarrow> path_metadata \<Rightarrow> anchor list option \<Rightarrow> bool io" where
  "path_metadata_is_fresh h recorded anchor_set = path_metadata_is_fresh_with_ancestors h recorded None anchor_set"

definition trusted_home_metadata_is_fresh :: "host \<Rightarrow> path_metadata \<Rightarrow> anchor list option \<Rightarrow> bool io" where
  "trusted_home_metadata_is_fresh h recorded anchor_set =
     (if anchor_set = None then io_fail (invalid_command ''trusted-home freshness requires the shared AnchorSet'')
      else
        io_bind (inspect_path_metadata h (requested_path recorded) DirectoryNode True ''trusted command discovery home'' anchor_set)
          (\<lambda>current.
            if \<not> ancestors_are_fresh (ancestor_metadata recorded) (ancestor_metadata current) then io_return False
            else
              (case validate_safe_directory h current True False ''trusted command discovery home'' of
                 Inl _ \<Rightarrow> io_return False
               | Inr _ \<Rightarrow> io_return (trusted_home_directory_identity_is_fresh recorded current))))"

definition user_tool_path_metadata_is_fresh :: "host \<Rightarrow> path_metadata \<Rightarrow> path_metadata \<Rightarrow> anchor list option \<Rightarrow> bool io" where
  "user_tool_path_metadata_is_fresh h recorded trusted_home anchor_set =
     (if \<not> is_sealed_user_tool_path (requested_path recorded) trusted_home then io_return False
      else
        io_bind (trusted_home_metadata_is_fresh h trusted_home anchor_set) (\<lambda>home_fresh.
          if \<not> home_fresh then io_return False
          else path_metadata_is_fresh_with_ancestors h recorded (Some trusted_home) anchor_set))"

definition executable_metadata_is_fresh_with_ancestors :: "host \<Rightarrow> executable_metadata \<Rightarrow> path_metadata option \<Rightarrow> anchor list option \<Rightarrow> bool io" where
  "executable_metadata_is_fresh_with_ancestors h recorded trusted_home anchor_set =
     (case anchor_set of
        None \<Rightarrow> io_fail (invalid_command ''executable freshness requires the shared AnchorSet'')
      | Some anchors \<Rightarrow>
          io_bind (executable_metadata h (requested_path recorded) anchors) (\<lambda>current.
            if \<not> ancestors_fresh_for trusted_home recorded current then io_return False
            else
              (case validate_safe_ancestors h (ancestor_metadata current) of
                 Inl _ \<Rightarrow> io_return False
               | Inr _ \<Rightarrow> io_return (metadata_equal (current\<lparr>ancestor_metadata := ancestor_metadata recorded\<rparr>) recorded))))"

definition executable_metadata_is_fresh :: "host \<Rightarrow> executable_metadata \<Rightarrow> anchor list option \<Rightarrow> bool io" where
  "executable_metadata_is_fresh h recorded anchor_set = executable_metadata_is_fresh_with_ancestors h recorded None anchor_set"

definition user_tool_executable_metadata_is_fresh :: "host \<Rightarrow> executable_metadata \<Rightarrow> path_metadata \<Rightarrow> anchor list option \<Rightarrow> bool io" where
  "user_tool_executable_metadata_is_fresh h recorded trusted_home anchor_set =
     (if \<not> is_sealed_user_tool_path (requested_path recorded) trusted_home then io_return False
      else
        io_bind (trusted_home_metadata_is_fresh h trusted_home anchor_set) (\<lambda>home_fresh.
          if \<not> home_fresh then io_return False
          else executable_metadata_is_fresh_with_ancestors h recorded (Some trusted_home) anchor_set))"

end
