(* ===== verification/Command_Policy.thy ===== *)
theory Command_Policy
  imports Command_Context
begin

text \<open>
  The command policy, \<^verbatim>\<open>command/policy.cpp\<close>: which family and level a command belongs to, which
  capabilities it needs, and whether it is a recognised recipe. Sealing a path argument may
  not return (see the anchors), which is the value \<open>None\<close> of the classification.
\<close>

definition has_argument :: "string list \<Rightarrow> string list \<Rightarrow> bool" where
  "has_argument argv candidates = list_ex (\<lambda>argument. locale_lower_copy argument \<in> set candidates) argv"

definition has_argument_prefix :: "string list \<Rightarrow> string \<Rightarrow> bool" where
  "has_argument_prefix argv pre = list_ex (\<lambda>argument. starts_with (locale_lower_copy argument) pre) argv"

definition is_simple_script_name :: "string \<Rightarrow> bool" where
  "is_simple_script_name v =
     (if v = [] \<or> length v > 128 then False
      else list_all (\<lambda>ch. isalnum ch \<or> ch \<in> set ''-_.:'') v)"

definition canonical_recipe_argv :: "string list \<Rightarrow> resolved_executable \<Rightarrow> (nat \<times> path_metadata) list \<Rightarrow> string list" where
  "canonical_recipe_argv argv executable path_arguments =
     foldl (\<lambda>result (index, path). result[index := canonical_path path])
       (argv[0 := canonical_path (re_executable executable)]) path_arguments"

definition critical_classification :: "command_family \<Rightarrow> command_capabilities \<Rightarrow> command_classification" where
  "critical_classification family capabilities =
     \<lparr>cc_level = Critical, cc_family = family, cc_recipe = None, cc_capabilities = capabilities,
      cc_max_interactive_scope = Once, cc_ask_candidate = True\<rparr>"

definition sensitive_classification :: "command_family \<Rightarrow> command_capabilities \<Rightarrow> command_classification" where
  "sensitive_classification family capabilities =
     \<lparr>cc_level = Sensitive, cc_family = family, cc_recipe = None, cc_capabilities = capabilities,
      cc_max_interactive_scope = WorkspaceScope, cc_ask_candidate = True\<rparr>"

definition standard_classification ::
  "command_family \<Rightarrow> command_recipe \<Rightarrow> string list \<Rightarrow> path_metadata list \<Rightarrow> bool \<Rightarrow> bool \<Rightarrow> command_classification" where
  "standard_classification family recipe canonical_argv path_arguments mutable_code path_containment =
     \<lparr>cc_level = Standard, cc_family = family,
      cc_recipe = Some \<lparr>rd_recipe = recipe, rd_canonical_argv = canonical_argv, rd_path_arguments = path_arguments\<rparr>,
      cc_capabilities = no_capabilities\<lparr>executes_mutable_project_code := mutable_code,
                                        requires_containment := mutable_code \<or> path_containment\<rparr>,
      cc_max_interactive_scope = WorkspaceScope, cc_ask_candidate = True\<rparr>"

definition apply_executable_origin_invariants :: "command_classification \<Rightarrow> resolved_executable \<Rightarrow> command_classification" where
  "apply_executable_origin_invariants classification executable =
     (if re_origin executable = WorkspaceOrigin \<or> re_origin executable = UserOrigin then
        classification\<lparr>cc_capabilities := (cc_capabilities classification)\<lparr>executes_mutable_project_code := True, requires_containment := True\<rparr>\<rparr>
      else classification)"

definition kInterpreters :: "string list" where
  "kInterpreters = [''bash'', ''sh'', ''zsh'', ''fish'', ''python'', ''python3'', ''node'', ''perl'', ''ruby'', ''php'', ''lua'', ''pwsh'']"

definition is_inline_interpreter :: "string \<Rightarrow> string list \<Rightarrow> bool" where
  "is_inline_interpreter name argv =
     (if name \<notin> set kInterpreters then False else has_argument argv [''-c'', ''-e'', ''--command'', ''--eval''])"

definition second_argument :: "string list \<Rightarrow> string" where
  "second_argument argv = (if length argv \<ge> 2 then locale_lower_copy (argv ! 1) else [])"

definition third_argument :: "string list \<Rightarrow> string" where
  "third_argument argv = (if length argv \<ge> 3 then locale_lower_copy (argv ! 2) else [])"

definition classify_destructive_or_privileged :: "string \<Rightarrow> string list \<Rightarrow> command_classification option" where
  "classify_destructive_or_privileged name argv =
     (let destructive = Some (critical_classification DestructiveOrPrivileged (no_capabilities\<lparr>destructive_or_privileged := True\<rparr>)) in
      if name = ''git'' \<and> length argv \<ge> 2 \<and> locale_lower_copy (argv ! 1) = ''push''
         \<and> (has_argument argv [''--force'', ''-f'', ''--force-with-lease'', ''--force-if-includes''] \<or> has_argument_prefix argv ''--force-with-lease='')
      then Some (critical_classification DestructiveOrPrivileged (no_capabilities\<lparr>network_enabled := True, destructive_or_privileged := True\<rparr>))
      else if name \<in> {''sudo'', ''doas'', ''pkexec'', ''rm'', ''dd'', ''mkfs''} \<or> starts_with name ''mkfs.'' then destructive
      else if has_argument argv [''--privileged'', ''--force-dangerous'', ''--hard'', ''--hard-reset''] then destructive
      else if name = ''git'' \<and> length argv \<ge> 2
              \<and> (locale_lower_copy (argv ! 1) = ''clean'' \<or> locale_lower_copy (argv ! 1) = ''reset'' \<and> has_argument argv [''--hard''])
      then destructive
      else None)"

definition classify_git_sensitive :: "string \<Rightarrow> string list \<Rightarrow> command_classification option" where
  "classify_git_sensitive second argv =
     (let action = third_argument argv in
      if second \<in> {''pull'', ''fetch'', ''clone''} then
        Some (sensitive_classification RemoteGitMutation (no_capabilities\<lparr>network_enabled := True, mutates_workspace := True\<rparr>))
      else if second = ''push'' then Some (sensitive_classification RemoteGitMutation (no_capabilities\<lparr>network_enabled := True\<rparr>))
      else if second = ''submodule'' then
        Some (sensitive_classification RemoteGitMutation
          (no_capabilities\<lparr>network_enabled := (action \<in> {[], ''update'', ''add'', ''sync'', ''foreach''}),
             mutates_workspace := (action \<in> {[], ''update'', ''init'', ''add'', ''deinit'', ''set-url'', ''sync'', ''absorbgitdirs'', ''foreach''})\<rparr>))
      else if second = ''remote'' then
        Some (sensitive_classification RemoteGitMutation
          (if action \<in> {''add'', ''set-url'', ''remove'', ''rm'', ''rename''} then no_capabilities\<lparr>mutates_workspace := True\<rparr>
           else if action = ''update'' then no_capabilities\<lparr>network_enabled := True, mutates_workspace := True\<rparr>
           else if action = ''prune'' then no_capabilities\<lparr>mutates_workspace := True\<rparr>
           else no_capabilities))
      else if second \<in> {''apply'', ''checkout'', ''restore'', ''commit'', ''merge'', ''rebase'', ''cherry-pick''} then
        Some (sensitive_classification WorkspaceMutation (no_capabilities\<lparr>mutates_workspace := True\<rparr>))
      else None)"

definition classify_sensitive :: "string \<Rightarrow> string list \<Rightarrow> command_classification option" where
  "classify_sensitive name argv =
     (let second = second_argument argv;
          git = (if name = ''git'' then classify_git_sensitive second argv else None) in
      if git \<noteq> None then git
      else if name \<in> {''npm'', ''pnpm'', ''yarn'', ''bun'', ''pip'', ''pip3''}
              \<and> second \<in> {''install'', ''update'', ''upgrade'', ''add'', ''remove'', ''uninstall''} then
        Some (sensitive_classification InstallOrUpdate (no_capabilities\<lparr>network_enabled := True, mutates_workspace := True\<rparr>))
      else if name \<in> {''curl'', ''wget'', ''ssh'', ''scp'', ''rsync''} then
        Some (sensitive_classification Network
          (no_capabilities\<lparr>network_enabled := True, mutates_workspace := (name = ''rsync'' \<or> name = ''scp'')\<rparr>))
      else if name = ''cmake'' \<and> has_argument argv [''--install'', ''--install-prefix''] then
        Some (sensitive_classification InstallOrUpdate (no_capabilities\<lparr>mutates_workspace := True\<rparr>))
      else if has_argument argv [''publish'', ''deploy'', ''release''] then
        Some (sensitive_classification PublishOrDeploy (no_capabilities\<lparr>network_enabled := True, mutates_workspace := True\<rparr>))
      else if name \<in> {''touch'', ''mkdir'', ''cp'', ''mv'', ''chmod'', ''patch'', ''tee''}
              \<or> name = ''sed'' \<and> has_argument argv [''-i'', ''--in-place''] then
        Some (sensitive_classification WorkspaceMutation (no_capabilities\<lparr>mutates_workspace := True\<rparr>))
      else None)"

text \<open>
  The standard recipes in the order of the code. A recipe without a path argument matches at
  once; one with a path argument matches when the argument can be sealed, and otherwise the
  search goes on.
\<close>

definition try_path_recipe ::
  "path_metadata option option \<Rightarrow> (path_metadata \<Rightarrow> command_classification) \<Rightarrow> command_classification option option \<Rightarrow> command_classification option option" where
  "try_path_recipe sealed classify continue =
     (case sealed of None \<Rightarrow> None | Some (Some path) \<Rightarrow> Some (Some (classify path)) | Some None \<Rightarrow> continue)"

fun workspace_recipe_loop ::
  "host \<Rightarrow> string list \<Rightarrow> resolved_executable \<Rightarrow> string \<Rightarrow> anchor list option \<Rightarrow> workspace_script_recipe list \<Rightarrow> command_classification option option" where
  "workspace_recipe_loop h argv executable workspace anchor_set [] = Some None"
| "workspace_recipe_loop h argv executable workspace anchor_set (configured # rest) =
     (let configured_path = (if is_absolute (ws_script configured) then ws_script configured else path_append workspace (ws_script configured)) in
      (case seal_recipe_path_argument h configured_path workspace workspace anchor_set of
         None \<Rightarrow> None
       | Some None \<Rightarrow> workspace_recipe_loop h argv executable workspace anchor_set rest
       | Some (Some script) \<Rightarrow>
           if md_device script \<noteq> md_device (re_executable executable) \<or> md_inode script \<noteq> md_inode (re_executable executable)
              \<or> length argv \<noteq> length (ws_argv_tail configured) + 1 \<or> tl argv \<noteq> ws_argv_tail configured
           then workspace_recipe_loop h argv executable workspace anchor_set rest
           else Some (Some (standard_classification WorkspaceScriptFamily WorkspaceScript (canonical_recipe_argv argv executable []) [] True False))))"

definition classify_standard ::
  "host \<Rightarrow> string \<Rightarrow> string list \<Rightarrow> resolved_executable \<Rightarrow> string \<Rightarrow> string \<Rightarrow> workspace_script_recipe list \<Rightarrow> anchor list option
    \<Rightarrow> command_classification option option" where
  "classify_standard h name argv executable cwd workspace workspace_recipes anchor_set =
     (let n = length argv;
          recipe_path = (\<lambda>index. if index \<ge> n then Some None else seal_recipe_path_argument h (argv ! index) cwd workspace anchor_set);
          plain = (\<lambda>family recipe mutable_code. Some (Some (standard_classification family recipe (canonical_recipe_argv argv executable []) [] mutable_code False)));
          with_path = (\<lambda>index family recipe mutable_code containment path.
             standard_classification family recipe (canonical_recipe_argv argv executable [(index, path)]) [path] mutable_code containment);
          system = (re_origin executable = SystemOrigin);
          scripts = workspace_recipe_loop h argv executable workspace anchor_set workspace_recipes in
      if system \<and> name = ''pwd'' \<and> n = 1 then plain Inspection Pwd False
      else if system \<and> name = ''ls'' \<and> n = 1 then plain Inspection Ls False
      else if system \<and> name = ''ls'' \<and> n = 2 then try_path_recipe (recipe_path 1) (with_path 1 Inspection Ls False True) scripts
      else if system \<and> name = ''git'' \<and> n = 2 \<and> locale_lower_copy (argv ! 1) = ''status'' then plain Inspection GitStatus True
      else if system \<and> name = ''git'' \<and> n = 2 \<and> locale_lower_copy (argv ! 1) = ''diff'' then plain Inspection GitDiff True
      else if system \<and> name = ''git'' \<and> n = 3 \<and> locale_lower_copy (argv ! 1) = ''log'' \<and> argv ! 2 = ''-1'' then plain Inspection GitLogOne True
      else if name = ''cmake'' \<and> n = 3 \<and> argv ! 1 = ''--build'' then
        try_path_recipe (recipe_path 2) (with_path 2 CmakeBuildFamily CmakeBuild True False) scripts
      else if name = ''ctest'' \<and> n = 1 then plain CtestFamily Ctest True
      else if name = ''ctest'' \<and> n = 3 \<and> argv ! 1 = ''--test-dir'' then
        try_path_recipe (recipe_path 2) (with_path 2 CtestFamily Ctest True False) scripts
      else if name = ''ninja'' \<and> n = 1 then plain NinjaFamily Ninja True
      else if name = ''ninja'' \<and> n = 3 \<and> argv ! 1 = ''-C'' then
        try_path_recipe (recipe_path 2) (with_path 2 NinjaFamily Ninja True False) scripts
      else if name = ''make'' \<and> n = 1 then plain MakeFamily Make True
      else if name = ''make'' \<and> n = 3 \<and> argv ! 1 = ''-C'' then
        try_path_recipe (recipe_path 2) (with_path 2 MakeFamily Make True False) scripts
      else if name \<in> {''npm'', ''pnpm'', ''yarn'', ''bun''} \<and> n = 3 \<and> locale_lower_copy (argv ! 1) = ''run'' \<and> is_simple_script_name (argv ! 2) then
        plain PackageManagerScript PackageManagerRunScript True
      else if name = ''pytest'' \<and> n = 1 then plain PytestFamily Pytest True
      else if name = ''pytest'' \<and> n = 2 then try_path_recipe (recipe_path 1) (with_path 1 PytestFamily Pytest True False) scripts
      else scripts)"

definition classify_raw_shell :: "resolved_executable \<Rightarrow> command_classification" where
  "classify_raw_shell executable =
     apply_executable_origin_invariants
       \<lparr>cc_level = Critical, cc_family = RawShellFamily, cc_recipe = None,
        cc_capabilities = no_capabilities\<lparr>raw_shell_capability := True\<rparr>, cc_max_interactive_scope = Once, cc_ask_candidate = True\<rparr>
       executable"

definition classification_name :: "resolved_executable \<Rightarrow> string" where
  "classification_name executable =
     (let md = re_executable executable in
      locale_lower_copy (path_filename (if requested_path_is_symlink md then requested_path md else canonical_path md)))"

definition classify_command ::
  "host \<Rightarrow> string list \<Rightarrow> resolved_executable \<Rightarrow> string \<Rightarrow> string \<Rightarrow> workspace_script_recipe list \<Rightarrow> anchor list option \<Rightarrow> command_classification option" where
  "classify_command h argv executable cwd workspace workspace_recipes anchor_set =
     (let name = classification_name executable;
          unknown = critical_classification UnknownWrapper (no_capabilities\<lparr>unknown_wrapper := True\<rparr>);
          apply = (\<lambda>c. Some (apply_executable_origin_invariants c executable)) in
      if \<not> re_shebang_fully_resolved executable then apply unknown
      else
        (case classify_destructive_or_privileged name argv of
           Some destructive \<Rightarrow> apply destructive
         | None \<Rightarrow>
             if is_inline_interpreter name argv then
               apply (critical_classification InterpreterInline (no_capabilities\<lparr>interpreter_inline := True\<rparr>))
             else
               (case classify_sensitive name argv of
                  Some sensitive \<Rightarrow> apply sensitive
                | None \<Rightarrow>
                    (case classify_standard h name argv executable cwd workspace workspace_recipes anchor_set of
                       None \<Rightarrow> None
                     | Some (Some standard) \<Rightarrow> apply standard
                     | Some None \<Rightarrow> apply unknown))))"

section \<open>What a classification promises\<close>

definition classification_ok :: "resolved_executable \<Rightarrow> command_classification \<Rightarrow> bool" where
  "classification_ok executable c \<longleftrightarrow>
     (cc_level c = Critical \<longrightarrow> cc_max_interactive_scope c = Once)
     \<and> (cc_level c = Standard \<longleftrightarrow> cc_recipe c \<noteq> None)
     \<and> (executes_mutable_project_code (cc_capabilities c) \<longrightarrow> requires_containment (cc_capabilities c))
     \<and> (re_origin executable \<noteq> SystemOrigin \<longrightarrow> executes_mutable_project_code (cc_capabilities c))
     \<and> cc_ask_candidate c"

text \<open>The same before the origin of the executable is taken into account.\<close>

definition classification_base :: "command_classification \<Rightarrow> bool" where
  "classification_base c \<longleftrightarrow>
     (cc_level c = Critical \<longrightarrow> cc_max_interactive_scope c = Once)
     \<and> (cc_level c = Standard \<longleftrightarrow> cc_recipe c \<noteq> None)
     \<and> (executes_mutable_project_code (cc_capabilities c) \<longrightarrow> requires_containment (cc_capabilities c))
     \<and> cc_ask_candidate c"

lemma apply_origin_ok: "classification_base c \<Longrightarrow> classification_ok executable (apply_executable_origin_invariants c executable)"
  by (cases "re_origin executable")
    (auto simp: classification_base_def classification_ok_def apply_executable_origin_invariants_def)

lemma critical_base [simp]: "\<not> executes_mutable_project_code caps \<Longrightarrow> classification_base (critical_classification f caps)"
  by (simp add: classification_base_def critical_classification_def)

lemma sensitive_base [simp]: "\<not> executes_mutable_project_code caps \<Longrightarrow> classification_base (sensitive_classification f caps)"
  by (simp add: classification_base_def sensitive_classification_def)

lemma standard_base [simp]: "classification_base (standard_classification f r a p m pc)"
  by (simp add: classification_base_def standard_classification_def)

lemma no_mutable [simp]: "\<not> executes_mutable_project_code no_capabilities"
  by (simp add: no_capabilities_def)

text \<open>Taking a chain of conditionals apart, with or without the conditions.\<close>

lemma if_case: "(if b then x else y) = z \<Longrightarrow> (x = z \<Longrightarrow> P) \<Longrightarrow> (y = z \<Longrightarrow> P) \<Longrightarrow> P"
  by (cases b) simp_all

lemma if_case_true: "(if b then x else y) = z \<Longrightarrow> (b \<Longrightarrow> x = z \<Longrightarrow> P) \<Longrightarrow> (y = z \<Longrightarrow> P) \<Longrightarrow> P"
  by (cases b) simp_all

lemma destructive_critical:
  "classify_destructive_or_privileged name argv = Some c \<Longrightarrow>
   classification_base c \<and> cc_level c = Critical \<and> destructive_or_privileged (cc_capabilities c)"
  unfolding classify_destructive_or_privileged_def Let_def
  by (elim if_case) (auto simp: critical_classification_def classification_base_def no_capabilities_def)

lemma sensitive_shape: "sensitive_classification f caps = c \<Longrightarrow> \<not> executes_mutable_project_code caps \<Longrightarrow> classification_base c \<and> cc_level c = Sensitive"
  by (auto simp: sensitive_classification_def classification_base_def)

lemma sensitive_level [simp]: "cc_level (sensitive_classification f caps) = Sensitive"
  by (simp add: sensitive_classification_def)

lemma git_sensitive_ok: "classify_git_sensitive second argv = Some c \<Longrightarrow> classification_base c \<and> cc_level c = Sensitive"
  unfolding classify_git_sensitive_def Let_def
  by (elim if_case) auto

lemma sensitive_ok: "classify_sensitive name argv = Some c \<Longrightarrow> classification_base c \<and> cc_level c = Sensitive"
  unfolding classify_sensitive_def Let_def
  by (elim if_case) (auto dest: git_sensitive_ok split: if_split_asm)

text \<open>The shape of the standard recipes: which classifications the search can return.\<close>

definition recipe_shape :: "host \<Rightarrow> string \<Rightarrow> string list \<Rightarrow> resolved_executable \<Rightarrow> string \<Rightarrow> command_classification \<Rightarrow> bool" where
  "recipe_shape h name argv executable workspace c \<longleftrightarrow>
     (\<exists>family recipe mutable_code.
        c = standard_classification family recipe (canonical_recipe_argv argv executable []) [] mutable_code False
        \<and> (mutable_code \<or> re_origin executable = SystemOrigin \<and> length argv = 1 \<and> name \<in> {''pwd'', ''ls''}))
     \<or> (\<exists>index path cwd anchor_set family recipe mutable_code containment.
        c = standard_classification family recipe (canonical_recipe_argv argv executable [(index, path)]) [path] mutable_code containment
        \<and> (mutable_code \<or> containment) \<and> 0 < index \<and> index < length argv
        \<and> seal_recipe_path_argument h (argv ! index) cwd workspace anchor_set = Some (Some path))"

lemma shape_plain:
  "mutable_code \<or> re_origin executable = SystemOrigin \<and> length argv = 1 \<and> name \<in> {''pwd'', ''ls''} \<Longrightarrow>
   recipe_shape h name argv executable workspace
     (standard_classification family recipe (canonical_recipe_argv argv executable []) [] mutable_code False)"
  unfolding recipe_shape_def by blast

lemma shape_path:
  "mutable_code \<or> containment \<Longrightarrow> 0 < index \<Longrightarrow> index < length argv \<Longrightarrow>
   seal_recipe_path_argument h (argv ! index) cwd workspace anchor_set = Some (Some path) \<Longrightarrow>
   recipe_shape h name argv executable workspace
     (standard_classification family recipe (canonical_recipe_argv argv executable [(index, path)]) [path] mutable_code containment)"
  unfolding recipe_shape_def by blast

lemma workspace_recipe_shape:
  "workspace_recipe_loop h argv executable workspace anchor_set recipes = Some (Some c) \<Longrightarrow> recipe_shape h name argv executable workspace c"
proof (induction recipes)
  case (Cons r rs)
  then show ?case by (auto simp: Let_def shape_plain split: option.split_asm if_split_asm)
qed simp

lemma try_path_shape:
  assumes "try_path_recipe (if index \<ge> length argv then Some None else seal_recipe_path_argument h (argv ! index) cwd workspace anchor_set)
      (\<lambda>path. standard_classification family recipe (canonical_recipe_argv argv executable [(index, path)]) [path] mutable_code containment)
      continue = Some (Some c)"
    and "continue = Some (Some c) \<Longrightarrow> recipe_shape h name argv executable workspace c"
    and "mutable_code \<or> containment" "0 < index"
  shows "recipe_shape h name argv executable workspace c"
  using assms by (auto simp: try_path_recipe_def intro: shape_path split: option.split_asm if_split_asm)

lemma classify_standard_shape:
  assumes "classify_standard h name argv executable cwd workspace recipes anchor_set = Some (Some c)"
  shows "recipe_shape h name argv executable workspace c"
proof -
  have scripts: "recipe_shape h name argv executable workspace c"
    if "workspace_recipe_loop h argv executable workspace anchor_set recipes = Some (Some c)"
    using that by (rule workspace_recipe_shape)
  show ?thesis
    using assms unfolding classify_standard_def Let_def
    by (elim if_case_true)
      ((erule try_path_shape, erule scripts, simp, simp) | erule scripts | (clarsimp simp: shape_plain))+
qed

lemma shape_base: "recipe_shape h name argv executable workspace c \<Longrightarrow> classification_base c"
  by (auto simp: recipe_shape_def)

text \<open>The four outcomes of a classification.\<close>

lemma classify_command_cases:
  assumes "classify_command h argv executable cwd workspace recipes anchor_set = Some c"
  obtains (critical) b where "c = apply_executable_origin_invariants b executable" "classification_base b" "cc_level b = Critical"
  | (sensitive) b where "c = apply_executable_origin_invariants b executable" "classification_base b" "cc_level b = Sensitive"
  | (standard) b where "c = apply_executable_origin_invariants b executable" "re_shebang_fully_resolved executable"
      "recipe_shape h (classification_name executable) argv executable workspace b"
      "classify_destructive_or_privileged (classification_name executable) argv = None"
      "\<not> is_inline_interpreter (classification_name executable) argv"
      "classify_sensitive (classification_name executable) argv = None"
proof -
  have crit: "classification_base (critical_classification f (no_capabilities\<lparr>unknown_wrapper := True\<rparr>))"
    "classification_base (critical_classification f (no_capabilities\<lparr>interpreter_inline := True\<rparr>))"
    "cc_level (critical_classification f caps) = Critical" for f caps
    by (simp_all add: critical_classification_def classification_base_def no_capabilities_def)
  show thesis
    using assms that
    by (auto simp: classify_command_def Let_def crit split: if_split_asm option.split_asm
        dest: destructive_critical sensitive_ok classify_standard_shape)
qed

lemma recipe_of_apply [simp]:
  "cc_recipe (apply_executable_origin_invariants b executable) = cc_recipe b"
  "cc_level (apply_executable_origin_invariants b executable) = cc_level b"
  "cc_max_interactive_scope (apply_executable_origin_invariants b executable) = cc_max_interactive_scope b"
  by (simp_all add: apply_executable_origin_invariants_def)

lemma classify_command_ok:
  "classify_command h argv executable cwd workspace recipes anchor_set = Some c \<Longrightarrow> classification_ok executable c"
  by (erule classify_command_cases) (auto intro: apply_origin_ok shape_base)

text \<open>
  C27: every classification is well formed: a critical command is approved at most once at a time,
  exactly the standard commands carry a recipe, mutable project code always requires
  containment, and an executable from the user or the workspace always counts as such code.
\<close>

theorem classify_command_invariant:
  assumes "classify_command h argv executable cwd workspace recipes anchor_set = Some c"
  shows "classification_ok executable c"
  by (rule classify_command_ok [OF assms])

text \<open>A host that knows no files, and a system executable.\<close>

definition blank_stat :: stat_result where
  "blank_stat = \<lparr>st_dev = 0, st_ino = 0, st_mode = 0, st_size = 0, st_uid = 0, st_gid = 0, st_nlink = 0, st_ctim_sec = 0, st_ctim_nsec = 0\<rparr>"

definition blank_host :: host where
  "blank_host = \<lparr>h_kernel = sample_kernel, h_euid = 1000, h_open_path = (\<lambda>p. Inl ENOENT), h_fstat = (\<lambda>d. Inl EIO),
     h_fstatat = (\<lambda>d n. Inl ENOENT), h_fstat_again = (\<lambda>d. Inl EIO), h_fstatat_again = (\<lambda>d n. Inl ENOENT),
     h_readlink_fd = (\<lambda>d. Inl EIO), h_read = (\<lambda>d n. Inl EIO), h_exists = (\<lambda>p. Inr False), h_symlink_found = (\<lambda>p. Inr False),
     h_getenv_path = None, h_passwd_file = None, h_group_file = None\<rparr>"

definition system_executable :: "string \<Rightarrow> resolved_executable" where
  "system_executable path =
     \<lparr>re_executable = metadata_from path blank_stat blank_stat [], re_origin = SystemOrigin, re_shebang_interpreters = [],
      re_shebang_fully_resolved = True\<rparr>"

abbreviation pwd_classification :: command_classification where
  "pwd_classification \<equiv> standard_classification Inspection Pwd [''/bin/pwd''] [] False False"

lemma pwd_classified:
  "classify_command blank_host [''pwd''] (system_executable ''/bin/pwd'') ''/w'' ''/w'' [] None = Some pwd_classification"
  by code_simp

theorem classify_command_invariant_witness:
  "classify_command blank_host [''pwd''] (system_executable ''/bin/pwd'') ''/w'' ''/w'' [] None = Some pwd_classification
   \<and> classification_ok (system_executable ''/bin/pwd'') pwd_classification"
  using pwd_classified classify_command_invariant [OF pwd_classified] by blast

lemma uncontained_standard:
  assumes "classify_command h argv executable cwd workspace recipes anchor_set = Some c"
    "cc_level c = Standard" "\<not> requires_containment (cc_capabilities c)"
  shows "re_origin executable = SystemOrigin \<and> re_shebang_fully_resolved executable \<and> length argv = 1
    \<and> classification_name executable \<in> {''pwd'', ''ls''}"
  using assms(1)
proof (cases rule: classify_command_cases)
  case (standard b)
  have "re_origin executable = SystemOrigin"
    using assms(3) standard(1) by (cases "re_origin executable") (auto simp: apply_executable_origin_invariants_def)
  then have "\<not> requires_containment (cc_capabilities b)"
    using assms(3) standard(1) by (simp add: apply_executable_origin_invariants_def)
  then show ?thesis using standard(2,3) by (auto simp: recipe_shape_def standard_classification_def)
qed (use assms(2) in simp_all)

text \<open>
  A standard command that needs no containment is \<^verbatim>\<open>pwd\<close> or \<^verbatim>\<open>ls\<close> without arguments, run from a
  system executable whose interpreters are fully resolved.
\<close>

theorem uncontained_standard_command:
  assumes "classify_command h argv executable cwd workspace recipes anchor_set = Some c"
    "cc_level c = Standard" "\<not> requires_containment (cc_capabilities c)"
  shows "re_origin executable = SystemOrigin \<and> re_shebang_fully_resolved executable \<and> length argv = 1
    \<and> classification_name executable \<in> {''pwd'', ''ls''}"
  by (rule uncontained_standard [OF assms])

theorem uncontained_standard_command_witness:
  "classify_command blank_host [''pwd''] (system_executable ''/bin/pwd'') ''/w'' ''/w'' [] None = Some pwd_classification
   \<and> re_origin (system_executable ''/bin/pwd'') = SystemOrigin"
proof -
  have "cc_level pwd_classification = Standard" "\<not> requires_containment (cc_capabilities pwd_classification)"
    by (simp_all add: standard_classification_def no_capabilities_def)
  then show ?thesis using pwd_classified uncontained_standard_command [OF pwd_classified] by blast
qed

section \<open>Recipe path arguments stay in the workspace\<close>

lemma is_within_iff:
  assumes "is_absolute child" "is_absolute parent"
  shows "is_within child parent \<longleftrightarrow> prefix (path_names (lexically_normal parent)) (path_names (lexically_normal child))"
proof -
  have "path_parts p = [] \<longleftrightarrow> p = []" for p
  proof
    assume "path_parts p = []"
    then have "path_names p = []" "\<not> is_absolute p" by (auto simp: path_parts_def split: if_split_asm)
    then show "p = []" by (cases p) (auto simp: path_names_def is_absolute_def split: list.split_asm if_split_asm)
  qed (simp add: path_parts_def is_absolute_def trailing_separator_def)
  then have "is_within child parent \<longleftrightarrow> lexically_inside (lexically_normal parent) (lexically_normal child)"
    using assms by (simp add: is_within_def lexically_inside_def Let_def)
  then show ?thesis using assms by (simp add: lexically_inside_iff lexically_normal_normal)
qed

lemma seal_recipe_inside:
  "seal_recipe_path_argument h v cwd workspace anchor_set = Some (Some md) \<Longrightarrow>
   is_within (canonical_path md) workspace \<and> validate_safe_recipe_path h md = Inr ()"
  by (auto simp: seal_recipe_path_argument_def split: if_split_asm sum.split_asm option.split_asm)

text \<open>
  C28: every path argument of a recipe lies inside the workspace, component by component, has
  passed the ownership and mode checks, and stands in the recipe's argument vector in its
  sealed spelling; the vector starts with the sealed executable.
\<close>

theorem recipe_paths_inside_workspace:
  assumes "classify_command h argv executable cwd workspace recipes anchor_set = Some c" "cc_recipe c = Some r"
    "md \<in> set (rd_path_arguments r)"
  shows "prefix (path_names (lexically_normal workspace)) (path_names (lexically_normal (canonical_path md)))
    \<and> validate_safe_recipe_path h md = Inr () \<and> canonical_path md \<in> set (rd_canonical_argv r)
    \<and> hd (rd_canonical_argv r) = canonical_path (re_executable executable)"
  using assms(1)
proof (cases rule: classify_command_cases)
  case (standard b)
  then obtain index cwd2 anchors2 where i: "rd_path_arguments r = [md]"
      "rd_canonical_argv r = canonical_recipe_argv argv executable [(index, md)]" "0 < index" "index < length argv"
      "seal_recipe_path_argument h (argv ! index) cwd2 workspace anchors2 = Some (Some md)"
    using assms(2,3) by (auto simp: recipe_shape_def standard_classification_def)
  have inside: "is_within (canonical_path md) workspace" "validate_safe_recipe_path h md = Inr ()"
    using seal_recipe_inside [OF i(5)] by simp_all
  then have "is_absolute (canonical_path md)" "is_absolute workspace" by (auto simp: is_within_def split: if_split_asm)
  then show ?thesis using inside i is_within_iff
    by (cases argv; cases index) (auto simp: canonical_recipe_argv_def in_set_conv_nth intro: set_update_memI)
qed (use assms(2) in \<open>auto simp: classification_base_def\<close>)

text \<open>A host on which every path below the anchor is a directory of the current user.\<close>

definition directory_stat :: stat_result where
  "directory_stat = blank_stat\<lparr>st_mode := 16877, st_uid := 1000, st_nlink := 2\<rparr>"

definition anchored_kernel :: kernel where
  "anchored_kernel = sample_kernel\<lparr>k_openat2_beneath := (\<lambda>attempt fd path flags mode. Inr 5)\<rparr>"

definition workspace_host :: host where
  "workspace_host = blank_host\<lparr>h_kernel := anchored_kernel,
     h_fstat := (\<lambda>d. Inr directory_stat), h_fstatat := (\<lambda>d n. Inr directory_stat),
     h_fstat_again := (\<lambda>d. Inr directory_stat), h_fstatat_again := (\<lambda>d n. Inr directory_stat)\<rparr>"

abbreviation build_metadata :: path_metadata where
  "build_metadata \<equiv> metadata_from ''/w/build'' directory_stat directory_stat []"

abbreviation build_classification :: command_classification where
  "build_classification \<equiv>
     standard_classification CmakeBuildFamily CmakeBuild [''/bin/cmake'', ''--build'', ''/w/build''] [build_metadata] True False"

lemma workspace_host_kernel [simp]: "h_kernel workspace_host = anchored_kernel"
  by (simp add: workspace_host_def)

lemma system_executable_simps [simp]:
  "re_origin (system_executable p) = SystemOrigin" "re_shebang_fully_resolved (system_executable p)"
  "canonical_path (re_executable (system_executable p)) = p"
  by (simp_all add: system_executable_def metadata_from_def)

lemma workspace_host_inspects:
  "inspect_path_metadata workspace_host ''/w/build'' AnyNode False label (Some sample_anchors) = io_return build_metadata"
proof -
  have n: "normalized_absolute ''/w/build'' label = Inr ''/w/build''"
    unfolding normalized_absolute_def by (subgoal_tac "\<not> (''/w/build'' = [] \<or> \<not> is_absolute ''/w/build'' \<or> has_forbidden_path_byte ''/w/build'')")
      (simp_all, code_simp+)
  have f: "find_anchor anchored_kernel sample_anchors ''/w/build''
      = Inr \<lparr>ar_anchor = \<lparr>an_fd = 1, an_root = ''/w''\<rparr>, ar_relative = ''build''\<rparr>" by code_simp
  have o: "open_readable anchored_kernel sample_anchors ''/w/build'' (node_flags AnyNode) 0
      = io_return \<lparr>ao_fd = 5, ao_root = ''/w'', ao_absolute = ''/w/build'', ao_relative = ''build''\<rparr>" by code_simp
  have p: "parent_path ''build'' = []" by code_simp
  have h: "h_fstat workspace_host = (\<lambda>d. Inr directory_stat)" "h_fstatat workspace_host = (\<lambda>d n. Inr directory_stat)"
    "h_fstatat_again workspace_host = (\<lambda>d n. Inr directory_stat)" by (simp_all add: workspace_host_def)
  show ?thesis
    by (simp add: inspect_path_metadata_def n f o p h io_bind_def anchored_final_status_def unchanged_during_inspection_def same_identity_def Let_def)
qed

lemma directory_stat_safe: "validate_safe_recipe_path workspace_host build_metadata = Inr ()"
  by (simp add: validate_safe_recipe_path_def metadata_from_def directory_stat_def blank_stat_def S_ISDIR_def S_ISREG_def mode_is_safe_def
      S_IWGRP_def S_IWOTH_def owner_is_safe_def workspace_host_def blank_host_def)

lemma build_sealed: "seal_recipe_path_argument workspace_host ''build'' ''/w'' ''/w'' (Some sample_anchors) = Some (Some build_metadata)"
proof -
  have c: "\<not> has_c0_or_del ''build''" "\<not> is_absolute ''build''" "path_append ''/w'' ''build'' = ''/w/build''"
    "normalized_absolute ''/w/build'' ''recipe path argument'' = Inr ''/w/build''" "is_within ''/w/build'' ''/w''"
    "find_anchor anchored_kernel sample_anchors ''/w/build''
      = Inr \<lparr>ar_anchor = \<lparr>an_fd = 1, an_root = ''/w''\<rparr>, ar_relative = ''build''\<rparr>"
    "launch_workspace_root sample_anchors = ''/w''" by code_simp+
  have m: "canonical_path build_metadata = ''/w/build''" by (simp add: metadata_from_def)
  show ?thesis by (simp add: seal_recipe_path_argument_def c workspace_host_inspects directory_stat_safe m del: has_c0_or_del.simps)
qed

lemma build_classified:
  "classify_command workspace_host [''cmake'', ''--build'', ''build''] (system_executable ''/bin/cmake'') ''/w'' ''/w'' [] (Some sample_anchors)
     = Some build_classification"
proof -
  have n: "classification_name (system_executable ''/bin/cmake'') = ''cmake''"
    "classify_destructive_or_privileged ''cmake'' [''cmake'', ''--build'', ''build''] = None"
    "\<not> is_inline_interpreter ''cmake'' [''cmake'', ''--build'', ''build'']"
    "classify_sensitive ''cmake'' [''cmake'', ''--build'', ''build''] = None" by code_simp+
  show ?thesis
    by (simp add: classify_command_def n classify_standard_def build_sealed try_path_recipe_def canonical_recipe_argv_def
        apply_executable_origin_invariants_def metadata_from_def [of "''/w/build''"])
qed

theorem recipe_paths_inside_workspace_witness:
  "prefix (path_names (lexically_normal ''/w'')) (path_names (lexically_normal ''/w/build''))
   \<and> validate_safe_recipe_path workspace_host build_metadata = Inr ()"
proof -
  obtain r where r: "cc_recipe build_classification = Some r" "build_metadata \<in> set (rd_path_arguments r)"
    by (simp add: standard_classification_def)
  have "canonical_path build_metadata = ''/w/build''" by (simp add: metadata_from_def)
  then show ?thesis using recipe_paths_inside_workspace [OF build_classified r] by simp
qed



end
