(* ===== verification/Utf8.thy ===== *)
theory Utf8
  imports Text_Core
begin

text \<open>
  The UTF-8 layer: the strict one-scalar decoder (\<^verbatim>\<open>core/utf8.h\<close>), the bounded prefix
  (\<^verbatim>\<open>core/utf8_prefix.h\<close>), and the encoder, validator and repair pass of \<^verbatim>\<open>core/json.cpp\<close>.

  The locale \<open>scalar_decoder\<close> is the interface the JSON layer relies on: a decoder that
  consumes a non-empty chunk, looks at nothing behind it, reads every ASCII byte as itself
  and never hides an ASCII byte in a longer chunk. The chunk walk, and with it the facts on
  validation and repair, are proved once in the locale and reached through the
  interpretation \<open>utf8\<close> on the model of \<^verbatim>\<open>decode_utf8_scalar\<close>.
\<close>

unbundle bit_operations_syntax

section \<open>The strict UTF-8 decoder\<close>

record decoded_utf8_scalar =
  scalar :: nat
  scalar_length :: nat

definition utf8_expected_width :: "nat \<Rightarrow> nat" where
  "utf8_expected_width lead =
     (if lead \<le> 0x7f then 1
      else if lead \<ge> 0xc2 \<and> lead \<le> 0xdf then 2
      else if lead \<ge> 0xe0 \<and> lead \<le> 0xef then 3
      else if lead \<ge> 0xf0 \<and> lead \<le> 0xf4 then 4
      else 0)"

text \<open>
  The loop over the continuation bytes. The accumulator of the source is a 32-bit word; with
  at most three continuation bytes after a lead of at most five payload bits it stays below
  \<open>2 ^ 23\<close>, so the natural number here never differs from it.
\<close>

fun decode_continuation :: "nat \<Rightarrow> string \<Rightarrow> nat option" where
  "decode_continuation acc [] = Some acc"
| "decode_continuation acc (c # cs) =
     (if byte c AND 0xc0 \<noteq> 0x80 then None
      else decode_continuation (push_bit 6 acc OR (byte c AND 0x3f)) cs)"

definition minimum_by_width :: "nat list" where
  "minimum_by_width = [0, 0, 0x80, 0x800, 0x10000]"

definition decode_utf8_scalar :: "string \<Rightarrow> nat \<Rightarrow> decoded_utf8_scalar option" where
  "decode_utf8_scalar text index =
     (if index \<ge> length text then None
      else
        let lead = byte (text ! index); len = utf8_expected_width lead in
        if len = 0 \<or> len > length text - index then None
        else if len = 1 then Some \<lparr>scalar = lead, scalar_length = len\<rparr>
        else
          case decode_continuation (lead AND (push_bit (7 - len) 1 - 1)) (take (len - 1) (drop (index + 1) text)) of
            None \<Rightarrow> None
          | Some sc \<Rightarrow>
              if sc < minimum_by_width ! len \<or> (sc \<ge> 0xd800 \<and> sc \<le> 0xdfff) \<or> sc > 0x10ffff then None
              else Some \<lparr>scalar = sc, scalar_length = len\<rparr>)"

text \<open>The encoder of \<^verbatim>\<open>json.cpp\<close>; a narrowing cast to \<^verbatim>\<open>char\<close> is \<open>char_of\<close>.\<close>

definition append_utf8 :: "string \<Rightarrow> nat \<Rightarrow> string" where
  "append_utf8 out codepoint =
     (if codepoint \<le> 0x7F then out @ [char_of codepoint]
      else if codepoint \<le> 0x7FF then
        out @ [char_of (0xC0 OR (drop_bit 6 codepoint AND 0x1F)), char_of (0x80 OR (codepoint AND 0x3F))]
      else if codepoint \<le> 0xFFFF then
        out @ [char_of (0xE0 OR (drop_bit 12 codepoint AND 0x0F)), char_of (0x80 OR (drop_bit 6 codepoint AND 0x3F)),
               char_of (0x80 OR (codepoint AND 0x3F))]
      else
        out @ [char_of (0xF0 OR (drop_bit 18 codepoint AND 0x07)), char_of (0x80 OR (drop_bit 12 codepoint AND 0x3F)),
               char_of (0x80 OR (drop_bit 6 codepoint AND 0x3F)), char_of (0x80 OR (codepoint AND 0x3F))])"

text \<open>The Unicode scalar values: code points that are not surrogates.\<close>

definition unicode_scalar :: "nat \<Rightarrow> bool" where
  "unicode_scalar cp \<longleftrightarrow> cp \<le> 0x10ffff \<and> \<not> (0xd800 \<le> cp \<and> cp \<le> 0xdfff)"

section \<open>Validation, repair and bounded prefixes\<close>

text \<open>The decoder advances the index by the decoded length, or, in the repairing loops, by one.\<close>

lemma decode_length_pos:
  "decode_utf8_scalar text i = Some d \<Longrightarrow> 0 < scalar_length d \<and> i + scalar_length d \<le> length text"
  unfolding decode_utf8_scalar_def Let_def
  by (auto split: if_splits option.splits)

function is_valid_utf8_from :: "string \<Rightarrow> nat \<Rightarrow> bool" where
  "is_valid_utf8_from v index =
     (if index < length v then
        (case decode_utf8_scalar v index of
           None \<Rightarrow> False
         | Some d \<Rightarrow> is_valid_utf8_from v (index + scalar_length d))
      else True)"
  by pat_completeness auto
termination
  by (relation "measure (\<lambda>(v, index). length v - index)") (auto dest: decode_length_pos)

definition is_valid_utf8 :: "string \<Rightarrow> bool" where
  "is_valid_utf8 v = is_valid_utf8_from v 0"

definition utf8_replacement :: string where
  "utf8_replacement = [CHR 0xEF, CHR 0xBF, CHR 0xBD]"

function replace_invalid_utf8_from :: "string \<Rightarrow> nat \<Rightarrow> string" where
  "replace_invalid_utf8_from v index =
     (if index < length v then
        (case decode_utf8_scalar v index of
           None \<Rightarrow> utf8_replacement @ replace_invalid_utf8_from v (index + 1)
         | Some d \<Rightarrow> take (scalar_length d) (drop index v) @ replace_invalid_utf8_from v (index + scalar_length d))
      else [])"
  by pat_completeness auto
termination
  by (relation "measure (\<lambda>(v, index). length v - index)") (auto dest: decode_length_pos)

definition replace_invalid_utf8 :: "string \<Rightarrow> string" where
  "replace_invalid_utf8 v = replace_invalid_utf8_from v 0"

function utf8_prefix_size_from :: "string \<Rightarrow> nat \<Rightarrow> nat \<Rightarrow> nat" where
  "utf8_prefix_size_from text max_bytes index =
     (if index < length text \<and> index < max_bytes then
        let width = (case decode_utf8_scalar text index of None \<Rightarrow> 1 | Some d \<Rightarrow> scalar_length d) in
        if width > max_bytes - index then index
        else utf8_prefix_size_from text max_bytes (index + width)
      else index)"
  by pat_completeness auto
termination
  by (relation "measure (\<lambda>(text, max_bytes, index). length text - index)")
    (auto split: option.splits dest: decode_length_pos)

definition utf8_prefix_size :: "string \<Rightarrow> nat \<Rightarrow> nat" where
  "utf8_prefix_size text max_bytes = utf8_prefix_size_from text max_bytes 0"

declare is_valid_utf8_from.simps [simp del] replace_invalid_utf8_from.simps [simp del]
  utf8_prefix_size_from.simps [simp del]

section \<open>The decoder in arithmetic\<close>

lemma push_or_add: 
  assumes x: "x < 2 ^ k" shows "push_bit k a OR x = a * 2 ^ k + (x::nat)"
proof -
  have tx: "take_bit k x = x" using x by (simp add: take_bit_nat_eq_self_iff)
  have "push_bit k a AND take_bit k x = 0"
    by (rule bit_eqI) (auto simp: bit_simps)
  then have "push_bit k a AND x = 0" using tx by simp
  then have "push_bit k a OR x = push_bit k a + x"
    by (simp add: disjunctive_add_eq_or)
  then show ?thesis by (simp add: push_bit_eq_mult)
qed

lemma and_mask_mod: "n AND (2 ^ k - 1) = n mod (2 ^ k :: nat)"
proof -
  have "n AND mask k = take_bit k n" by (simp add: take_bit_eq_mask)
  then show ?thesis by (simp add: take_bit_eq_mod mask_eq_exp_minus_1)
qed

lemma and_3f [simp]: "n AND 0x3f = n mod (64::nat)"
  using and_mask_mod [of n 6] by simp
lemma and_1f [simp]: "n AND 0x1f = n mod (32::nat)"
  using and_mask_mod [of n 5] by simp
lemma and_0f [simp]: "n AND 0x0f = n mod (16::nat)"
  using and_mask_mod [of n 4] by simp
lemma and_07 [simp]: "n AND 7 = n mod (8::nat)"
  using and_mask_mod [of n 3] by simp

lemma and_push_bit: "(n::nat) AND push_bit k m = push_bit k (drop_bit k n AND m)"
  by (rule bit_eqI) (auto simp: bit_simps)

lemma and_c0: "(n::nat) AND 0xc0 = 64 * ((n div 64) mod 4)"
proof -
  have "n AND 0xc0 = 64 * ((n div 64) AND 3)"
    using and_push_bit [of n 6 3] by (simp add: push_bit_eq_mult drop_bit_eq_div)
  then show ?thesis using and_mask_mod [of "n div 64" 2] by simp
qed

lemma cont_byte: "n < 256 \<Longrightarrow> ((n::nat) AND 0xc0 = 0x80) = (128 \<le> n \<and> n < 192)"
  unfolding and_c0 by auto

lemma decode_continuation_simps:
  "decode_continuation acc (c # cs) =
     (if 128 \<le> byte c \<and> byte c < 192 then decode_continuation (acc * 64 + byte c mod 64) cs else None)"
  using push_or_add [of "byte c mod 64" 6 acc] cont_byte [of "byte c"]
  by auto

lemma decode_shift: "index \<le> length text \<Longrightarrow>
  decode_utf8_scalar text index = decode_utf8_scalar (drop index text) 0"
  by (cases "index = length text") (auto simp: decode_utf8_scalar_def hd_drop_conv_nth nth_via_drop Let_def)

text \<open>The decoder and the encoder in terms of sums, quotients and remainders.\<close>
lemma decode_Nil: "decode_utf8_scalar [] i = None"
  by (simp add: decode_utf8_scalar_def)

lemma mask_arith: "lead AND (push_bit (7 - 2) 1 - 1) = lead mod (32::nat)"
  "lead AND (push_bit (7 - 3) 1 - 1) = lead mod (16::nat)"
  "lead AND (push_bit (7 - 4) 1 - 1) = lead mod (8::nat)"
  by simp_all

lemma or_c0: "x < 32 \<Longrightarrow> 0xC0 OR x = 0xC0 + (x::nat)" using push_or_add [of x 5 6] by simp
lemma or_e0: "x < 16 \<Longrightarrow> 0xE0 OR x = 0xE0 + (x::nat)" using push_or_add [of x 4 14] by simp
lemma or_f0: "x < 8 \<Longrightarrow> 0xF0 OR x = 0xF0 + (x::nat)" using push_or_add [of x 3 30] by simp
lemma or_80: "x < 64 \<Longrightarrow> 0x80 OR x = 0x80 + (x::nat)" using push_or_add [of x 6 2] by simp

lemma append_utf8_arith:
  "append_utf8 out cp =
    (if cp < 0x80 then out @ [char_of cp]
     else if cp < 0x800 then out @ [char_of (0xC0 + (cp div 64) mod 32), char_of (0x80 + cp mod 64)]
     else if cp < 0x10000 then out @ [char_of (0xE0 + (cp div 4096) mod 16), char_of (0x80 + (cp div 64) mod 64), char_of (0x80 + cp mod 64)]
     else out @ [char_of (0xF0 + (cp div 262144) mod 8), char_of (0x80 + (cp div 4096) mod 64), char_of (0x80 + (cp div 64) mod 64), char_of (0x80 + cp mod 64)])"
  by (simp add: append_utf8_def drop_bit_eq_div or_c0 or_e0 or_f0 or_80 flip: less_Suc_eq_le)

lemma minimum_by_width_nth [simp]:
  "minimum_by_width ! 2 = 0x80" "minimum_by_width ! 3 = 0x800" "minimum_by_width ! 4 = 0x10000"
  by (simp_all add: minimum_by_width_def)

lemma utf8_width_cases:
  "utf8_expected_width n = 1 \<longleftrightarrow> n \<le> 0x7f"
  "utf8_expected_width n = 2 \<longleftrightarrow> 0xc2 \<le> n \<and> n \<le> 0xdf"
  "utf8_expected_width n = 3 \<longleftrightarrow> 0xe0 \<le> n \<and> n \<le> 0xef"
  "utf8_expected_width n = 4 \<longleftrightarrow> 0xf0 \<le> n \<and> n \<le> 0xf4"
  by (auto simp: utf8_expected_width_def)

lemma utf8_width_range:
  "utf8_expected_width n = 0 \<or> utf8_expected_width n = 1 \<or> utf8_expected_width n = 2
    \<or> utf8_expected_width n = 3 \<or> utf8_expected_width n = 4"
  by (auto simp: utf8_expected_width_def)

definition cont :: "nat \<Rightarrow> bool" where "cont n \<longleftrightarrow> 128 \<le> n \<and> n < 192"

definition utf8_scalar_ok :: "nat \<Rightarrow> nat \<Rightarrow> bool" where
  "utf8_scalar_ok minimum sc \<longleftrightarrow> minimum \<le> sc \<and> unicode_scalar sc"

lemma scalar_reject:
  "(sc < m \<or> (sc \<ge> 0xd800 \<and> sc \<le> 0xdfff) \<or> sc > 0x10ffff) \<longleftrightarrow> \<not> utf8_scalar_ok m sc"
  by (auto simp: utf8_scalar_ok_def unicode_scalar_def)

lemma decode_continuation_Cons:
  "decode_continuation acc (c # cs) =
     (if cont (byte c) then decode_continuation (acc * 64 + byte c mod 64) cs else None)"
  by (simp add: decode_continuation_simps cont_def del: decode_continuation.simps)

lemma decode_wide:
  assumes "utf8_expected_width (byte a) = n" "2 \<le> n" "n \<le> Suc (length t)"
  shows "decode_utf8_scalar (a # t) 0 =
    (case decode_continuation (byte a AND (push_bit (7 - n) 1 - 1)) (take (n - 1) t) of
       None \<Rightarrow> None
     | Some sc \<Rightarrow> if utf8_scalar_ok (minimum_by_width ! n) sc then Some \<lparr>scalar = sc, scalar_length = n\<rparr> else None)"
  using assms unfolding decode_utf8_scalar_def scalar_reject
  by (simp split: option.split)

lemma take_2_Cons: "take 2 (b # c # r) = [b, c]"
  by (simp add: numeral_2_eq_2)

lemma take_3_Cons: "take 3 (b # c # d # r) = [b, c, d]"
  by (simp add: numeral_3_eq_3)

lemma decode_1: "byte a \<le> 0x7f \<Longrightarrow>
  decode_utf8_scalar (a # r) 0 = Some \<lparr>scalar = byte a, scalar_length = 1\<rparr>"
  by (simp add: decode_utf8_scalar_def utf8_expected_width_def)

lemma decode_2:
  assumes "0xc2 \<le> byte a" "byte a \<le> 0xdf"
  shows "decode_utf8_scalar (a # b # r) 0 =
    (if cont (byte b) \<and> utf8_scalar_ok 0x80 (byte a mod 32 * 64 + byte b mod 64)
     then Some \<lparr>scalar = byte a mod 32 * 64 + byte b mod 64, scalar_length = 2\<rparr> else None)"
  using assms decode_wide [of a 2 "b # r"]
  by (simp add: utf8_width_cases decode_continuation_Cons del: decode_continuation.simps(2))

lemma decode_3:
  assumes "0xe0 \<le> byte a" "byte a \<le> 0xef"
  shows "decode_utf8_scalar (a # b # c # r) 0 =
    (if cont (byte b) \<and> cont (byte c) \<and> utf8_scalar_ok 0x800 ((byte a mod 16 * 64 + byte b mod 64) * 64 + byte c mod 64)
     then Some \<lparr>scalar = (byte a mod 16 * 64 + byte b mod 64) * 64 + byte c mod 64, scalar_length = 3\<rparr> else None)"
  using assms decode_wide [of a 3 "b # c # r"] take_2_Cons [of b c r]
  by (simp add: utf8_width_cases decode_continuation_Cons del: decode_continuation.simps(2))

lemma decode_4:
  assumes "0xf0 \<le> byte a" "byte a \<le> 0xf4"
  shows "decode_utf8_scalar (a # b # c # d # r) 0 =
    (if cont (byte b) \<and> cont (byte c) \<and> cont (byte d)
        \<and> utf8_scalar_ok 0x10000 (((byte a mod 8 * 64 + byte b mod 64) * 64 + byte c mod 64) * 64 + byte d mod 64)
     then Some \<lparr>scalar = ((byte a mod 8 * 64 + byte b mod 64) * 64 + byte c mod 64) * 64 + byte d mod 64, scalar_length = 4\<rparr>
     else None)"
  using assms decode_wide [of a 4 "b # c # d # r"] take_3_Cons [of b c d r]
  by (simp add: utf8_width_cases decode_continuation_Cons del: decode_continuation.simps(2))

lemma decode_SomeE:
  assumes "decode_utf8_scalar s 0 = Some d"
  obtains a r where "s = a # r" "byte a \<le> 0x7f" "d = \<lparr>scalar = byte a, scalar_length = 1\<rparr>"
  | a b r where "s = a # b # r" "0xc2 \<le> byte a" "byte a \<le> 0xdf" "cont (byte b)"
      "d = \<lparr>scalar = byte a mod 32 * 64 + byte b mod 64, scalar_length = 2\<rparr>" "utf8_scalar_ok 0x80 (scalar d)"
  | a b c r where "s = a # b # c # r" "0xe0 \<le> byte a" "byte a \<le> 0xef" "cont (byte b)" "cont (byte c)"
      "d = \<lparr>scalar = (byte a mod 16 * 64 + byte b mod 64) * 64 + byte c mod 64, scalar_length = 3\<rparr>"
      "utf8_scalar_ok 0x800 (scalar d)"
  | a b c e r where "s = a # b # c # e # r" "0xf0 \<le> byte a" "byte a \<le> 0xf4" "cont (byte b)" "cont (byte c)" "cont (byte e)"
      "d = \<lparr>scalar = ((byte a mod 8 * 64 + byte b mod 64) * 64 + byte c mod 64) * 64 + byte e mod 64, scalar_length = 4\<rparr>"
      "utf8_scalar_ok 0x10000 (scalar d)"
proof -
  from assms obtain a t where s: "s = a # t"
    by (cases s) (auto simp: decode_Nil)
  let ?w = "utf8_expected_width (byte a)"
  from assms s have w: "?w \<noteq> 0" "?w \<le> Suc (length t)"
    by (auto simp: decode_utf8_scalar_def Let_def split: if_splits)
  consider "?w = 1" | "?w = 2" | "?w = 3" | "?w = 4"
    using w(1) utf8_width_range [of "byte a"] by (elim disjE) simp_all
  then show ?thesis
  proof cases
    case 1
    then have a: "byte a \<le> 0x7f" by (simp only: utf8_width_cases)
    from assms have "d = \<lparr>scalar = byte a, scalar_length = 1\<rparr>"
      unfolding s decode_1 [OF a] by simp
    with s a show ?thesis by (rule that(1))
  next
    case 2
    with w(2) obtain b r where t: "t = b # r" by (cases t) auto
    from 2 have a: "0xc2 \<le> byte a" "byte a \<le> 0xdf" by (simp_all add: utf8_width_cases)
    from assms show ?thesis
      unfolding s t decode_2 [OF a] using that(2) [OF s [unfolded t] a] by (auto split: if_split_asm)
  next
    case 3
    with w(2) obtain b c r where t: "t = b # c # r"
      by (cases t; cases "tl t") auto
    from 3 have a: "0xe0 \<le> byte a" "byte a \<le> 0xef" by (simp_all add: utf8_width_cases)
    from assms show ?thesis
      unfolding s t decode_3 [OF a] using that(3) [OF s [unfolded t] a] by (auto split: if_split_asm)
  next
    case 4
    with w(2) obtain b c e r where t: "t = b # c # e # r"
      by (cases t; cases "tl t"; cases "tl (tl t)") auto
    from 4 have a: "0xf0 \<le> byte a" "byte a \<le> 0xf4" by (simp_all add: utf8_width_cases)
    from assms show ?thesis
      unfolding s t decode_4 [OF a] using that(4) [OF s [unfolded t] a] by (auto split: if_split_asm)
  qed
qed

section \<open>Encoder and decoder are inverse\<close>

lemma sextet_div [simp]: "u < 64 \<Longrightarrow> (x * 64 + u) div 64 = (x::nat)"
  and sextet_mod [simp]: "u < 64 \<Longrightarrow> (x * 64 + u) mod 64 = (u::nat)"
  by simp_all

lemma sextets: "(n::nat) div 4096 = n div 64 div 64" "(n::nat) div 262144 = n div 64 div 64 div 64"
  by (simp_all flip: div_mult2_eq)

lemma sextet_join: "(n::nat) div 64 * 64 + n mod 64 = n"
  by simp

lemma lead_mod:
  "n < 32 \<Longrightarrow> (192 + n) mod 32 = (n::nat)" "n < 16 \<Longrightarrow> (224 + n) mod 16 = (n::nat)"
  "n < 8 \<Longrightarrow> (240 + n) mod 8 = (n::nat)" "n < 64 \<Longrightarrow> (128 + n) mod 64 = (n::nat)"
  using mod_mult_self3 [of 6 32 n] mod_mult_self3 [of 14 16 n] mod_mult_self3 [of 30 8 n] mod_mult_self3 [of 2 64 n]
  by simp_all

lemma byte_lead:
  "n < 32 \<Longrightarrow> byte (char_of (192 + n)) = 192 + n" "n < 16 \<Longrightarrow> byte (char_of (224 + n)) = 224 + n"
  "n < 8 \<Longrightarrow> byte (char_of (240 + n)) = 240 + n" "n < 64 \<Longrightarrow> byte (char_of (128 + n)) = 128 + n"
  by (simp_all only: of_char_of) simp_all

lemma lead_split:
  "192 \<le> n \<Longrightarrow> n \<le> 223 \<Longrightarrow> (n::nat) = 192 + n mod 32" "224 \<le> n \<Longrightarrow> n \<le> 239 \<Longrightarrow> (n::nat) = 224 + n mod 16"
  "240 \<le> n \<Longrightarrow> n \<le> 244 \<Longrightarrow> (n::nat) = 240 + n mod 8" "cont n \<Longrightarrow> n = 128 + n mod 64"
  using lead_mod(1) [of "n - 192"] lead_mod(2) [of "n - 224"] lead_mod(3) [of "n - 240"] lead_mod(4) [of "n - 128"]
  by (auto simp: cont_def)

lemma utf8_decode_append:
  assumes "unicode_scalar cp"
  shows "decode_utf8_scalar (append_utf8 [] cp @ rest) 0 =
    Some \<lparr>scalar = cp, scalar_length = length (append_utf8 [] cp)\<rparr>"
proof -
  consider "cp < 0x80" | "0x80 \<le> cp" "cp < 0x800" | "0x800 \<le> cp" "cp < 0x10000" | "0x10000 \<le> cp" "cp \<le> 0x10ffff"
    using assms by (force simp: unicode_scalar_def)
  then show ?thesis
  proof cases
    case 1
    then show ?thesis by (simp add: append_utf8_arith decode_1)
  next
    case 2
    define q r where "q = cp div 64" and "r = cp mod 64"
    have cp: "cp = q * 64 + r" and r: "r < 64" by (simp_all add: q_def r_def)
    have q: "2 \<le> q" "q < 32" using 2 r unfolding cp by linarith+
    have e: "append_utf8 [] cp = [char_of (0xC0 + q), char_of (0x80 + r)]"
      using 2 q by (simp add: append_utf8_arith q_def r_def)
    have ok: "utf8_scalar_ok 0x80 (q * 64 + r)" using assms 2 by (simp add: utf8_scalar_ok_def cp)
    show ?thesis
      unfolding e using q r ok decode_2 [of "char_of (0xC0 + q)" "char_of (0x80 + r)" rest]
      by (simp add: byte_lead lead_mod cont_def cp del: of_char_of)
  next
    case 3
    define p q r where "p = cp div 64 div 64" and "q = (cp div 64) mod 64" and "r = cp mod 64"
    have cp: "cp = (p * 64 + q) * 64 + r" and qr: "q < 64" "r < 64"
      unfolding p_def q_def r_def sextet_join by simp_all
    have p: "p < 16" using 3 by (simp add: p_def less_mult_imp_div_less)
    have e: "append_utf8 [] cp = [char_of (0xE0 + p), char_of (0x80 + q), char_of (0x80 + r)]"
      using 3 p by (simp add: append_utf8_arith sextets p_def q_def r_def)
    have ok: "utf8_scalar_ok 0x800 ((p * 64 + q) * 64 + r)"
      using assms 3 by (simp only: utf8_scalar_ok_def cp)
    show ?thesis
      unfolding e using p qr ok decode_3 [of "char_of (0xE0 + p)" "char_of (0x80 + q)" "char_of (0x80 + r)" rest]
      by (simp add: byte_lead lead_mod cont_def cp del: of_char_of)
  next
    case 4
    define o' p q r where "o' = cp div 64 div 64 div 64" and "p = (cp div 64 div 64) mod 64" and "q = (cp div 64) mod 64" and "r = cp mod 64"
    have cp: "cp = ((o' * 64 + p) * 64 + q) * 64 + r" and qr: "p < 64" "q < 64" "r < 64"
      unfolding o'_def p_def q_def r_def sextet_join by simp_all
    have o: "o' < 8" using 4 by (simp add: o'_def less_mult_imp_div_less)
    have o4: "o' \<le> 4" using 4(2) qr unfolding cp by simp
    have e: "append_utf8 [] cp = [char_of (0xF0 + o'), char_of (0x80 + p), char_of (0x80 + q), char_of (0x80 + r)]"
      using 4 o by (simp add: append_utf8_arith sextets o'_def p_def q_def r_def)
    have ok: "utf8_scalar_ok 0x10000 (((o' * 64 + p) * 64 + q) * 64 + r)"
      using assms 4 by (simp only: utf8_scalar_ok_def cp)
    show ?thesis
      unfolding e using o o4 qr ok
        decode_4 [of "char_of (0xF0 + o')" "char_of (0x80 + p)" "char_of (0x80 + q)" "char_of (0x80 + r)" rest]
      by (simp add: byte_lead lead_mod cont_def cp del: of_char_of)
  qed
qed

lemma char_of_byte_eq: "byte c = n \<Longrightarrow> char_of n = c"
  by (metis char_of_char)

lemma utf8_decode_canonical:
  assumes "decode_utf8_scalar s 0 = Some d"
  shows "unicode_scalar (scalar d) \<and> take (scalar_length d) s = append_utf8 [] (scalar d)"
  using assms
proof (cases rule: decode_SomeE)
  case (1 a r)
  then show ?thesis by (simp add: unicode_scalar_def append_utf8_arith)
next
  case (2 a b r)
  define q t where "q = byte a mod 32" and "t = byte b mod 64"
  have qt: "q < 32" "t < 64" by (simp_all add: q_def t_def)
  have ab: "byte a = 0xC0 + q" "byte b = 0x80 + t"
    using 2(2,3,4) lead_split(1) [of "byte a"] lead_split(4) [of "byte b"] unfolding q_def t_def by simp_all
  have d: "d = \<lparr>scalar = q * 64 + t, scalar_length = 2\<rparr>" using 2(5) by (simp add: q_def t_def)
  have "append_utf8 [] (q * 64 + t) = [a, b]"
    using qt 2(6) ab by (auto simp: append_utf8_arith d utf8_scalar_ok_def intro: char_of_byte_eq)
  then show ?thesis using 2(1,6) by (simp add: d utf8_scalar_ok_def)
next
  case (3 a b c r)
  define q t u where "q = byte a mod 16" and "t = byte b mod 64" and "u = byte c mod 64"
  have qt: "q < 16" "t < 64" "u < 64" by (simp_all add: q_def t_def u_def)
  have ab: "byte a = 0xE0 + q" "byte b = 0x80 + t" "byte c = 0x80 + u"
    using 3(2-5) lead_split(2) [of "byte a"] lead_split(4) unfolding q_def t_def u_def by blast+
  define sc where "sc = (q * 64 + t) * 64 + u"
  have d: "d = \<lparr>scalar = sc, scalar_length = 3\<rparr>" using 3(6) by (simp add: q_def t_def u_def sc_def)
  have "sc div 4096 mod 16 = q" "sc div 64 mod 64 = t" "sc mod 64 = u"
    using qt by (simp_all only: sc_def sextets sextet_div sextet_mod mod_less)
  moreover have "sc < 0x10000" using qt by (simp add: sc_def)
  moreover have "0x800 \<le> sc" using 3(7) by (simp add: d utf8_scalar_ok_def)
  ultimately
  have "append_utf8 [] sc = [a, b, c]"
    using ab by (auto simp: append_utf8_arith intro: char_of_byte_eq)
  then show ?thesis using 3(1,7) by (simp add: d utf8_scalar_ok_def take_3_Cons)
next
  case (4 a b c e r)
  define q t u v where "q = byte a mod 8" and "t = byte b mod 64" and "u = byte c mod 64" and "v = byte e mod 64"
  have qt: "q < 8" "t < 64" "u < 64" "v < 64" by (simp_all add: q_def t_def u_def v_def)
  have ab: "byte a = 0xF0 + q" "byte b = 0x80 + t" "byte c = 0x80 + u" "byte e = 0x80 + v"
    using 4(2-6) lead_split(3) [of "byte a"] lead_split(4) unfolding q_def t_def u_def v_def by blast+
  define sc where "sc = ((q * 64 + t) * 64 + u) * 64 + v"
  have d: "d = \<lparr>scalar = sc, scalar_length = 4\<rparr>" using 4(7) by (simp add: q_def t_def u_def v_def sc_def)
  have "sc div 262144 mod 8 = q" "sc div 4096 mod 64 = t" "sc div 64 mod 64 = u" "sc mod 64 = v"
    using qt by (simp_all only: sc_def sextets sextet_div sextet_mod mod_less)
  moreover have "0x10000 \<le> sc" using 4(8) by (simp add: d utf8_scalar_ok_def)
  ultimately
  have "append_utf8 [] sc = [a, b, c, e]"
    using ab by (auto simp: append_utf8_arith intro: char_of_byte_eq)
  then show ?thesis using 4(1,8) by (simp add: d utf8_scalar_ok_def)
qed

section \<open>The decoder interface and the chunk walk\<close>

definition utf8_chunk :: "string \<Rightarrow> nat option" where
  "utf8_chunk s = map_option scalar_length (decode_utf8_scalar s 0)"

inductive chunked :: "(string \<Rightarrow> nat option) \<Rightarrow> string \<Rightarrow> bool" for dec where
  chunked_Nil: "chunked dec []"
| chunked_step: "dec s = Some n \<Longrightarrow> chunked dec (drop n s) \<Longrightarrow> chunked dec s"

locale scalar_decoder =
  fixes dec :: "string \<Rightarrow> nat option"
  assumes dec_pos: "dec s = Some n \<Longrightarrow> 0 < n \<and> n \<le> length s"
    and dec_local: "dec s = Some n \<Longrightarrow> dec (take n s @ t) = Some n"
    and dec_ascii: "byte c < 128 \<Longrightarrow> dec (c # s) = Some 1"
    and dec_high: "dec s = Some n \<Longrightarrow> n \<noteq> 1 \<Longrightarrow> c \<in> set (take n s) \<Longrightarrow> 128 \<le> byte c"
begin

lemma chunked_iff: "s \<noteq> [] \<Longrightarrow> chunked dec s \<longleftrightarrow> (\<exists>n. dec s = Some n \<and> chunked dec (drop n s))"
  by (metis chunked.simps)

lemma chunked_decE:
  assumes "chunked dec s" "s \<noteq> []"
  obtains n where "dec s = Some n" "0 < n" "n \<le> length s" "chunked dec (drop n s)"
  using assms chunked_iff dec_pos by blast

lemma chunk_single: "dec s = Some n \<Longrightarrow> chunked dec (take n s)"
  using dec_local [of s n "[]"] chunked_step [of dec "take n s" n] chunked_Nil [of dec] by simp

lemma dec_append: "dec a = Some n \<Longrightarrow> dec (a @ b) = Some n"
  using dec_local [of a n "drop n a @ b"] by (simp flip: append_assoc)

lemma chunked_append: "chunked dec a \<Longrightarrow> chunked dec (a @ b) = chunked dec b"
proof (induction rule: chunked.induct)
  case (chunked_step s n)
  then have n: "dec (s @ b) = Some n" "n \<le> length s" "0 < n"
    using dec_append dec_pos by blast+
  then have "s @ b \<noteq> []" by auto
  with n chunked_step.IH show ?case
    by (simp add: chunked_iff)
qed simp

lemma chunked_Cons_ascii: "byte c < 128 \<Longrightarrow> chunked dec (c # s) = chunked dec s"
  by (simp add: chunked_iff dec_ascii)

lemma chunked_ascii: "(\<And>c. c \<in> set s \<Longrightarrow> byte c < 128) \<Longrightarrow> chunked dec s"
  by (induction s) (auto intro: chunked_Nil simp: chunked_Cons_ascii)

lemma chunked_append_ascii: "chunked dec s \<Longrightarrow> (\<And>c. c \<in> set t \<Longrightarrow> byte c < 128) \<Longrightarrow> chunked dec (s @ t)"
  by (simp add: chunked_append chunked_ascii)

lemma chunked_split_ascii:
  assumes "chunked dec (a @ c # b)" "byte c < 128"
  shows "chunked dec a \<and> chunked dec b"
  using assms(1)
proof (induction a rule: length_induct)
  case (1 a)
  show ?case
  proof (cases "a = []")
    case True
    with 1 assms(2) show ?thesis by (simp add: chunked_Cons_ascii chunked_Nil)
  next
    case False
    from 1(2) obtain n where n: "dec (a @ c # b) = Some n" "0 < n" "chunked dec (drop n (a @ c # b))"
      by (rule chunked_decE) auto
    have "n \<le> length a"
    proof (rule ccontr)
      assume "\<not> n \<le> length a"
      then have n': "length a < n" by simp
      then have "take n (a @ c # b) = a @ c # take (n - length a - 1) b" by (simp add: take_Cons')
      then have "c \<in> set (take n (a @ c # b))" by simp
      moreover have "n \<noteq> 1" using n' False by (cases a) auto
      ultimately show False using dec_high [OF n(1)] assms(2) by (meson not_le)
    qed
    then have "chunked dec (drop n a) \<and> chunked dec b"
      using 1(1) [rule_format, of "drop n a"] n False by simp
    moreover have "dec a = Some n"
      using dec_local [OF n(1), of "drop n a"] \<open>n \<le> length a\<close> by simp
    ultimately show ?thesis using chunked_step [of dec a n] by simp
  qed
qed

lemma chunked_take_step:
  assumes "dec s = Some n" "k \<le> length s" "0 < k" "chunked dec (take k s)"
  shows "n \<le> k"
proof -
  from assms(3) dec_pos [OF assms(1)] have "take k s \<noteq> []" by (cases s) auto
  then obtain m where m: "dec (take k s) = Some m" "m \<le> length (take k s)"
    using assms(4) chunked_decE by blast
  then have "dec (take k s @ drop k s) = Some m" by (intro dec_append)
  then have "m = n" using assms(1) by simp
  then show ?thesis using m(2) assms(2) by simp
qed

end

lemma decode_take_append:
  assumes "decode_utf8_scalar s 0 = Some d"
  shows "decode_utf8_scalar (take (scalar_length d) s @ t) 0 = Some d"
proof -
  from utf8_decode_canonical [OF assms]
  have c: "unicode_scalar (scalar d)" "take (scalar_length d) s = append_utf8 [] (scalar d)" by auto
  then have "length (append_utf8 [] (scalar d)) = scalar_length d"
    using decode_length_pos [OF assms] by (metis add_0 length_take min.absorb2)
  then show ?thesis
    using utf8_decode_append [OF c(1), of t] unfolding c(2) by simp
qed

lemma decode_high_bytes:
  assumes "decode_utf8_scalar s 0 = Some d" "scalar_length d \<noteq> 1" "c \<in> set (take (scalar_length d) s)"
  shows "128 \<le> byte c"
  using assms(1)
  by (cases rule: decode_SomeE) (use assms(2,3) in \<open>auto simp: cont_def take_3_Cons\<close>)

interpretation utf8: scalar_decoder utf8_chunk
proof unfold_locales
  fix s n assume "utf8_chunk s = Some n"
  then show "0 < n \<and> n \<le> length s"
    by (auto simp: utf8_chunk_def dest: decode_length_pos)
next
  fix s n t assume "utf8_chunk s = Some n"
  then show "utf8_chunk (take n s @ t) = Some n"
    by (auto simp: utf8_chunk_def decode_take_append)
next
  fix c s assume "byte c < 128"
  then show "utf8_chunk (c # s) = Some 1"
    by (simp add: utf8_chunk_def decode_1)
next
  fix s n c assume "utf8_chunk s = Some n" "n \<noteq> 1" "c \<in> set (take n s)"
  then show "128 \<le> byte c"
    by (auto simp: utf8_chunk_def dest: decode_high_bytes)
qed

section \<open>Validation\<close>

lemma is_valid_utf8_from_chunked: "is_valid_utf8_from v i \<longleftrightarrow> chunked utf8_chunk (drop i v)"
proof (induction v i rule: is_valid_utf8_from.induct)
  case (1 v i)
  show ?case
  proof (cases "i < length v")
    case True
    then have dec: "utf8_chunk (drop i v) = map_option scalar_length (decode_utf8_scalar v i)"
      by (simp add: utf8_chunk_def flip: decode_shift)
    show ?thesis
    proof (cases "decode_utf8_scalar v i")
      case None
      with True dec show ?thesis
        by (simp add: is_valid_utf8_from.simps [of v i] utf8.chunked_iff [of "drop i v"])
    next
      case (Some d)
      with 1 [OF True Some] True dec show ?thesis
        by (simp add: is_valid_utf8_from.simps [of v i] utf8.chunked_iff [of "drop i v"] add.commute)
    qed
  qed (auto simp: is_valid_utf8_from.simps [of v i] intro: chunked_Nil)
qed

lemma is_valid_utf8_chunked: "is_valid_utf8 v \<longleftrightarrow> chunked utf8_chunk v"
  by (simp add: is_valid_utf8_def is_valid_utf8_from_chunked)

lemma valid_utf8_append: "is_valid_utf8 a \<Longrightarrow> is_valid_utf8 (a @ b) = is_valid_utf8 b"
  by (simp add: is_valid_utf8_chunked utf8.chunked_append)

lemma valid_utf8_Nil [simp]: "is_valid_utf8 []"
  by (simp add: is_valid_utf8_chunked chunked_Nil)

lemma valid_utf8_ascii: "(\<And>c. c \<in> set s \<Longrightarrow> byte c < 128) \<Longrightarrow> is_valid_utf8 s"
  by (simp add: is_valid_utf8_chunked utf8.chunked_ascii)

lemma valid_utf8_Cons_ascii: "byte c < 128 \<Longrightarrow> is_valid_utf8 (c # s) = is_valid_utf8 s"
  by (simp add: is_valid_utf8_chunked utf8.chunked_Cons_ascii)

lemma valid_utf8_split_ascii: "is_valid_utf8 (a @ c # b) \<Longrightarrow> byte c < 128 \<Longrightarrow> is_valid_utf8 a \<and> is_valid_utf8 b"
  unfolding is_valid_utf8_chunked by (rule utf8.chunked_split_ascii)

lemma utf8_encoded_chunk: "unicode_scalar cp \<Longrightarrow> utf8_chunk (append_utf8 [] cp @ t) = Some (length (append_utf8 [] cp))"
  by (simp add: utf8_chunk_def utf8_decode_append)

lemma valid_utf8_encoded: "unicode_scalar cp \<Longrightarrow> is_valid_utf8 (append_utf8 [] cp)"
  using utf8.chunk_single [OF utf8_encoded_chunk [of cp "[]"]] by (simp add: is_valid_utf8_chunked)

lemma valid_utf8_replacement: "is_valid_utf8 utf8_replacement"
proof -
  have "utf8_chunk utf8_replacement = Some 3"
    by (simp add: utf8_chunk_def utf8_replacement_def decode_3 cont_def utf8_scalar_ok_def unicode_scalar_def)
  then show ?thesis
    using utf8.chunk_single by (fastforce simp: is_valid_utf8_chunked utf8_replacement_def)
qed

text \<open>
  C33: the validator accepts exactly the concatenations of encoded Unicode scalar values: every
  string it accepts is the encoding of some scalars, shortest form each and no surrogate, and every such
  encoding is accepted.
\<close>

theorem is_valid_utf8_iff_scalars:
  "is_valid_utf8 v \<longleftrightarrow> (\<exists>cps. list_all unicode_scalar cps \<and> v = concat (map (append_utf8 []) cps))"
proof
  assume "is_valid_utf8 v"
  then have "chunked utf8_chunk v" by (simp add: is_valid_utf8_chunked)
  then show "\<exists>cps. list_all unicode_scalar cps \<and> v = concat (map (append_utf8 []) cps)"
  proof (induction rule: chunked.induct)
    case chunked_Nil
    show ?case by (rule exI [where x = "[]"]) simp
  next
    case (chunked_step s n)
    then obtain d where d: "decode_utf8_scalar s 0 = Some d" "n = scalar_length d"
      by (auto simp: utf8_chunk_def)
    from chunked_step.IH obtain cps where cps: "list_all unicode_scalar cps" "drop n s = concat (map (append_utf8 []) cps)"
      by blast
    have "s = take n s @ drop n s" by simp
    with cps utf8_decode_canonical [OF d(1)] d(2) show ?case
      by (intro exI [where x = "scalar d # cps"]) auto
  qed
next
  assume "\<exists>cps. list_all unicode_scalar cps \<and> v = concat (map (append_utf8 []) cps)"
  then obtain cps where "list_all unicode_scalar cps" "v = concat (map (append_utf8 []) cps)" by blast
  then show "is_valid_utf8 v"
    by (induction cps arbitrary: v) (auto simp: valid_utf8_append valid_utf8_encoded)
qed

section \<open>Repair and bounded prefixes\<close>

lemma replace_from_valid: "is_valid_utf8 (replace_invalid_utf8_from v i)"
proof (induction v i rule: replace_invalid_utf8_from.induct)
  case (1 v i)
  have "is_valid_utf8 (take (scalar_length d) (drop i v))" if "decode_utf8_scalar v i = Some d" "i < length v" for d
    using that utf8.chunk_single [of "drop i v" "scalar_length d"]
    by (simp add: is_valid_utf8_chunked utf8_chunk_def flip: decode_shift)
  with 1 show ?case
    by (auto simp: replace_invalid_utf8_from.simps [of v i] valid_utf8_append valid_utf8_replacement split: option.splits)
qed

lemma replace_from_id: "is_valid_utf8_from v i \<Longrightarrow> replace_invalid_utf8_from v i = drop i v"
proof (induction v i rule: replace_invalid_utf8_from.induct)
  case (1 v i)
  show ?case
  proof (cases "i < length v")
    case True
    with 1(3) obtain d where d: "decode_utf8_scalar v i = Some d" "is_valid_utf8_from v (i + scalar_length d)"
      by (auto simp: is_valid_utf8_from.simps [of v i] split: option.splits)
    then have "replace_invalid_utf8_from v i = take (scalar_length d) (drop i v) @ drop (i + scalar_length d) v"
      using 1(2) True by (simp add: replace_invalid_utf8_from.simps [of v i])
    also have "\<dots> = drop i v"
      using append_take_drop_id [of "scalar_length d" "drop i v"] by (simp add: add.commute)
    finally show ?thesis .
  qed (simp add: replace_invalid_utf8_from.simps [of v i])
qed

lemma valid_take_step:
  assumes chunk: "utf8_chunk s = Some n" and k: "0 < k" "k \<le> length s"
  shows "is_valid_utf8 (take k s) \<longleftrightarrow> n \<le> k \<and> is_valid_utf8 (take (k - n) (drop n s))"
proof (cases "n \<le> k")
  case True
  then have "take k s = take n s @ take (k - n) (drop n s)"
    using take_add [of n "k - n" s] by simp
  with True utf8.chunk_single [OF chunk] show ?thesis
    by (simp add: valid_utf8_append is_valid_utf8_chunked utf8.chunked_append)
next
  case False
  with utf8.chunked_take_step [OF chunk k(2,1)] show ?thesis
    by (auto simp: is_valid_utf8_chunked)
qed

text \<open>What the prefix loop keeps: it ends on a scalar boundary, and no later boundary fits.\<close>

definition prefix_goal :: "string \<Rightarrow> nat \<Rightarrow> nat \<Rightarrow> nat \<Rightarrow> bool" where
  "prefix_goal s max_bytes i r \<longleftrightarrow> i \<le> r \<and> r \<le> max_bytes \<and> r \<le> length s \<and> is_valid_utf8 (take (r - i) (drop i s))
     \<and> (\<forall>k. r < k \<and> k \<le> max_bytes \<and> k \<le> length s \<longrightarrow> \<not> is_valid_utf8 (take (k - i) (drop i s)))"

lemma prefix_goal_step:
  assumes chunk: "utf8_chunk (drop i s) = Some n" and "prefix_goal s m (i + n) r" "0 < n"
  shows "prefix_goal s m i r"
proof -
  have "is_valid_utf8 (take (k - i) (drop i s)) \<longleftrightarrow> i + n \<le> k \<and> is_valid_utf8 (take (k - (i + n)) (drop (i + n) s))"
    if "i < k" "k \<le> length s" for k
    using valid_take_step [OF chunk, of "k - i"] that by (auto simp: diff_le_mono add.commute)
  then show ?thesis using assms(2,3) by (auto simp: prefix_goal_def)
qed

lemma utf8_prefix_from:
  "is_valid_utf8_from s i \<Longrightarrow> i \<le> m \<Longrightarrow> i \<le> length s \<Longrightarrow> prefix_goal s m i (utf8_prefix_size_from s m i)"
proof (induction s m i rule: utf8_prefix_size_from.induct)
  case (1 s m i)
  show ?case
  proof (cases "i < length s \<and> i < m")
    case False
    with 1(3,4) show ?thesis
      by (auto simp: utf8_prefix_size_from.simps [of s m i] prefix_goal_def)
  next
    case True
    with 1(2) obtain d where d: "decode_utf8_scalar s i = Some d" "is_valid_utf8_from s (i + scalar_length d)"
      by (auto simp: is_valid_utf8_from.simps [of s i] split: option.splits)
    define n where "n = scalar_length d"
    have n: "0 < n" "i + n \<le> length s" using decode_length_pos [OF d(1)] by (auto simp: n_def)
    have chunk: "utf8_chunk (drop i s) = Some n"
      using d(1) True by (simp add: utf8_chunk_def n_def flip: decode_shift)
    have step: "utf8_prefix_size_from s m i = (if n > m - i then i else utf8_prefix_size_from s m (i + n))"
      using True d(1) by (simp add: utf8_prefix_size_from.simps [of s m i] n_def)
    show ?thesis
    proof (cases "n > m - i")
      case True
      have "\<not> is_valid_utf8 (take (k - i) (drop i s))" if "i < k" "k \<le> m" "k \<le> length s" for k
        using valid_take_step [OF chunk, of "k - i"] that True by (auto simp: diff_le_mono)
      with True step 1(3,4) show ?thesis by (simp add: prefix_goal_def)
    next
      case False
      then have "prefix_goal s m (i + n) (utf8_prefix_size_from s m (i + n))"
        using 1(1) [OF True, of n] d n True by (simp add: n_def)
      with False step show ?thesis using prefix_goal_step [OF chunk _ n(1)] by simp
    qed
  qed
qed

text \<open>
  C34: the repair pass always yields valid UTF-8, and it changes a string exactly when the
  string is not valid.
\<close>

theorem replace_invalid_utf8_repairs:
  "is_valid_utf8 (replace_invalid_utf8 v) \<and> (replace_invalid_utf8 v = v \<longleftrightarrow> is_valid_utf8 v)"
  using replace_from_valid [of v 0] replace_from_id [of v 0]
  by (auto simp: replace_invalid_utf8_def is_valid_utf8_def)

text \<open>
  On valid text the bounded prefix stays within the byte limit and the text, is itself
  valid, and no longer prefix within the limit is.
\<close>

theorem utf8_prefix_longest:
  assumes "is_valid_utf8 s"
  shows "utf8_prefix_size s m \<le> m \<and> utf8_prefix_size s m \<le> length s \<and> is_valid_utf8 (take (utf8_prefix_size s m) s) \<and>
    (\<forall>k. utf8_prefix_size s m < k \<and> k \<le> m \<and> k \<le> length s \<longrightarrow> \<not> is_valid_utf8 (take k s))"
  using utf8_prefix_from [of s 0 m] assms
  by (simp add: is_valid_utf8_def utf8_prefix_size_def prefix_goal_def)

theorem utf8_prefix_longest_witness:
  "is_valid_utf8 (CHR ''a'' # utf8_replacement) \<and> utf8_prefix_size (CHR ''a'' # utf8_replacement) 3 \<le> 3 \<and>
   is_valid_utf8 (take (utf8_prefix_size (CHR ''a'' # utf8_replacement) 3) (CHR ''a'' # utf8_replacement))"
  using utf8_prefix_longest [of "CHR ''a'' # utf8_replacement" 3]
  by (simp add: valid_utf8_Cons_ascii valid_utf8_replacement)

end
