(* ===== verification/Json_Lex.thy ===== *)
theory Json_Lex
  imports Utf8
begin

text \<open>
  The lexical layer of \<^verbatim>\<open>core/json.cpp\<close>: string literals (decoding, escaping, skipping), the
  bracket scanner, framing compaction and the nesting limit. A position of the source is kept
  as an index where it is returned; a loop that only advances carries the remaining suffix of
  the text, \<^verbatim>\<open>text.substr(index)\<close>.

  The locale \<open>string_aware\<close> is what the scanners of the file have in common: inside a string
  literal they only track the escape flag. A literal of the JSON grammar is then skipped by
  each of them in one step; the interpretations on the scanners of this theory are the reason
  why brackets and quotes inside literals never confuse them.
\<close>

unbundle bit_operations_syntax

section \<open>Code units\<close>

definition hex_value :: "char \<Rightarrow> int" where
  "hex_value ch =
     (if CHR ''0'' \<le> ch \<and> ch \<le> CHR ''9'' then int (byte ch) - int (byte CHR ''0'')
      else if CHR ''a'' \<le> ch \<and> ch \<le> CHR ''f'' then int (byte ch) - int (byte CHR ''a'') + 10
      else if CHR ''A'' \<le> ch \<and> ch \<le> CHR ''F'' then int (byte ch) - int (byte CHR ''A'') + 10
      else -1)"

definition parse_hex_code_unit :: "string \<Rightarrow> nat \<Rightarrow> nat option" where
  "parse_hex_code_unit text hex_start =
     (if hex_start + 3 \<ge> length text then None
      else
        let a = hex_value (text ! hex_start); b = hex_value (text ! (hex_start + 1));
            c = hex_value (text ! (hex_start + 2)); d = hex_value (text ! (hex_start + 3)) in
        if a < 0 \<or> b < 0 \<or> c < 0 \<or> d < 0 then None
        else Some (push_bit 12 (nat a) OR push_bit 8 (nat b) OR push_bit 4 (nat c) OR nat d))"

definition is_high_surrogate :: "nat \<Rightarrow> bool" where
  "is_high_surrogate code_unit \<longleftrightarrow> code_unit \<ge> 0xD800 \<and> code_unit \<le> 0xDBFF"

definition is_low_surrogate :: "nat \<Rightarrow> bool" where
  "is_low_surrogate code_unit \<longleftrightarrow> code_unit \<ge> 0xDC00 \<and> code_unit \<le> 0xDFFF"

definition is_json_hex_digit :: "char \<Rightarrow> bool" where
  "is_json_hex_digit ch \<longleftrightarrow>
     (CHR ''0'' \<le> ch \<and> ch \<le> CHR ''9'') \<or> (CHR ''a'' \<le> ch \<and> ch \<le> CHR ''f'') \<or> (CHR ''A'' \<le> ch \<and> ch \<le> CHR ''F'')"

definition is_json_whitespace :: "char \<Rightarrow> bool" where
  "is_json_whitespace ch \<longleftrightarrow> ch = CHR '' '' \<or> ch = CHR 0x09 \<or> ch = CHR 0x0A \<or> ch = CHR 0x0D"

section \<open>String literals\<close>

text \<open>The one-character escapes of the decoder.\<close>

definition simple_escape :: "char \<Rightarrow> char option" where
  "simple_escape ch =
     (if ch = dquote then Some dquote
      else if ch = bslash then Some bslash
      else if ch = CHR ''/'' then Some (CHR ''/'')
      else if ch = CHR ''n'' then Some (CHR 0x0A)
      else if ch = CHR ''r'' then Some (CHR 0x0D)
      else if ch = CHR ''t'' then Some (CHR 0x09)
      else if ch = CHR ''b'' then Some (CHR 0x08)
      else if ch = CHR ''f'' then Some (CHR 0x0C)
      else None)"

text \<open>
  The \<^verbatim>\<open>\u\<close> case: \<open>r\<close> is the text behind the \<^verbatim>\<open>u\<close>. The result is the code point to append and
  the number of bytes of \<open>r\<close> it takes; a surrogate that is not half of a pair becomes U+FFFD.
\<close>

definition unicode_escape :: "string \<Rightarrow> (nat \<times> nat) option" where
  "unicode_escape r =
     (case parse_hex_code_unit r 0 of
        None \<Rightarrow> None
      | Some code_unit \<Rightarrow>
          if is_high_surrogate code_unit then
            if 10 \<le> length r \<and> r ! 4 = bslash \<and> r ! 5 = CHR ''u'' then
              (case parse_hex_code_unit r 6 of
                 Some low \<Rightarrow>
                   if is_low_surrogate low then Some (push_bit 10 (code_unit - 0xD800) + (low - 0xDC00) + 0x10000, 10)
                   else Some (0xFFFD, 4)
               | None \<Rightarrow> Some (0xFFFD, 4))
            else Some (0xFFFD, 4)
          else if is_low_surrogate code_unit then Some (0xFFFD, 4)
          else Some (code_unit, 4))"

lemma unicode_escape_width: "unicode_escape r = Some (cp, n) \<Longrightarrow> 4 \<le> n \<and> n \<le> length r"
  by (auto simp: unicode_escape_def parse_hex_code_unit_def Let_def split: option.splits if_splits)

function parse_string_loop :: "bool \<Rightarrow> string \<Rightarrow> string \<Rightarrow> string option" where
  "parse_string_loop escaped result [] = None"
| "parse_string_loop escaped result (ch # r) =
     (if escaped then
        (case simple_escape ch of
           Some c \<Rightarrow> parse_string_loop False (result @ [c]) r
         | None \<Rightarrow>
             if ch = CHR ''u'' then
               (case unicode_escape r of
                  None \<Rightarrow> None
                | Some (cp, n) \<Rightarrow> parse_string_loop False (append_utf8 result cp) (drop n r))
             else None)
      else if ch = bslash then parse_string_loop True result r
      else if ch = dquote then Some result
      else parse_string_loop False (result @ [ch]) r)"
  by pat_completeness auto
termination
  by (relation "measure (\<lambda>(_, _, s). length s)") auto

definition parse_string_at :: "string \<Rightarrow> nat \<Rightarrow> string option" where
  "parse_string_at text start =
     (if start \<ge> length text \<or> text ! start \<noteq> dquote then None
      else parse_string_loop False [] (drop (start + 1) text))"

fun string_end_scan :: "bool \<Rightarrow> nat \<Rightarrow> string \<Rightarrow> nat option" where
  "string_end_scan escaped index [] = None"
| "string_end_scan escaped index (ch # r) =
     (if escaped then string_end_scan False (index + 1) r
      else if ch = bslash then string_end_scan True (index + 1) r
      else if ch = dquote then Some index
      else string_end_scan False (index + 1) r)"

definition string_literal_end :: "string \<Rightarrow> nat \<Rightarrow> nat option" where
  "string_literal_end text start =
     (if start \<ge> length text \<or> text ! start \<noteq> dquote then None
      else string_end_scan False (start + 1) (drop (start + 1) text))"

text \<open>
  The writer. \<open>hex_lower\<close> is an integer sent to a stream in \<^verbatim>\<open>std::hex\<close> mode, \<open>setw_fill\<close> the
  left padding of \<^verbatim>\<open>std::setw\<close> with \<^verbatim>\<open>std::setfill\<close>.
\<close>

fun hex_lower :: "nat \<Rightarrow> string" where
  "hex_lower n = (if n < 16 then [hex_digits ! n] else hex_lower (n div 16) @ [hex_digits ! (n mod 16)])"

declare hex_lower.simps [simp del]

definition setw_fill :: "nat \<Rightarrow> char \<Rightarrow> string \<Rightarrow> string" where
  "setw_fill w c s = replicate (w - length s) c @ s"

definition escape_byte :: "char \<Rightarrow> string" where
  "escape_byte ch =
     (if ch = dquote then [bslash, dquote]
      else if ch = bslash then [bslash, bslash]
      else if ch = CHR 0x0A then [bslash, CHR ''n'']
      else if ch = CHR 0x0D then [bslash, CHR ''r'']
      else if ch = CHR 0x09 then [bslash, CHR ''t'']
      else if ch = CHR 0x08 then [bslash, CHR ''b'']
      else if ch = CHR 0x0C then [bslash, CHR ''f'']
      else if byte ch < 0x20 then [bslash, CHR ''u''] @ setw_fill 4 (CHR ''0'') (hex_lower (byte ch))
      else [ch])"

function escape_from :: "string \<Rightarrow> nat \<Rightarrow> string" where
  "escape_from v index =
     (if index < length v then
        (case decode_utf8_scalar v index of
           None \<Rightarrow> utf8_replacement @ escape_from v (index + 1)
         | Some d \<Rightarrow>
             if scalar_length d \<noteq> 1 then take (scalar_length d) (drop index v) @ escape_from v (index + scalar_length d)
             else escape_byte (v ! index) @ escape_from v (index + 1))
      else [])"
  by pat_completeness auto
termination
  by (relation "measure (\<lambda>(v, index). length v - index)") (auto dest: decode_length_pos)

declare escape_from.simps [simp del]

definition escape :: "string \<Rightarrow> string" where
  "escape v = escape_from v 0"

section \<open>Scanners\<close>

text \<open>\<^verbatim>\<open>depth\<close> counts only the one bracket pair given; \<open>index\<close> is the position of the head of the suffix.\<close>

fun balanced_scan :: "char \<Rightarrow> char \<Rightarrow> bool \<Rightarrow> bool \<Rightarrow> nat \<Rightarrow> nat \<Rightarrow> string \<Rightarrow> nat option" where
  "balanced_scan open close in_string escaped depth index [] = None"
| "balanced_scan open close in_string escaped depth index (ch # r) =
     (if escaped then balanced_scan open close in_string False depth (index + 1) r
      else if ch = bslash \<and> in_string then balanced_scan open close in_string True depth (index + 1) r
      else if ch = dquote then balanced_scan open close (\<not> in_string) escaped depth (index + 1) r
      else if in_string then balanced_scan open close in_string escaped depth (index + 1) r
      else
        let depth' = (if ch = open then depth + 1 else depth) in
        if ch = close then
          if depth' = 0 then None
          else if depth' - 1 = 0 then Some (index + 1)
          else balanced_scan open close in_string escaped (depth' - 1) (index + 1) r
        else balanced_scan open close in_string escaped depth' (index + 1) r)"

definition balanced_end :: "string \<Rightarrow> nat \<Rightarrow> char \<Rightarrow> char \<Rightarrow> nat option" where
  "balanced_end text start open close =
     (if start \<ge> length text \<or> text ! start \<noteq> open then None
      else balanced_scan open close False False 0 start (drop start text))"

definition parse_balanced :: "string \<Rightarrow> nat \<Rightarrow> char \<Rightarrow> char \<Rightarrow> string option" where
  "parse_balanced text start open close =
     (case balanced_end text start open close of
        Some end_ \<Rightarrow> Some (take (end_ - start) (drop start text))
      | None \<Rightarrow> None)"

fun nesting_scan :: "nat \<Rightarrow> bool \<Rightarrow> bool \<Rightarrow> nat \<Rightarrow> string \<Rightarrow> bool" where
  "nesting_scan max_depth in_string escaped depth [] = True"
| "nesting_scan max_depth in_string escaped depth (ch # r) =
     (if in_string then
        if escaped then nesting_scan max_depth in_string False depth r
        else if ch = bslash then nesting_scan max_depth in_string True depth r
        else if ch = dquote then nesting_scan max_depth False escaped depth r
        else nesting_scan max_depth in_string escaped depth r
      else if ch = dquote then nesting_scan max_depth True escaped depth r
      else if ch = CHR ''{'' \<or> ch = CHR ''['' then
        if depth = max_depth then False else nesting_scan max_depth in_string escaped (depth + 1) r
      else if (ch = CHR ''}'' \<or> ch = CHR '']'') \<and> depth > 0 then
        nesting_scan max_depth in_string escaped (depth - 1) r
      else nesting_scan max_depth in_string escaped depth r)"

definition nesting_within_limit :: "string \<Rightarrow> nat \<Rightarrow> bool" where
  "nesting_within_limit v max_depth = nesting_scan max_depth False False 0 v"

fun compact_loop :: "bool \<Rightarrow> bool \<Rightarrow> string \<Rightarrow> string \<Rightarrow> string option" where
  "compact_loop in_string escaped result [] = Some result"
| "compact_loop in_string escaped result (ch # r) =
     (if in_string then
        if ch = CHR 0x0D \<or> ch = CHR 0x0A then None
        else if escaped then compact_loop in_string False (result @ [ch]) r
        else if ch = bslash then compact_loop in_string True (result @ [ch]) r
        else if ch = dquote then compact_loop False escaped (result @ [ch]) r
        else compact_loop in_string escaped (result @ [ch]) r
      else if ch = dquote then compact_loop True escaped (result @ [ch]) r
      else if ch \<noteq> CHR '' '' \<and> ch \<noteq> CHR 0x09 \<and> ch \<noteq> CHR 0x0D \<and> ch \<noteq> CHR 0x0A then
        compact_loop in_string escaped (result @ [ch]) r
      else compact_loop in_string escaped result r)"

definition compact :: "string \<Rightarrow> string option" where
  "compact v = compact_loop False False [] v"

section \<open>The walk of the writer\<close>

lemma decode_append_shift: "decode_utf8_scalar (w @ v) (length w + i) = decode_utf8_scalar v i"
proof (cases "i \<le> length v")
  case True
  then show ?thesis using decode_shift [of "length w + i" "w @ v"] decode_shift [of i v] by simp
qed (simp add: decode_utf8_scalar_def)

lemma escape_from_shift: "escape_from (w @ v) (length w + i) = escape_from v i"
proof (induction v i rule: escape_from.induct)
  case (1 v i)
  then show ?case
    using decode_length_pos [of v i]
    by (auto simp: escape_from.simps [of v i] escape_from.simps [of "w @ v" "length w + i"] decode_append_shift nth_append add.assoc
        split: option.splits)
qed

lemma replace_from_shift: "replace_invalid_utf8_from (w @ v) (length w + i) = replace_invalid_utf8_from v i"
proof (induction v i rule: replace_invalid_utf8_from.induct)
  case (1 v i)
  then show ?case
    by (auto simp: replace_invalid_utf8_from.simps [of v i] replace_invalid_utf8_from.simps [of "w @ v" "length w + i"]
        decode_append_shift add.assoc split: option.splits)
qed

lemma escape_from_drop: "n \<le> length s \<Longrightarrow> escape_from s n = escape (drop n s)"
  using escape_from_shift [of "take n s" "drop n s" 0] by (simp add: escape_def)

lemma replace_from_drop: "n \<le> length s \<Longrightarrow> replace_invalid_utf8_from s n = replace_invalid_utf8 (drop n s)"
  using replace_from_shift [of "take n s" "drop n s" 0] by (simp add: replace_invalid_utf8_def)

lemma escape_Nil [simp]: "escape [] = []"
  by (simp add: escape_def escape_from.simps)

lemma replace_Nil [simp]: "replace_invalid_utf8 [] = []"
  by (simp add: replace_invalid_utf8_def replace_invalid_utf8_from.simps)

lemma escape_invalid: "s \<noteq> [] \<Longrightarrow> decode_utf8_scalar s 0 = None \<Longrightarrow> escape s = utf8_replacement @ escape (tl s)"
  using escape_from_drop [of 1 s] by (cases s) (simp_all add: escape_def escape_from.simps [of s 0] escape_from.simps [of "_ # _" 0])

lemma escape_scalar: "decode_utf8_scalar s 0 = Some d \<Longrightarrow>
   escape s = (if scalar_length d \<noteq> 1 then take (scalar_length d) s else escape_byte (hd s)) @ escape (drop (scalar_length d) s)"
  using escape_from_drop [of "scalar_length d" s] decode_length_pos [of s 0 d]
  by (auto simp: escape_def escape_from.simps [of s 0] hd_conv_nth)

lemma replace_invalid: "s \<noteq> [] \<Longrightarrow> decode_utf8_scalar s 0 = None \<Longrightarrow> replace_invalid_utf8 s = utf8_replacement @ replace_invalid_utf8 (tl s)"
  using replace_from_drop [of 1 s] by (cases s) (simp_all add: replace_invalid_utf8_def replace_invalid_utf8_from.simps [of "_ # _" 0])

lemma replace_scalar: "decode_utf8_scalar s 0 = Some d \<Longrightarrow>
   replace_invalid_utf8 s = take (scalar_length d) s @ replace_invalid_utf8 (drop (scalar_length d) s)"
  using replace_from_drop [of "scalar_length d" s] decode_length_pos [of s 0 d]
  by (auto simp: replace_invalid_utf8_def replace_invalid_utf8_from.simps [of s 0])

text \<open>Induction over the decoder's walk: a repaired byte, an ASCII byte, or a wider scalar of high bytes.\<close>

lemma utf8_walk_induct [case_names Nil invalid ascii wide]:
  assumes "P []"
    and "\<And>c s. decode_utf8_scalar (c # s) 0 = None \<Longrightarrow> P s \<Longrightarrow> P (c # s)"
    and "\<And>c s. byte c < 128 \<Longrightarrow> P s \<Longrightarrow> P (c # s)"
    and "\<And>w d s. decode_utf8_scalar (w @ s) 0 = Some d \<Longrightarrow> scalar_length d = length w \<Longrightarrow> length w \<noteq> 1 \<Longrightarrow>
          (\<forall>c \<in> set w. 128 \<le> byte c) \<Longrightarrow> is_valid_utf8 w \<Longrightarrow> P s \<Longrightarrow> P (w @ s)"
  shows "P s"
proof (induction s rule: length_induct)
  case (1 s)
  show ?case
  proof (cases s)
    case (Cons c t)
    show ?thesis
    proof (cases "decode_utf8_scalar s 0")
      case None
      then show ?thesis using 1 Cons assms(2) by simp
    next
      case (Some d)
      define n where "n = scalar_length d"
      have n: "0 < n" "n \<le> length s" using decode_length_pos [OF Some] by (auto simp: n_def)
      show ?thesis
      proof (cases "n = 1")
        case True
        with Some have "byte c < 128"
          by (auto simp: Cons n_def elim: decode_SomeE)
        then show ?thesis using 1 Cons assms(3) by simp
      next
        case False
        have valid: "is_valid_utf8 (take n s)"
          using utf8.chunk_single [of s n] Some by (simp add: is_valid_utf8_chunked utf8_chunk_def n_def)
        have "P (take n s @ drop n s)"
        proof (rule assms(4))
          show "decode_utf8_scalar (take n s @ drop n s) 0 = Some d" using Some by simp
          show "\<forall>c \<in> set (take n s). 128 \<le> byte c"
            using decode_high_bytes [OF Some] False n_def by blast
          show "P (drop n s)" using 1 n by simp
        qed (use n False valid n_def in auto)
        then show ?thesis by simp
      qed
    qed
  qed (simp add: assms(1))
qed

lemma escape_ascii: "byte c < 128 \<Longrightarrow> escape (c # s) = escape_byte c @ escape s"
  using decode_1 [of c s] escape_scalar [of "c # s"] by simp

lemma escape_wide: "decode_utf8_scalar (w @ s) 0 = Some d \<Longrightarrow> scalar_length d = length w \<Longrightarrow> length w \<noteq> 1 \<Longrightarrow>
    escape (w @ s) = w @ escape s"
  using escape_scalar [of "w @ s" d] by simp

lemma replace_ascii: "byte c < 128 \<Longrightarrow> replace_invalid_utf8 (c # s) = c # replace_invalid_utf8 s"
  using decode_1 [of c s] replace_scalar [of "c # s"] by simp

lemma replace_wide: "decode_utf8_scalar (w @ s) 0 = Some d \<Longrightarrow> scalar_length d = length w \<Longrightarrow>
    replace_invalid_utf8 (w @ s) = w @ replace_invalid_utf8 s"
  using replace_scalar [of "w @ s" d] by simp

lemma escape_bad: "decode_utf8_scalar (c # s) 0 = None \<Longrightarrow> escape (c # s) = utf8_replacement @ escape s"
  using escape_invalid [of "c # s"] by simp

lemma replace_bad: "decode_utf8_scalar (c # s) 0 = None \<Longrightarrow> replace_invalid_utf8 (c # s) = utf8_replacement @ replace_invalid_utf8 s"
  using replace_invalid [of "c # s"] by simp

lemmas escape_walk = escape_bad escape_ascii escape_wide
lemmas replace_walk = replace_bad replace_ascii replace_wide

section \<open>The grammar of string literals\<close>

definition escape_letters :: string where
  "escape_letters = [dquote, bslash] @ ''/bfnrt''"

inductive jchars :: "string \<Rightarrow> bool" where
  jchars_Nil: "jchars []"
| jchars_plain: "0x20 \<le> byte c \<Longrightarrow> c \<noteq> dquote \<Longrightarrow> c \<noteq> bslash \<Longrightarrow> jchars r \<Longrightarrow> jchars (c # r)"
| jchars_escape: "c \<in> set escape_letters \<Longrightarrow> jchars r \<Longrightarrow> jchars (bslash # c # r)"
| jchars_unicode: "length h = 4 \<Longrightarrow> list_all is_json_hex_digit h \<Longrightarrow> jchars r \<Longrightarrow> jchars (bslash # CHR ''u'' # h @ r)"

definition jstring :: "string \<Rightarrow> bool" where
  "jstring t \<longleftrightarrow> (\<exists>b. t = dquote # b @ [dquote] \<and> jchars b)"

lemma jchars_append: "jchars a \<Longrightarrow> jchars b \<Longrightarrow> jchars (a @ b)"
  by (induction rule: jchars.induct) (auto intro: jchars.intros)

lemma jchars_high: "\<forall>c \<in> set w. 128 \<le> byte c \<Longrightarrow> jchars w"
  by (induction w) (auto intro!: jchars.intros)

section \<open>Hexadecimal escapes\<close>

lemma hex_digits_value: "k < 16 \<Longrightarrow> hex_value (hex_digits ! k) = int k"
proof -
  have "\<forall>k \<in> set [0..<16]. hex_value (hex_digits ! k) = int k"
    by code_simp
  then show "k < 16 \<Longrightarrow> hex_value (hex_digits ! k) = int k" by simp
qed

lemma hex_digits_hex: "k < 16 \<Longrightarrow> is_json_hex_digit (hex_digits ! k)"
proof -
  have "\<forall>k \<in> set [0..<16]. is_json_hex_digit (hex_digits ! k)"
    by code_simp
  then show "k < 16 \<Longrightarrow> is_json_hex_digit (hex_digits ! k)" by simp
qed

lemma hex_digits_0 [simp]: "hex_digits ! 0 = CHR ''0''"
  by (simp add: hex_digits_def)

lemma control_hex:
  assumes "n < 32"
  shows "setw_fill 4 (CHR ''0'') (hex_lower n) = [CHR ''0'', CHR ''0'', hex_digits ! (n div 16), hex_digits ! (n mod 16)]"
proof (cases "n < 16")
  case True
  then show ?thesis by (simp add: hex_lower.simps [of n] setw_fill_def numeral_3_eq_3)
next
  case False
  with assms have "n div 16 < 16" by simp
  then have "hex_lower (n div 16) = [hex_digits ! (n div 16)]" by (simp add: hex_lower.simps [of "n div 16"])
  with False show ?thesis by (simp add: hex_lower.simps [of n] setw_fill_def numeral_2_eq_2)
qed

lemma hex_value_0 [simp]: "hex_value (CHR ''0'') = 0"
  using hex_digits_value [of 0] by simp

lemma control_hex_parse:
  assumes "n < 32"
  shows "parse_hex_code_unit (setw_fill 4 (CHR ''0'') (hex_lower n) @ r) 0 = Some n"
proof -
  have d: "n div 16 < 16" "n mod 16 < 16" using assms by auto
  have "push_bit 4 (n div 16) OR n mod 16 = n"
    using push_or_add [of "n mod 16" 4 "n div 16"] by simp
  with d show ?thesis
    by (simp add: parse_hex_code_unit_def control_hex [OF assms] hex_digits_value numeral_2_eq_2 numeral_3_eq_3 Let_def)
qed

section \<open>The writer emits literals\<close>

lemma escape_byte_cases [case_names short control plain]:
  obtains e where "e \<in> set escape_letters" "escape_byte c = [bslash, e]" "simple_escape e = Some c"
  | "byte c < 0x20" "escape_byte c = [bslash, CHR ''u''] @ setw_fill 4 (CHR ''0'') (hex_lower (byte c))"
  | "escape_byte c = [c]" "0x20 \<le> byte c" "c \<noteq> bslash" "c \<noteq> dquote"
proof -
  consider "c \<in> {dquote, bslash, CHR 0x0A, CHR 0x0D, CHR 0x09, CHR 0x08, CHR 0x0C}"
    | "c \<notin> {dquote, bslash, CHR 0x0A, CHR 0x0D, CHR 0x09, CHR 0x08, CHR 0x0C}" by blast
  then show thesis
  proof cases
    case 1
    then have "\<exists>e. e \<in> set escape_letters \<and> escape_byte c = [bslash, e] \<and> simple_escape e = Some c"
      by (auto simp: escape_letters_def escape_byte_def simple_escape_def)
    then show thesis using that(1) by blast
  next
    case 2
    then show thesis using that(2,3) by (cases "byte c < 0x20") (simp_all add: escape_byte_def)
  qed
qed

lemma escape_byte_chars: "jchars (escape_byte c)"
proof (cases c rule: escape_byte_cases)
  case control
  then show ?thesis
    using jchars_unicode [of "setw_fill 4 (CHR ''0'') (hex_lower (byte c))" "[]"] hex_digits_hex [of 0]
    by (simp add: control_hex hex_digits_hex jchars_Nil)
qed (simp_all add: jchars_escape jchars_plain jchars_Nil)

lemma replacement_high: "c \<in> set utf8_replacement \<Longrightarrow> 128 \<le> byte c"
  by (auto simp: utf8_replacement_def)

lemma escape_jchars: "jchars (escape s)"
proof (induction s rule: utf8_walk_induct)
  case (invalid c s)
  then show ?case
    by (simp add: escape_walk jchars_append jchars_high replacement_high)
qed (auto simp: escape_walk jchars_append jchars_high escape_byte_chars intro: jchars_Nil)

lemma escape_byte_ascii: "byte c < 128 \<Longrightarrow> x \<in> set (escape_byte c) \<Longrightarrow> byte x < 128"
proof -
  assume a: "byte c < 128" "x \<in> set (escape_byte c)"
  have h: "byte (hex_digits ! k) < 128" if "k < 16" for k
  proof -
    have "\<forall>k \<in> set [0..<16]. byte (hex_digits ! k) < 128" by code_simp
    with that show ?thesis by simp
  qed
  show ?thesis using a h [of "byte c div 16"] h [of "byte c mod 16"]
    by (auto simp: escape_byte_def control_hex split: if_splits)
qed

lemma escape_valid_utf8: "is_valid_utf8 (escape s)"
proof (induction s rule: utf8_walk_induct)
  case (ascii c s)
  then show ?case
    using escape_byte_ascii by (simp add: escape_walk valid_utf8_append valid_utf8_ascii)
qed (auto simp: escape_walk valid_utf8_append valid_utf8_replacement)

section \<open>The decoder inverts the writer\<close>

lemma parse_loop_plain:
  "(\<And>c. c \<in> set w \<Longrightarrow> c \<noteq> bslash \<and> c \<noteq> dquote) \<Longrightarrow>
   parse_string_loop False acc (w @ r) = parse_string_loop False (acc @ w) r"
  by (induction w arbitrary: acc) auto

lemma parse_loop_high:
  "\<forall>c \<in> set w. 128 \<le> byte c \<Longrightarrow> parse_string_loop False acc (w @ r) = parse_string_loop False (acc @ w) r"
  by (rule parse_loop_plain) force

lemma append_utf8_ascii: "n < 128 \<Longrightarrow> append_utf8 out n = out @ [char_of n]"
  by (simp add: append_utf8_def)

lemma unicode_escape_control:
  "n < 32 \<Longrightarrow> unicode_escape (setw_fill 4 (CHR ''0'') (hex_lower n) @ r) = Some (n, 4)"
  by (simp add: unicode_escape_def control_hex_parse is_high_surrogate_def is_low_surrogate_def)

lemma parse_loop_escape_byte:
  "parse_string_loop False acc (escape_byte c @ r) = parse_string_loop False (acc @ [c]) r"
proof (cases c rule: escape_byte_cases)
  case control
  have "length (setw_fill 4 (CHR ''0'') (hex_lower (byte c))) = 4"
    using control(1) by (simp add: control_hex)
  then show ?thesis
    using control by (simp add: unicode_escape_control append_utf8_ascii simple_escape_def)
qed simp_all

lemma parse_loop_escape:
  "parse_string_loop False acc (escape s @ dquote # r) = Some (acc @ replace_invalid_utf8 s)"
proof (induction s arbitrary: acc rule: utf8_walk_induct)
  case (invalid c s)
  then show ?case by (simp add: escape_walk replace_walk parse_loop_high replacement_high)
next
  case (ascii c s)
  then show ?case by (simp add: escape_walk replace_walk parse_loop_escape_byte)
next
  case (wide w d s)
  then show ?case by (simp add: escape_walk replace_walk parse_loop_high)
qed simp

lemma parse_string_at_escape:
  "parse_string_at (u @ dquote # escape s @ dquote # r) (length u) = Some (replace_invalid_utf8 s)"
  by (simp add: parse_string_at_def parse_loop_escape)

section \<open>String-aware scanners\<close>

locale string_aware =
  fixes scan :: "bool \<Rightarrow> bool \<Rightarrow> 'd \<Rightarrow> nat \<Rightarrow> string \<Rightarrow> 'r"
  assumes escaped_step: "scan True True d i (c # r) = scan True False d (i + 1) r"
    and bslash_step: "scan True False d i (bslash # r) = scan True True d (i + 1) r"
    and close_step: "scan True False d i (dquote # r) = scan False False d (i + 1) r"
    and plain_step: "c \<noteq> bslash \<Longrightarrow> c \<noteq> dquote \<Longrightarrow> scan True False d i (c # r) = scan True False d (i + 1) r"
begin

lemma hex_digit_plain: "is_json_hex_digit c \<Longrightarrow> c \<noteq> bslash \<and> c \<noteq> dquote"
  by (auto simp: is_json_hex_digit_def)

lemma skip_plain:
  "(\<forall>c \<in> set w. c \<noteq> bslash \<and> c \<noteq> dquote) \<Longrightarrow> scan True False d i (w @ r) = scan True False d (i + length w) r"
  by (induction w arbitrary: i) (auto simp: plain_step)

lemma skip_chars: "jchars b \<Longrightarrow> scan True False d i (b @ r) = scan True False d (i + length b) r"
proof (induction arbitrary: i rule: jchars.induct)
  case (jchars_unicode h t)
  then have "scan True False d (i + 2) (h @ t @ r) = scan True False d (i + 2 + length h) (t @ r)"
    by (intro skip_plain) (auto simp: list_all_iff hex_digit_plain)
  with jchars_unicode show ?case by (simp add: bslash_step escaped_step add.left_commute add.commute)
qed (simp_all add: plain_step bslash_step escaped_step)

lemma skip_body: "jchars b \<Longrightarrow> scan True False d i (b @ dquote # r) = scan False False d (i + length b + 1) r"
  by (simp add: skip_chars close_step)

end

locale string_skipper = string_aware +
  assumes open_step: "scan False False d i (dquote # r) = scan True False d (i + 1) r"
begin

lemma skip_literal: "jstring t \<Longrightarrow> scan False False d i (t @ r) = scan False False d (i + length t) r"
  by (auto simp: jstring_def open_step skip_body add.assoc)

end

interpretation balanced: string_skipper "balanced_scan op cl" for op cl
  by unfold_locales simp_all

interpretation nesting: string_skipper "\<lambda>in_string escaped depth (i::nat) s. nesting_scan m in_string escaped depth s" for m
  by unfold_locales simp_all

interpretation literal_end: string_aware "\<lambda>in_string escaped (d::unit) i s. if in_string then string_end_scan escaped i s else Some (i - 1)"
  by unfold_locales simp_all

lemma string_literal_end_literal:
  "jstring t \<Longrightarrow> string_literal_end (u @ t @ r) (length u) = Some (length u + length t - 1)"
  using literal_end.skip_body
  by (auto simp: jstring_def string_literal_end_def split: if_splits)

text \<open>
  C31: a string written by the escaper between quotes is a literal of the JSON grammar and valid
  UTF-8, wherever it stands in a text, and reading it back gives the string with its invalid
  bytes replaced; so a valid UTF-8 string is read back unchanged.
\<close>

theorem json_escape_roundtrip:
  "jstring (dquote # escape s @ [dquote]) \<and> is_valid_utf8 (escape s) \<and>
   parse_string_at (u @ dquote # escape s @ dquote # r) (length u) = Some (replace_invalid_utf8 s)"
  using escape_jchars escape_valid_utf8 parse_string_at_escape by (auto simp: jstring_def)

end
