(* ===== verification/Json_Validator.thy ===== *)
theory Json_Validator
  imports Json_Lex
begin

text \<open>
  The recursive-descent \<^verbatim>\<open>JsonValidator\<close> of \<^verbatim>\<open>core/json.cpp\<close> and the JSON grammar it decides.

  The cursor \<^verbatim>\<open>offset_\<close> is the remaining suffix: a parsing step that succeeds returns the rest,
  \<open>None\<close> is \<^verbatim>\<open>false\<close>. The mutually recursive methods take fuel; every call takes one unit, and
  between two passes through \<^verbatim>\<open>parse_value\<close> at least one byte is consumed, so three units per
  byte and three to start are enough, which the completeness lemmas confirm.

  The grammar (RFC 8259) is the inductive relation \<open>jtext\<close> between a tree and its texts. The
  tree keeps the raw literal of every scalar and of every member name, in order and with
  duplicates, because the field lookups of the program work on the raw text.
\<close>

section \<open>The validator\<close>

definition skip_ws :: "string \<Rightarrow> string" where
  "skip_ws s = dropWhile is_json_whitespace s"

definition consume :: "char \<Rightarrow> string \<Rightarrow> string option" where
  "consume expected s = (case s of [] \<Rightarrow> None | c # r \<Rightarrow> if c \<noteq> expected then None else Some r)"

definition consume_literal :: "string \<Rightarrow> string \<Rightarrow> string option" where
  "consume_literal literal s = (if take (length literal) s \<noteq> literal then None else Some (drop (length literal) s))"

fun consume_hex_digits :: "nat \<Rightarrow> string \<Rightarrow> string option" where
  "consume_hex_digits 0 s = Some s"
| "consume_hex_digits (Suc n) s =
     (case s of [] \<Rightarrow> None | c # r \<Rightarrow> if \<not> is_json_hex_digit c then None else consume_hex_digits n r)"

lemma consume_hex_digits_split:
  "consume_hex_digits n s = Some r \<longleftrightarrow> (\<exists>h. s = h @ r \<and> length h = n \<and> list_all is_json_hex_digit h)"
proof (induction n arbitrary: s)
  case (Suc n)
  then show ?case
    by (cases s) (auto simp: length_Suc_conv Cons_eq_append_conv)
qed auto

function parse_string_body :: "string \<Rightarrow> string option" where
  "parse_string_body [] = None"
| "parse_string_body (ch # r) =
     (if byte ch < 0x20 then None
      else if ch = dquote then Some r
      else if ch \<noteq> bslash then parse_string_body r
      else (case r of
              [] \<Rightarrow> None
            | escaped # r2 \<Rightarrow>
                if escaped = dquote \<or> escaped = bslash \<or> escaped = CHR ''/'' \<or> escaped = CHR ''b'' \<or> escaped = CHR ''f''
                   \<or> escaped = CHR ''n'' \<or> escaped = CHR ''r'' \<or> escaped = CHR ''t''
                then parse_string_body r2
                else if escaped \<noteq> CHR ''u'' then None
                else (case consume_hex_digits 4 r2 of None \<Rightarrow> None | Some r3 \<Rightarrow> parse_string_body r3)))"
  by pat_completeness auto
termination
  by (relation "measure length") (auto simp: consume_hex_digits_split)

definition parse_string :: "string \<Rightarrow> string option" where
  "parse_string s = Option.bind (consume dquote s) parse_string_body"

definition parse_digits :: "string \<Rightarrow> string option" where
  "parse_digits s = (if s = [] \<or> \<not> isdigit (hd s) then None else Some (dropWhile isdigit s))"

definition parse_exponent :: "string \<Rightarrow> string option" where
  "parse_exponent s =
     (if s \<noteq> [] \<and> (hd s = CHR ''e'' \<or> hd s = CHR ''E'') then
        let r = tl s;
            r = (if r \<noteq> [] \<and> (hd r = CHR ''+'' \<or> hd r = CHR ''-'') then tl r else r)
        in parse_digits r
      else Some s)"

definition parse_fraction :: "string \<Rightarrow> string option" where
  "parse_fraction s =
     (case consume (CHR ''.'') s of
        Some r \<Rightarrow> Option.bind (parse_digits r) parse_exponent
      | None \<Rightarrow> parse_exponent s)"

definition parse_integer :: "string \<Rightarrow> string option" where
  "parse_integer s =
     (case consume (CHR ''0'') s of
        Some r \<Rightarrow> if r \<noteq> [] \<and> isdigit (hd r) then None else parse_fraction r
      | None \<Rightarrow> Option.bind (parse_digits s) parse_fraction)"

definition parse_number :: "string \<Rightarrow> string option" where
  "parse_number s =
     (case consume (CHR ''-'') s of
        Some r \<Rightarrow> if r = [] then None else parse_integer r
      | None \<Rightarrow> parse_integer s)"

fun parse_value :: "nat \<Rightarrow> string \<Rightarrow> string option"
and parse_object :: "nat \<Rightarrow> string \<Rightarrow> string option"
and parse_members :: "nat \<Rightarrow> string \<Rightarrow> string option"
and parse_array :: "nat \<Rightarrow> string \<Rightarrow> string option"
and parse_elements :: "nat \<Rightarrow> string \<Rightarrow> string option" where
  "parse_value 0 s = None"
| "parse_value (Suc n) s =
     (case skip_ws s of
        [] \<Rightarrow> None
      | ch # r \<Rightarrow>
          if ch = dquote then parse_string (ch # r)
          else if ch = CHR ''{'' then parse_object n (ch # r)
          else if ch = CHR ''['' then parse_array n (ch # r)
          else if ch = CHR ''t'' then consume_literal ''true'' (ch # r)
          else if ch = CHR ''f'' then consume_literal ''false'' (ch # r)
          else if ch = CHR ''n'' then consume_literal ''null'' (ch # r)
          else if ch = CHR ''-'' \<or> isdigit ch then parse_number (ch # r)
          else None)"
| "parse_object 0 s = None"
| "parse_object (Suc n) s =
     (case consume (CHR ''{'') s of
        None \<Rightarrow> None
      | Some r \<Rightarrow> (case consume (CHR ''}'') (skip_ws r) of
                    Some r2 \<Rightarrow> Some r2
                  | None \<Rightarrow> parse_members n (skip_ws r)))"
| "parse_members 0 s = None"
| "parse_members (Suc n) s =
     (case parse_string (skip_ws s) of
        None \<Rightarrow> None
      | Some r \<Rightarrow> (case consume (CHR '':'') (skip_ws r) of
          None \<Rightarrow> None
        | Some r2 \<Rightarrow> (case parse_value n r2 of
            None \<Rightarrow> None
          | Some r3 \<Rightarrow> (case consume (CHR ''}'') (skip_ws r3) of
              Some r4 \<Rightarrow> Some r4
            | None \<Rightarrow> (case consume (CHR '','') (skip_ws r3) of
                None \<Rightarrow> None
              | Some r4 \<Rightarrow> parse_members n r4)))))"
| "parse_array 0 s = None"
| "parse_array (Suc n) s =
     (case consume (CHR ''['') s of
        None \<Rightarrow> None
      | Some r \<Rightarrow> (case consume (CHR '']'') (skip_ws r) of
                    Some r2 \<Rightarrow> Some r2
                  | None \<Rightarrow> parse_elements n (skip_ws r)))"
| "parse_elements 0 s = None"
| "parse_elements (Suc n) s =
     (case parse_value n s of
        None \<Rightarrow> None
      | Some r \<Rightarrow> (case consume (CHR '']'') (skip_ws r) of
          Some r2 \<Rightarrow> Some r2
        | None \<Rightarrow> (case consume (CHR '','') (skip_ws r) of
            None \<Rightarrow> None
          | Some r2 \<Rightarrow> parse_elements n r2)))"

definition json_fuel :: "string \<Rightarrow> nat" where
  "json_fuel s = 3 * length s + 3"

definition valid_object :: "string \<Rightarrow> nat \<Rightarrow> bool" where
  "valid_object v max_depth =
     (if \<not> is_valid_utf8 v then False
      else if \<not> nesting_within_limit v max_depth then False
      else (case parse_object (json_fuel v) (skip_ws v) of
              None \<Rightarrow> False
            | Some r \<Rightarrow> skip_ws r = []))"

definition valid_array :: "string \<Rightarrow> nat \<Rightarrow> bool" where
  "valid_array v max_depth =
     (if \<not> is_valid_utf8 v \<or> \<not> nesting_within_limit v max_depth then False
      else (case parse_array (json_fuel v) (skip_ws v) of
              None \<Rightarrow> False
            | Some r \<Rightarrow> skip_ws r = []))"

definition kMaxNestingDepth :: nat where
  "kMaxNestingDepth = 64"

definition is_valid_object :: "string \<Rightarrow> bool" where
  "is_valid_object v = valid_object v kMaxNestingDepth"

definition is_valid_object_with_max_depth :: "string \<Rightarrow> nat \<Rightarrow> bool" where
  "is_valid_object_with_max_depth v max_depth \<longleftrightarrow> max_depth > 0 \<and> max_depth \<le> 128 \<and> valid_object v max_depth"

section \<open>The grammar\<close>

definition jws :: "string \<Rightarrow> bool" where
  "jws w \<longleftrightarrow> list_all is_json_whitespace w"

definition jdigits :: "string \<Rightarrow> bool" where
  "jdigits s \<longleftrightarrow> s \<noteq> [] \<and> list_all isdigit s"

definition jint :: "string \<Rightarrow> bool" where
  "jint s \<longleftrightarrow> s = ''0'' \<or> (jdigits s \<and> hd s \<noteq> CHR ''0'')"

definition jfrac :: "string \<Rightarrow> bool" where
  "jfrac s \<longleftrightarrow> s = [] \<or> (\<exists>d. s = CHR ''.'' # d \<and> jdigits d)"

definition jexp :: "string \<Rightarrow> bool" where
  "jexp s \<longleftrightarrow> s = [] \<or> (\<exists>e sgn d. s = e # sgn @ d \<and> e \<in> {CHR ''e'', CHR ''E''} \<and> sgn \<in> {[], ''+'', ''-''} \<and> jdigits d)"

definition jnumber :: "string \<Rightarrow> bool" where
  "jnumber s \<longleftrightarrow> (\<exists>sgn i f e. s = sgn @ i @ f @ e \<and> sgn \<in> {[], ''-''} \<and> jint i \<and> jfrac f \<and> jexp e)"

definition jscalar :: "string \<Rightarrow> bool" where
  "jscalar t \<longleftrightarrow> jstring t \<or> jnumber t \<or> t \<in> {''true'', ''false'', ''null''}"

datatype json = JScalar string | JObj "(string \<times> json) list" | JArr "json list"

inductive jtext :: "json \<Rightarrow> string \<Rightarrow> bool"
  and jmember :: "string \<times> json \<Rightarrow> string \<Rightarrow> bool"
  and jmembers :: "(string \<times> json) list \<Rightarrow> string \<Rightarrow> bool"
  and jelement :: "json \<Rightarrow> string \<Rightarrow> bool"
  and jelements :: "json list \<Rightarrow> string \<Rightarrow> bool" where
  jtext_scalar: "jscalar t \<Longrightarrow> jtext (JScalar t) t"
| jtext_obj0: "jws w \<Longrightarrow> jtext (JObj []) (CHR ''{'' # w @ ''}'')"
| jtext_obj: "jmembers kvs m \<Longrightarrow> jtext (JObj kvs) (CHR ''{'' # m @ ''}'')"
| jtext_arr0: "jws w \<Longrightarrow> jtext (JArr []) (CHR ''['' # w @ '']'')"
| jtext_arr: "jelements js m \<Longrightarrow> jtext (JArr js) (CHR ''['' # m @ '']'')"
| jmember: "jws w1 \<Longrightarrow> jstring k \<Longrightarrow> jws w2 \<Longrightarrow> jelement j e \<Longrightarrow> jmember (k, j) (w1 @ k @ w2 @ CHR '':'' # e)"
| jmembers_one: "jmember kv s \<Longrightarrow> jmembers [kv] s"
| jmembers_more: "jmember kv s \<Longrightarrow> jmembers kvs m \<Longrightarrow> jmembers (kv # kvs) (s @ CHR '','' # m)"
| jelement: "jws w1 \<Longrightarrow> jtext j v \<Longrightarrow> jws w2 \<Longrightarrow> jelement j (w1 @ v @ w2)"
| jelements_one: "jelement j s \<Longrightarrow> jelements [j] s"
| jelements_more: "jelement j s \<Longrightarrow> jelements js m \<Longrightarrow> jelements (j # js) (s @ CHR '','' # m)"

fun jdepth :: "json \<Rightarrow> nat" where
  "jdepth (JScalar t) = 0"
| "jdepth (JObj kvs) = Suc (fold max (map (\<lambda>kv. jdepth (snd kv)) kvs) 0)"
| "jdepth (JArr js) = Suc (fold max (map jdepth js) 0)"

section \<open>Lexemes\<close>

lemma skip_ws_append [simp]: "jws w \<Longrightarrow> skip_ws (w @ r) = skip_ws r"
  by (simp add: skip_ws_def jws_def list_all_iff)

lemma skip_ws_stop: "r = [] \<or> \<not> is_json_whitespace (hd r) \<Longrightarrow> skip_ws r = r"
  by (cases r) (auto simp: skip_ws_def)

lemma skip_ws_Cons [simp]: "\<not> is_json_whitespace c \<Longrightarrow> skip_ws (c # r) = c # r"
  by (simp add: skip_ws_def)

lemma skip_ws_all: "skip_ws w = [] \<longleftrightarrow> jws w"
  by (simp add: skip_ws_def jws_def list_all_iff)

lemma skip_wsE:
  obtains w where "jws w" "s = w @ skip_ws s"
  using dropWhile_split [of is_json_whitespace s] by (auto simp: jws_def skip_ws_def list_all_iff)

lemma skip_ws_idem [simp]: "skip_ws (skip_ws s) = skip_ws s"
  by (metis skip_wsE skip_ws_append)

lemma jws_Nil [simp]: "jws []"
  by (simp add: jws_def)

lemma jws_append [simp]: "jws (a @ b) \<longleftrightarrow> jws a \<and> jws b"
  by (simp add: jws_def)

lemma consume_iff [simp]: "consume c s = Some r \<longleftrightarrow> s = c # r"
  by (auto simp: consume_def split: list.splits)

lemma consume_Cons [simp]: "consume c (d # r) = (if d = c then Some r else None)"
  by (simp add: consume_def)

lemma consume_None: "consume c s = None \<longleftrightarrow> s = [] \<or> hd s \<noteq> c"
  by (auto simp: consume_def split: list.splits)

lemma consume_literal_iff: "consume_literal l s = Some r \<longleftrightarrow> s = l @ r"
  by (auto simp: consume_literal_def) (metis append_take_drop_id)

lemma jchars_body: "jchars b \<Longrightarrow> parse_string_body (b @ dquote # r) = Some r"
proof (induction rule: jchars.induct)
  case (jchars_escape c t)
  then show ?case by (auto simp: escape_letters_def)
next
  case (jchars_unicode h t)
  then have "consume_hex_digits 4 (h @ t @ dquote # r) = Some (t @ dquote # r)"
    by (auto simp: consume_hex_digits_split)
  with jchars_unicode show ?case by simp
qed auto

lemma parse_string_body_jchars: "parse_string_body s = Some r \<Longrightarrow> \<exists>b. s = b @ dquote # r \<and> jchars b"
proof (induction s rule: parse_string_body.induct)
  case (2 ch s)
  consider "ch = dquote" | "ch \<noteq> dquote" "ch \<noteq> bslash" "0x20 \<le> byte ch" "parse_string_body s = Some r"
    | c t where "ch = bslash" "s = c # t" "c \<in> set escape_letters" "parse_string_body t = Some r"
    | t h u where "ch = bslash" "s = CHR ''u'' # t" "t = h @ u" "length h = 4" "list_all is_json_hex_digit h"
        "consume_hex_digits 4 t = Some u" "parse_string_body u = Some r"
    using 2(4) by (auto simp: escape_letters_def consume_hex_digits_split split: if_splits list.splits option.splits)
  then show ?case
  proof cases
    case 1
    with 2(4) have "s = r" by (simp split: if_splits)
    with 1 show ?thesis using jchars_Nil by force
  next
    case two: 2
    then obtain b where "s = b @ dquote # r" "jchars b" using 2(1) by auto
    with two show ?thesis by (intro exI [where x = "ch # b"]) (auto intro: jchars_plain)
  next
    case (3 c t)
    then obtain b where "t = b @ dquote # r" "jchars b"
      using 2(2) [OF _ _ _ \<open>s = c # t\<close>] by (auto simp: escape_letters_def)
    with 3 show ?thesis by (intro exI [where x = "bslash # c # b"]) (auto intro: jchars_escape)
  next
    case (4 t h u)
    then obtain b where "u = b @ dquote # r" "jchars b"
      using 2(3) [OF _ _ _ \<open>s = CHR ''u'' # t\<close>] by auto
    with 4 show ?thesis by (intro exI [where x = "bslash # CHR ''u'' # h @ b"]) (auto intro: jchars_unicode)
  qed
qed simp

lemma parse_string_iff: "parse_string s = Some r \<longleftrightarrow> (\<exists>t. jstring t \<and> s = t @ r)"
  using jchars_body parse_string_body_jchars
  by (fastforce simp: parse_string_def jstring_def)

definition digit_stop :: "string \<Rightarrow> bool" where
  "digit_stop r \<longleftrightarrow> r = [] \<or> \<not> isdigit (hd r)"

definition number_stop :: "string \<Rightarrow> bool" where
  "number_stop r \<longleftrightarrow> r = [] \<or> \<not> isdigit (hd r) \<and> hd r \<notin> {CHR ''.'', CHR ''e'', CHR ''E''}"

lemma number_stop_digit: "number_stop r \<Longrightarrow> digit_stop r"
  by (auto simp: number_stop_def digit_stop_def)

lemma parse_digits_complete: "jdigits d \<Longrightarrow> digit_stop r \<Longrightarrow> parse_digits (d @ r) = Some r"
  by (cases d) (auto simp: parse_digits_def jdigits_def digit_stop_def list_all_iff dropWhile_append_all dropWhile_stop)

lemma parse_digits_sound: "parse_digits s = Some r \<Longrightarrow> \<exists>d. s = d @ r \<and> jdigits d"
  using takeWhile_dropWhile_id [of isdigit s]
  by (cases s) (auto simp: parse_digits_def jdigits_def list_all_iff dest: set_takeWhileD split: if_splits
      intro!: exI [where x = "takeWhile isdigit s"])

lemma isdigit_simps [simp]:
  "\<not> isdigit (CHR ''.'')" "\<not> isdigit (CHR ''e'')" "\<not> isdigit (CHR ''E'')" "\<not> isdigit (CHR ''+'')" "\<not> isdigit (CHR ''-'')"
  "isdigit (CHR ''0'')" "\<not> isdigit dquote" "\<not> isdigit (CHR ''{'')" "\<not> isdigit (CHR ''['')" "\<not> isdigit (CHR ''}'')"
  "\<not> isdigit (CHR '']'')" "\<not> isdigit (CHR '','')" "\<not> isdigit (CHR ''t'')" "\<not> isdigit (CHR ''f'')" "\<not> isdigit (CHR ''n'')"
  "\<not> isdigit (CHR '' '')" "\<not> isdigit (CHR 0x09)" "\<not> isdigit (CHR 0x0A)" "\<not> isdigit (CHR 0x0D)"
  by (simp_all add: isdigit_def)

lemma jdigits_hd: "jdigits d \<Longrightarrow> d \<noteq> [] \<and> isdigit (hd d)"
  by (cases d) (auto simp: jdigits_def)

lemma parse_exponent_complete: "jexp e \<Longrightarrow> number_stop r \<Longrightarrow> parse_exponent (e @ r) = Some r"
proof -
  assume e: "jexp e" and r: "number_stop r"
  have digits: "parse_digits (d @ r) = Some r \<and> d \<noteq> [] \<and> hd d \<noteq> CHR ''+'' \<and> hd d \<noteq> CHR ''-''" if "jdigits d" for d
    using parse_digits_complete [OF that number_stop_digit [OF r]] jdigits_hd [OF that] by auto
  from e consider "e = []" | x sgn d where "e = x # sgn @ d" "x \<in> {CHR ''e'', CHR ''E''}" "sgn \<in> {[], ''+'', ''-''}" "jdigits d"
    by (auto simp: jexp_def)
  then show ?thesis
    by cases (use r digits in \<open>auto simp: parse_exponent_def number_stop_def Let_def\<close>)
qed

lemma parse_exponent_sound: "parse_exponent s = Some r \<Longrightarrow> \<exists>e. s = e @ r \<and> jexp e"
proof -
  assume a: "parse_exponent s = Some r"
  show ?thesis
  proof (cases "s \<noteq> [] \<and> hd s \<in> {CHR ''e'', CHR ''E''}")
    case True
    define sgn where "sgn = (if tl s \<noteq> [] \<and> hd (tl s) \<in> {CHR ''+'', CHR ''-''} then [hd (tl s)] else [])"
    define t where "t = drop (length sgn) (tl s)"
    have s: "s = hd s # sgn @ t" "sgn \<in> {[], ''+'', ''-''}"
      using True by (auto simp: sgn_def t_def drop_Suc)
    have "parse_digits t = Some r"
      using a True by (auto simp: parse_exponent_def t_def sgn_def drop_Suc Let_def split: if_splits)
    then obtain d where "t = d @ r" "jdigits d" using parse_digits_sound by blast
    with s True show ?thesis
      by (intro exI [where x = "hd s # sgn @ d"]) (auto simp: jexp_def)
  next
    case False
    with a have "s = r" by (auto simp: parse_exponent_def split: if_splits)
    then show ?thesis by (simp add: jexp_def)
  qed
qed

lemma jexp_hd: "jexp e \<Longrightarrow> number_stop r \<Longrightarrow> e @ r = [] \<or> \<not> isdigit (hd (e @ r)) \<and> hd (e @ r) \<noteq> CHR ''.''"
  by (auto simp: jexp_def number_stop_def)

lemma parse_fraction_complete: "jfrac f \<Longrightarrow> jexp e \<Longrightarrow> number_stop r \<Longrightarrow> parse_fraction (f @ e @ r) = Some r"
proof -
  assume f: "jfrac f" and e: "jexp e" and r: "number_stop r"
  show ?thesis
  proof (cases "f = []")
    case True
    have "consume (CHR ''.'') (e @ r) = None"
      using jexp_hd [OF e r] by (auto simp: consume_None)
    then show ?thesis using True parse_exponent_complete [OF e r] by (simp add: parse_fraction_def)
  next
    case False
    with f obtain d where d: "f = CHR ''.'' # d" "jdigits d" by (auto simp: jfrac_def)
    then have "parse_digits (d @ e @ r) = Some (e @ r)"
      using jexp_hd [OF e r] by (intro parse_digits_complete) (auto simp: digit_stop_def)
    with d parse_exponent_complete [OF e r] show ?thesis by (simp add: parse_fraction_def consume_Cons)
  qed
qed

lemma parse_fraction_sound: "parse_fraction s = Some r \<Longrightarrow> \<exists>f e. s = f @ e @ r \<and> jfrac f \<and> jexp e"
proof (cases "consume (CHR ''.'') s")
  case None
  assume "parse_fraction s = Some r"
  with None have "parse_exponent s = Some r" by (simp add: parse_fraction_def)
  then obtain e where "s = e @ r" "jexp e" using parse_exponent_sound by blast
  then show ?thesis by (intro exI [where x = "[]"] exI [where x = e]) (simp add: jfrac_def)
next
  case (Some t)
  assume "parse_fraction s = Some r"
  with Some obtain u where "parse_digits t = Some u" "parse_exponent u = Some r" by (auto simp: parse_fraction_def)
  then obtain d e where "t = d @ u" "jdigits d" "u = e @ r" "jexp e"
    using parse_digits_sound parse_exponent_sound by blast
  with Some show ?thesis
    by (intro exI [where x = "CHR ''.'' # d"] exI [where x = e]) (simp add: jfrac_def)
qed

lemma frac_exp_hd: "jfrac f \<Longrightarrow> jexp e \<Longrightarrow> number_stop r \<Longrightarrow> digit_stop (f @ e @ r)"
  using jexp_hd [of e r] by (cases f) (auto simp: jfrac_def digit_stop_def)

lemma parse_integer_complete:
  assumes "jint i" "jfrac f" "jexp e" "number_stop r"
  shows "parse_integer (i @ f @ e @ r) = Some r"
proof (cases "i = ''0''")
  case True
  with frac_exp_hd [OF assms(2-4)] parse_fraction_complete [OF assms(2-4)] show ?thesis
    by (auto simp: parse_integer_def consume_Cons digit_stop_def)
next
  case False
  with assms(1) have i: "jdigits i" "hd i \<noteq> CHR ''0''" "i \<noteq> []" by (auto simp: jint_def jdigits_def)
  then have "consume (CHR ''0'') (i @ f @ e @ r) = None" by (simp add: consume_None)
  then show ?thesis
    using parse_digits_complete [OF i(1) frac_exp_hd [OF assms(2-4)]] parse_fraction_complete [OF assms(2-4)]
    by (simp add: parse_integer_def)
qed

lemma parse_integer_sound: "parse_integer s = Some r \<Longrightarrow> \<exists>i f e. s = i @ f @ e @ r \<and> jint i \<and> jfrac f \<and> jexp e"
proof (cases "consume (CHR ''0'') s")
  case None
  assume "parse_integer s = Some r"
  with None obtain u where "parse_digits s = Some u" "parse_fraction u = Some r" by (auto simp: parse_integer_def)
  then obtain d f e where d: "s = d @ u" "jdigits d" "u = f @ e @ r" "jfrac f" "jexp e"
    using parse_digits_sound [of s u] parse_fraction_sound [of u r] by auto
  moreover have "hd d \<noteq> CHR ''0''" using None d(1) jdigits_hd [OF d(2)] by (auto simp: consume_None)
  ultimately show ?thesis by (intro exI [where x = d] exI [where x = f] exI [where x = e]) (simp add: jint_def)
next
  case (Some t)
  assume "parse_integer s = Some r"
  with Some have "parse_fraction t = Some r" by (auto simp: parse_integer_def split: if_splits)
  then obtain f e where "t = f @ e @ r" "jfrac f" "jexp e" using parse_fraction_sound by blast
  with Some show ?thesis
    by (intro exI [where x = "''0''"] exI [where x = f] exI [where x = e]) (simp add: jint_def)
qed

lemma jint_hd: "jint i \<Longrightarrow> i \<noteq> [] \<and> isdigit (hd i)"
  by (auto simp: jint_def dest: jdigits_hd)

lemma parse_number_complete: "jnumber s \<Longrightarrow> number_stop r \<Longrightarrow> parse_number (s @ r) = Some r"
proof -
  assume "jnumber s" and r: "number_stop r"
  then obtain sgn i f e where s: "s = sgn @ i @ f @ e" "sgn \<in> {[], ''-''}" "jint i" "jfrac f" "jexp e"
    by (auto simp: jnumber_def)
  have i: "i \<noteq> []" "hd i \<noteq> CHR ''-''" using jint_hd [OF s(3)] by auto
  have "parse_integer (i @ f @ e @ r) = Some r" by (rule parse_integer_complete [OF s(3-5) r])
  moreover have "consume (CHR ''-'') (i @ f @ e @ r) = None" using i by (simp add: consume_None)
  ultimately show ?thesis using s(1,2) i by (auto simp: parse_number_def)
qed

lemma parse_number_sound: "parse_number s = Some r \<Longrightarrow> \<exists>t. s = t @ r \<and> jnumber t"
proof -
  assume a: "parse_number s = Some r"
  obtain sgn u where s: "s = sgn @ u" "sgn \<in> {[], ''-''}" "parse_integer u = Some r"
  proof (cases "consume (CHR ''-'') s")
    case None
    with a that [of "[]" s] show thesis by (simp add: parse_number_def)
  next
    case (Some u)
    with a that [of "''-''" u] show thesis by (simp add: parse_number_def split: if_splits)
  qed
  then obtain i f e where "u = i @ f @ e @ r" "jint i" "jfrac f" "jexp e" using parse_integer_sound by blast
  with s(1,2) have "s = (sgn @ i @ f @ e) @ r" "jnumber (sgn @ i @ f @ e)" unfolding jnumber_def by (simp, blast)
  then show ?thesis by blast
qed

section \<open>The parser accepts every text of the grammar\<close>

lemma jws_simps [simp]:
  "\<not> is_json_whitespace dquote" "\<not> is_json_whitespace (CHR ''{'')" "\<not> is_json_whitespace (CHR ''}'')"
  "\<not> is_json_whitespace (CHR ''['')" "\<not> is_json_whitespace (CHR '']'')" "\<not> is_json_whitespace (CHR '','')"
  "\<not> is_json_whitespace (CHR '':'')" "\<not> is_json_whitespace (CHR ''-'')" "\<not> is_json_whitespace (CHR ''t'')"
  "\<not> is_json_whitespace (CHR ''f'')" "\<not> is_json_whitespace (CHR ''n'')"
  by (simp_all add: is_json_whitespace_def)

lemma isdigit_not_ws: "isdigit c \<Longrightarrow> \<not> is_json_whitespace c"
  by (auto simp: is_json_whitespace_def)

lemma jws_number_stop: "jws w \<Longrightarrow> number_stop r \<Longrightarrow> number_stop (w @ r)"
  by (cases w) (auto simp: jws_def number_stop_def is_json_whitespace_def)

lemma jstring_hd: "jstring t \<Longrightarrow> \<exists>u. t = dquote # u"
  by (auto simp: jstring_def)

lemma jnumber_hd: "jnumber t \<Longrightarrow> \<exists>c u. t = c # u \<and> (c = CHR ''-'' \<or> isdigit c)"
  using jint_hd by (fastforce simp: jnumber_def neq_Nil_conv)

definition value_head :: "char \<Rightarrow> bool" where
  "value_head c \<longleftrightarrow> c \<in> set (dquote # ''{[tfn-'') \<or> isdigit c"

lemma value_head_facts: "value_head c \<Longrightarrow> \<not> is_json_whitespace c \<and> c \<noteq> CHR '']'' \<and> c \<noteq> CHR ''}'' \<and> c \<noteq> CHR '',''"
  by (auto simp: value_head_def isdigit_not_ws)

lemma jscalar_hd: "jscalar t \<Longrightarrow> \<exists>c u. t = c # u \<and> value_head c"
  by (auto simp: jscalar_def value_head_def dest: jstring_hd jnumber_hd)

lemma jtext_hd: "jtext j v \<Longrightarrow> \<exists>c u. v = c # u \<and> value_head c"
  by (cases rule: jtext.cases) (auto simp: value_head_def dest: jscalar_hd)

lemma jmember_skip: "jmember kv s \<Longrightarrow> \<exists>t. skip_ws (s @ r) = dquote # t"
  by (cases rule: jmember.cases) (auto dest: jstring_hd)

lemma jmembers_skip: "jmembers kvs m \<Longrightarrow> \<exists>t. skip_ws (m @ r) = dquote # t"
  by (cases rule: jmembers.cases) (auto intro: jmember_skip)

lemma jelement_skip: "jelement j s \<Longrightarrow> \<exists>c t. skip_ws (s @ r) = c # t \<and> value_head c"
  by (cases rule: jelement.cases) (auto dest!: jtext_hd simp: value_head_facts)

lemma jelements_skip: "jelements js m \<Longrightarrow> \<exists>c t. skip_ws (m @ r) = c # t \<and> value_head c"
  by (cases rule: jelements.cases) (use jelement_skip in fastforce)+

lemma parse_value_skip [simp]: "parse_value n (skip_ws s) = parse_value n s"
  by (cases n) simp_all

lemma parse_members_skip [simp]: "parse_members n (skip_ws s) = parse_members n s"
  by (cases n) simp_all

lemma parse_elements_skip [simp]: "parse_elements n (skip_ws s) = parse_elements n s"
  by (cases n) simp_all

lemma parse_value_scalar:
  assumes "jscalar t" "number_stop r" "jws w"
  shows "parse_value (Suc n) (w @ t @ r) = Some r"
proof -
  from assms(1) consider "jstring t" | "jnumber t" | "t \<in> {''true'', ''false'', ''null''}" by (auto simp: jscalar_def)
  then show ?thesis
  proof cases
    case 1
    then obtain u where "t = dquote # u" using jstring_hd by blast
    with 1 assms(3) show ?thesis using parse_string_iff [of "t @ r" r] by auto
  next
    case 2
    then obtain c u where t: "t = c # u" "c = CHR ''-'' \<or> isdigit c" using jnumber_hd by blast
    then have c: "\<not> is_json_whitespace c" "c \<noteq> dquote" "c \<noteq> CHR ''{''" "c \<noteq> CHR ''[''" "c \<noteq> CHR ''t''"
      "c \<noteq> CHR ''f''" "c \<noteq> CHR ''n''" by (auto simp: isdigit_not_ws)
    have "parse_number (c # u @ r) = Some r" using parse_number_complete [OF 2 assms(2)] t(1) by simp
    then show ?thesis using c t assms(3) by simp
  next
    case 3
    with assms(3) show ?thesis using consume_literal_iff [of t "t @ r" r] by auto
  qed
qed

lemma parse_value_open:
  "jws w \<Longrightarrow> parse_value (Suc n) (w @ CHR ''{'' # r) = parse_object n (CHR ''{'' # r)"
  "jws w \<Longrightarrow> parse_value (Suc n) (w @ CHR ''['' # r) = parse_array n (CHR ''['' # r)"
  by simp_all

lemma parse_object_members:
  "jmembers kvs m \<Longrightarrow> parse_object (Suc n) (CHR ''{'' # m @ r) = parse_members n (m @ r)"
  using jmembers_skip [of kvs m r] parse_members_skip [of n "m @ r"]
  by (auto simp: consume_None simp del: parse_members_skip split: option.splits)

lemma parse_array_elements:
  "jelements js m \<Longrightarrow> parse_array (Suc n) (CHR ''['' # m @ r) = parse_elements n (m @ r)"
  using jelements_skip [of js m r] value_head_facts [of "CHR '']''"] parse_elements_skip [of n "m @ r"]
  by (auto simp: consume_None simp del: parse_elements_skip split: option.splits)

lemma parse_member_step:
  assumes "jws w1" "jstring k" "jws w2" "parse_value n (e @ c # r) = Some r'" "skip_ws r' = c # r" "c \<in> {CHR '','', CHR ''}''}"
  shows "parse_members (Suc n) (w1 @ k @ w2 @ CHR '':'' # e @ c # r) = (if c = CHR ''}'' then Some r else parse_members n r)"
proof -
  obtain u where u: "k = dquote # u" using jstring_hd [OF assms(2)] by blast
  have "parse_string (k @ w2 @ CHR '':'' # e @ c # r) = Some (w2 @ CHR '':'' # e @ c # r)"
    using assms(2) parse_string_iff by blast
  with u assms show ?thesis by auto
qed

lemma number_stop_sep [simp]: "c \<in> {CHR '','', CHR ''}'', CHR '']''} \<Longrightarrow> number_stop (c # r)"
  by (auto simp: number_stop_def)

text \<open>What acceptance means for each nonterminal: with enough fuel the rest comes back.\<close>

definition value_ok :: "string \<Rightarrow> bool" where
  "value_ok v \<longleftrightarrow> (\<forall>n w r. jws w \<longrightarrow> number_stop r \<longrightarrow> 3 * length v + 1 \<le> n \<longrightarrow> parse_value n (w @ v @ r) = Some r)"

definition member_ok :: "string \<Rightarrow> bool" where
  "member_ok s \<longleftrightarrow> (\<forall>n c r. c \<in> {CHR '','', CHR ''}''} \<longrightarrow> 3 * length s \<le> n \<longrightarrow>
     parse_members (Suc n) (s @ c # r) = (if c = CHR ''}'' then Some r else parse_members n r))"

definition members_ok :: "string \<Rightarrow> bool" where
  "members_ok m \<longleftrightarrow> (\<forall>n r. 3 * length m + 1 \<le> n \<longrightarrow> parse_members n (m @ CHR ''}'' # r) = Some r)"

definition element_ok :: "string \<Rightarrow> bool" where
  "element_ok e \<longleftrightarrow> (\<forall>n r. number_stop r \<longrightarrow> 3 * length e + 1 \<le> n \<longrightarrow> (\<exists>w. parse_value n (e @ r) = Some (w @ r) \<and> jws w))"

definition elements_ok :: "string \<Rightarrow> bool" where
  "elements_ok m \<longleftrightarrow> (\<forall>n r. 3 * length m + 2 \<le> n \<longrightarrow> parse_elements n (m @ CHR '']'' # r) = Some r)"

lemma value_okI:
  "(\<And>n w r. jws w \<Longrightarrow> number_stop r \<Longrightarrow> 3 * length v \<le> n \<Longrightarrow> parse_value (Suc n) (w @ v @ r) = Some r) \<Longrightarrow> value_ok v"
  unfolding value_ok_def by (metis Suc_eq_plus1 Suc_le_D Suc_le_mono)

lemma container_okI:
  assumes "\<And>n r. 3 * length v - 1 \<le> n \<Longrightarrow> parse_object (Suc n) (CHR ''{'' # v @ r) = Some r"
  shows "value_ok (CHR ''{'' # v)"
proof (rule value_okI)
  fix n w r assume "jws w" "3 * length (CHR ''{'' # v) \<le> n"
  then show "parse_value (Suc n) (w @ (CHR ''{'' # v) @ r) = Some r"
    using assms [of "n - 1" r] by (cases n) (simp_all add: parse_value_open del: parse_value.simps parse_object.simps)
qed

lemma array_okI:
  assumes "\<And>n r. 3 * length v - 1 \<le> n \<Longrightarrow> parse_array (Suc n) (CHR ''['' # v @ r) = Some r"
  shows "value_ok (CHR ''['' # v)"
proof (rule value_okI)
  fix n w r assume "jws w" "3 * length (CHR ''['' # v) \<le> n"
  then show "parse_value (Suc n) (w @ (CHR ''['' # v) @ r) = Some r"
    using assms [of "n - 1" r] by (cases n) (simp_all add: parse_value_open del: parse_value.simps parse_array.simps)
qed

lemma empty_ok:
  assumes "jws w"
  shows "value_ok (CHR ''{'' # w @ ''}'')" "value_ok (CHR ''['' # w @ '']'')"
  using assms by (auto intro!: container_okI array_okI)

lemma object_ok: "jmembers kvs m \<Longrightarrow> members_ok m \<Longrightarrow> value_ok (CHR ''{'' # m @ ''}'')"
  by (rule container_okI) (simp add: parse_object_members members_ok_def del: parse_object.simps)

lemma array_ok: "jelements js m \<Longrightarrow> elements_ok m \<Longrightarrow> value_ok (CHR ''['' # m @ '']'')"
  by (rule array_okI) (simp add: parse_array_elements elements_ok_def del: parse_array.simps)

lemma jmember_ok:
  assumes "jws w1" "jstring k" "jws w2" "element_ok e"
  shows "member_ok (w1 @ k @ w2 @ CHR '':'' # e)"
  unfolding member_ok_def
proof (intro allI impI)
  fix n c r assume a: "c \<in> {CHR '','', CHR ''}''}" "3 * length (w1 @ k @ w2 @ CHR '':'' # e) \<le> n"
  then obtain w where w: "parse_value n (e @ c # r) = Some (w @ c # r)" "jws w"
    using assms(4) [unfolded element_ok_def, rule_format, of "c # r" n] by auto
  then show "parse_members (Suc n) ((w1 @ k @ w2 @ CHR '':'' # e) @ c # r) = (if c = CHR ''}'' then Some r else parse_members n r)"
    using parse_member_step [OF assms(1-3) w(1)] a(1) by auto
qed

lemma members_okI:
  "(\<And>n r. 3 * length m \<le> n \<Longrightarrow> parse_members (Suc n) (m @ CHR ''}'' # r) = Some r) \<Longrightarrow> members_ok m"
  unfolding members_ok_def by (metis Suc_eq_plus1 Suc_le_D Suc_le_mono)

lemma members_one_ok: "member_ok s \<Longrightarrow> members_ok s"
  by (rule members_okI) (simp add: member_ok_def)

lemma members_more_ok: "member_ok s \<Longrightarrow> members_ok m \<Longrightarrow> members_ok (s @ CHR '','' # m)"
  by (rule members_okI) (simp add: member_ok_def members_ok_def del: parse_members.simps)

lemma jelement_ok:
  assumes "jws w1" "value_ok v" "jws w2"
  shows "element_ok (w1 @ v @ w2)"
  unfolding element_ok_def
proof (intro allI impI)
  fix n r assume "number_stop r" "3 * length (w1 @ v @ w2) + 1 \<le> n"
  then have "parse_value n (w1 @ v @ w2 @ r) = Some (w2 @ r)"
    using assms by (intro assms(2) [unfolded value_ok_def, rule_format]) (auto intro: jws_number_stop)
  with assms(3) show "\<exists>w. parse_value n ((w1 @ v @ w2) @ r) = Some (w @ r) \<and> jws w" by auto
qed

lemma elements_okI:
  "(\<And>n r. 3 * length m + 1 \<le> n \<Longrightarrow> parse_elements (Suc n) (m @ CHR '']'' # r) = Some r) \<Longrightarrow> elements_ok m"
  unfolding elements_ok_def by (metis Suc_eq_plus1 Suc_le_D Suc_le_mono add_2_eq_Suc')

lemma element_okE:
  assumes "element_ok e" "3 * length e + 1 \<le> n" "c \<in> {CHR '','', CHR '']''}"
  obtains w where "parse_value n (e @ c # r) = Some (w @ c # r)" "jws w"
  using assms(1) [unfolded element_ok_def, rule_format, of "c # r" n] assms(2,3) by auto

lemma elements_one_ok: "element_ok s \<Longrightarrow> elements_ok s"
proof (rule elements_okI)
  fix n r assume "element_ok s" "3 * length s + 1 \<le> n"
  then obtain w where "parse_value n (s @ CHR '']'' # r) = Some (w @ CHR '']'' # r)" "jws w"
    by (rule element_okE [where c = "CHR '']''"]) auto
  then show "parse_elements (Suc n) (s @ CHR '']'' # r) = Some r" by simp
qed

lemma elements_more_ok: "element_ok s \<Longrightarrow> elements_ok m \<Longrightarrow> elements_ok (s @ CHR '','' # m)"
proof (rule elements_okI)
  fix n r assume a: "element_ok s" "elements_ok m" and n: "3 * length (s @ CHR '','' # m) + 1 \<le> n"
  then have "3 * length s + 1 \<le> n" by simp
  with a(1) obtain w where w: "parse_value n (s @ CHR '','' # m @ CHR '']'' # r) = Some (w @ CHR '','' # m @ CHR '']'' # r)" "jws w"
    by (rule element_okE [where c = "CHR '',''"]) auto
  have "parse_elements n (m @ CHR '']'' # r) = Some r" using a(2) n by (simp add: elements_ok_def)
  with w show "parse_elements (Suc n) ((s @ CHR '','' # m) @ CHR '']'' # r) = Some r" by simp
qed

lemma scalar_ok: "jscalar t \<Longrightarrow> value_ok t"
  by (rule value_okI) (rule parse_value_scalar)

lemma grammar_complete:
  "jtext j v \<Longrightarrow> value_ok v"
  "jmember kv s \<Longrightarrow> member_ok s"
  "jmembers kvs m \<Longrightarrow> members_ok m"
  "jelement j e \<Longrightarrow> element_ok e"
  "jelements js m \<Longrightarrow> elements_ok m"
  by (induction rule: jtext_jmember_jmembers_jelement_jelements.inducts)
    (blast intro: scalar_ok empty_ok object_ok array_ok jmember_ok members_one_ok members_more_ok
      jelement_ok elements_one_ok elements_more_ok)+

section \<open>The parser accepts nothing else\<close>

definition value_sound :: "nat \<Rightarrow> bool" where
  "value_sound n \<longleftrightarrow> (\<forall>s r. parse_value n s = Some r \<longrightarrow> (\<exists>w v j. s = w @ v @ r \<and> jws w \<and> jtext j v))"

definition object_sound :: "nat \<Rightarrow> bool" where
  "object_sound n \<longleftrightarrow> (\<forall>s r. parse_object n s = Some r \<longrightarrow> (\<exists>v kvs. s = v @ r \<and> jtext (JObj kvs) v))"

definition members_sound :: "nat \<Rightarrow> bool" where
  "members_sound n \<longleftrightarrow> (\<forall>s r. parse_members n s = Some r \<longrightarrow> (\<exists>m kvs. s = m @ CHR ''}'' # r \<and> jmembers kvs m))"

definition array_sound :: "nat \<Rightarrow> bool" where
  "array_sound n \<longleftrightarrow> (\<forall>s r. parse_array n s = Some r \<longrightarrow> (\<exists>v js. s = v @ r \<and> jtext (JArr js) v))"

definition elements_sound :: "nat \<Rightarrow> bool" where
  "elements_sound n \<longleftrightarrow> (\<forall>s r. parse_elements n s = Some r \<longrightarrow> (\<exists>m js. s = m @ CHR '']'' # r \<and> jelements js m))"

lemmas sound_defs = value_sound_def object_sound_def members_sound_def array_sound_def elements_sound_def

lemma skip_ws_eqE:
  assumes "skip_ws s = r"
  obtains w where "jws w" "s = w @ r"
  using assms skip_wsE by metis

lemma value_sound_step:
  assumes "object_sound n" "array_sound n" shows "value_sound (Suc n)"
  unfolding value_sound_def
proof (intro allI impI)
  fix s r assume a: "parse_value (Suc n) s = Some r"
  obtain w where w: "jws w" "s = w @ skip_ws s" by (rule skip_wsE)
  have "\<exists>v j. skip_ws s = v @ r \<and> jtext j v"
  proof (cases "skip_ws s")
    case (Cons c t)
    consider "parse_string (c # t) = Some r" | "parse_object n (c # t) = Some r" | "parse_array n (c # t) = Some r"
      | l where "l \<in> {''true'', ''false'', ''null''}" "consume_literal l (c # t) = Some r" | "parse_number (c # t) = Some r"
      using a Cons by (auto split: if_splits)
    then show ?thesis
    proof cases
      case 1
      then show ?thesis unfolding Cons parse_string_iff by (metis jscalar_def jtext_scalar)
    next
      case 4
      then show ?thesis unfolding Cons consume_literal_iff by (metis jscalar_def jtext_scalar)
    next
      case 5
      then show ?thesis using parse_number_sound unfolding Cons by (metis jscalar_def jtext_scalar)
    next
      case 2
      with assms(1) show ?thesis unfolding Cons sound_defs by blast
    next
      case 3
      with assms(2) show ?thesis unfolding Cons sound_defs by blast
    qed
  qed (use a in simp)
  with w show "\<exists>w v j. s = w @ v @ r \<and> jws w \<and> jtext j v" by metis
qed

lemma object_sound_step:
  assumes "members_sound n" shows "object_sound (Suc n)"
  unfolding object_sound_def
proof (intro allI impI)
  fix s r assume a: "parse_object (Suc n) s = Some r"
  then obtain t where s: "s = CHR ''{'' # t" by (cases "consume (CHR ''{'') s") auto
  obtain w where w: "jws w" "t = w @ skip_ws t" by (rule skip_wsE)
  show "\<exists>v kvs. s = v @ r \<and> jtext (JObj kvs) v"
  proof (cases "consume (CHR ''}'') (skip_ws t)")
    case None
    with a s have "parse_members n t = Some r" by simp
    with assms obtain m kvs where "t = m @ CHR ''}'' # r" "jmembers kvs m" unfolding sound_defs by blast
    with s show ?thesis by (intro exI [where x = "CHR ''{'' # m @ ''}''"] exI [where x = kvs]) (auto intro: jtext_obj)
  next
    case (Some u)
    with a s w have "s = (CHR ''{'' # w @ ''}'') @ r" by simp
    with w(1) show ?thesis by (metis jtext_obj0)
  qed
qed

lemma array_sound_step:
  assumes "elements_sound n" shows "array_sound (Suc n)"
  unfolding array_sound_def
proof (intro allI impI)
  fix s r assume a: "parse_array (Suc n) s = Some r"
  then obtain t where s: "s = CHR ''['' # t" by (cases "consume (CHR ''['') s") auto
  obtain w where w: "jws w" "t = w @ skip_ws t" by (rule skip_wsE)
  show "\<exists>v js. s = v @ r \<and> jtext (JArr js) v"
  proof (cases "consume (CHR '']'') (skip_ws t)")
    case None
    with a s have "parse_elements n t = Some r" by simp
    with assms obtain m js where "t = m @ CHR '']'' # r" "jelements js m" unfolding sound_defs by blast
    with s show ?thesis by (intro exI [where x = "CHR ''['' # m @ '']''"] exI [where x = js]) (auto intro: jtext_arr)
  next
    case (Some u)
    with a s w have "s = (CHR ''['' # w @ '']'') @ r" by simp
    with w(1) show ?thesis by (metis jtext_arr0)
  qed
qed

lemma elements_sound_step:
  assumes "value_sound n" "elements_sound n" shows "elements_sound (Suc n)"
  unfolding elements_sound_def
proof (intro allI impI)
  fix s r assume a: "parse_elements (Suc n) s = Some r"
  then obtain t where t: "parse_value n s = Some t" by (cases "parse_value n s") auto
  with assms(1) obtain w1 v j where v: "s = w1 @ v @ t" "jws w1" "jtext j v" unfolding sound_defs by blast
  obtain w2 where w2: "jws w2" "t = w2 @ skip_ws t" by (rule skip_wsE)
  have e: "jelement j (w1 @ v @ w2)" using v w2(1) by (intro jelement)
  show "\<exists>m js. s = m @ CHR '']'' # r \<and> jelements js m"
  proof (cases "consume (CHR '']'') (skip_ws t)")
    case None
    with a t obtain u where u: "skip_ws t = CHR '','' # u" "parse_elements n u = Some r"
      by (cases "consume (CHR '','') (skip_ws t)") auto
    with assms(2) obtain m js where "u = m @ CHR '']'' # r" "jelements js m" unfolding sound_defs by blast
    with v(1) w2 u(1) e show ?thesis
      by (intro exI [where x = "(w1 @ v @ w2) @ CHR '','' # m"] exI [where x = "j # js"]) (auto intro: jelements_more simp flip: append_assoc)
  next
    case (Some u)
    with a t have "skip_ws t = CHR '']'' # r" by simp
    with v(1) w2 e show ?thesis
      by (intro exI [where x = "w1 @ v @ w2"] exI [where x = "[j]"]) (auto intro: jelements_one)
  qed
qed

lemma members_sound_step:
  assumes "value_sound n" "members_sound n" shows "members_sound (Suc n)"
  unfolding members_sound_def
proof (intro allI impI)
  fix s r assume a: "parse_members (Suc n) s = Some r"
  then obtain t1 t2 t3 where t: "parse_string (skip_ws s) = Some t1" "skip_ws t1 = CHR '':'' # t2" "parse_value n t2 = Some t3"
    by (auto split: option.splits)
  obtain w0 where w0: "jws w0" "s = w0 @ skip_ws s" by (rule skip_wsE)
  obtain k where k: "jstring k" "skip_ws s = k @ t1" using t(1) by (auto simp: parse_string_iff)
  obtain w1 where w1: "jws w1" "t1 = w1 @ CHR '':'' # t2" using t(2) by (rule skip_ws_eqE)
  from t(3) assms(1) obtain w2 v j where v: "t2 = w2 @ v @ t3" "jws w2" "jtext j v" unfolding sound_defs by blast
  obtain w3 where w3: "jws w3" "t3 = w3 @ skip_ws t3" by (rule skip_wsE)
  define q where "q = w0 @ k @ w1 @ CHR '':'' # w2 @ v @ w3"
  have q: "jmember (k, j) q" unfolding q_def using w0 k w1 v w3 by (intro jmember jelement)
  have s: "s = q @ skip_ws t3" using w0 k w1 v w3 by (simp add: q_def)
  show "\<exists>m kvs. s = m @ CHR ''}'' # r \<and> jmembers kvs m"
  proof (cases "consume (CHR ''}'') (skip_ws t3)")
    case None
    with a t obtain u where u: "skip_ws t3 = CHR '','' # u" "parse_members n u = Some r"
      by (cases "consume (CHR '','') (skip_ws t3)") auto
    with assms(2) obtain m kvs where m: "u = m @ CHR ''}'' # r" "jmembers kvs m" unfolding sound_defs by blast
    with s u(1) have "s = (q @ CHR '','' # m) @ CHR ''}'' # r" by simp
    with jmembers_more [OF q m(2)] show ?thesis by blast
  next
    case (Some u)
    with a t have "skip_ws t3 = CHR ''}'' # r" by simp
    with s jmembers_one [OF q] show ?thesis by auto
  qed
qed

lemma grammar_sound:
  "value_sound n \<and> object_sound n \<and> members_sound n \<and> array_sound n \<and> elements_sound n"
proof (induction n)
  case (Suc n)
  then show ?case
    using value_sound_step object_sound_step members_sound_step array_sound_step elements_sound_step by blast
qed (simp add: sound_defs)

section \<open>The nesting limit is the depth of the tree\<close>

definition plain_char :: "char \<Rightarrow> bool" where
  "plain_char c \<longleftrightarrow> c \<notin> set (dquote # ''{}[]'')"

lemma nesting_plain: "list_all plain_char t \<Longrightarrow> nesting_scan m False False d (t @ r) = nesting_scan m False False d r"
  by (induction t) (auto simp: plain_char_def)

lemma jws_plain: "jws w \<Longrightarrow> list_all plain_char w"
  by (induction w) (auto simp: jws_def is_json_whitespace_def plain_char_def)

lemma isdigit_plain: "isdigit c \<Longrightarrow> plain_char c"
  by (auto simp: plain_char_def)

lemma jdigits_plain: "jdigits d \<Longrightarrow> list_all plain_char d"
  unfolding jdigits_def using isdigit_plain by (auto simp: list_all_iff)

lemma jnumber_plain: "jnumber t \<Longrightarrow> list_all plain_char t"
proof -
  have "list_all plain_char ''0''" "list_all plain_char ''+''" "list_all plain_char ''-''"
    "plain_char (CHR ''.'')" "plain_char (CHR ''e'')" "plain_char (CHR ''E'')"
    by (simp_all add: plain_char_def)
  then show "jnumber t \<Longrightarrow> list_all plain_char t"
    by (auto simp: jnumber_def jint_def jfrac_def jexp_def jdigits_plain)
qed

lemma jscalar_literal: "jscalar t \<Longrightarrow> jstring t \<or> list_all plain_char t"
  using jnumber_plain by (auto simp: jscalar_def plain_char_def)

lemma nesting_jstring [simp]: "jstring t \<Longrightarrow> nesting_scan m False False d (t @ r) = nesting_scan m False False d r"
  by (rule nesting.skip_literal)

lemma nesting_scalar: "jscalar t \<Longrightarrow> nesting_scan m False False d (t @ r) = nesting_scan m False False d r"
  using jscalar_literal [of t] nesting_plain nesting_jstring by blast

lemma fold_max_le: "fold max xs a \<le> (b::nat) \<longleftrightarrow> a \<le> b \<and> (\<forall>x \<in> set xs. x \<le> b)"
  by (induction xs arbitrary: a) auto

lemma nesting_open:
  "c \<in> {CHR ''{'', CHR ''[''} \<Longrightarrow> nesting_scan m False False d (c # r) = (d \<noteq> m \<and> nesting_scan m False False (Suc d) r)"
  "c \<in> {CHR ''}'', CHR '']''} \<Longrightarrow> nesting_scan m False False (Suc d) (c # r) = nesting_scan m False False d r"
  "c \<in> {CHR '','', CHR '':''} \<Longrightarrow> nesting_scan m False False d (c # r) = nesting_scan m False False d r"
  by auto

lemma nesting_jws [simp]: "jws w \<Longrightarrow> nesting_scan m False False d (w @ r) = nesting_scan m False False d r"
  by (simp add: nesting_plain jws_plain)

lemma nesting_depth:
  "jtext j v \<Longrightarrow> d \<le> m \<Longrightarrow> nesting_scan m False False d (v @ r) = (d + jdepth j \<le> m \<and> nesting_scan m False False d r)"
  "jmember kv s \<Longrightarrow> d \<le> m \<Longrightarrow> nesting_scan m False False d (s @ r) = (d + jdepth (snd kv) \<le> m \<and> nesting_scan m False False d r)"
  "jmembers kvs s \<Longrightarrow> d \<le> m \<Longrightarrow> nesting_scan m False False d (s @ r) = ((\<forall>kv \<in> set kvs. d + jdepth (snd kv) \<le> m) \<and> nesting_scan m False False d r)"
  "jelement j s \<Longrightarrow> d \<le> m \<Longrightarrow> nesting_scan m False False d (s @ r) = (d + jdepth j \<le> m \<and> nesting_scan m False False d r)"
  "jelements js s \<Longrightarrow> d \<le> m \<Longrightarrow> nesting_scan m False False d (s @ r) = ((\<forall>j \<in> set js. d + jdepth j \<le> m) \<and> nesting_scan m False False d r)"
proof (induction arbitrary: d r and d r and d r and d r and d r rule: jtext_jmember_jmembers_jelement_jelements.inducts)
  case (jtext_scalar t)
  then show ?case by (simp add: nesting_scalar)
next
  case (jtext_obj0 w)
  then show ?case by (auto simp: nesting_open simp del: nesting_scan.simps)
next
  case (jtext_arr0 w)
  then show ?case by (auto simp: nesting_open simp del: nesting_scan.simps)
next
  case (jtext_obj kvs s)
  have "d + Suc (fold max (map (\<lambda>kv. jdepth (snd kv)) kvs) 0) \<le> m \<longleftrightarrow> Suc d \<le> m \<and> (\<forall>kv \<in> set kvs. Suc d + jdepth (snd kv) \<le> m)"
    using fold_max_le [of "map (\<lambda>kv. jdepth (snd kv)) kvs" 0 "m - Suc d"] by auto
  with jtext_obj.IH [of "Suc d" "CHR ''}'' # r"] jtext_obj.prems show ?case
    by (cases "d = m") (simp_all add: nesting_open del: nesting_scan.simps)
next
  case (jtext_arr js s)
  have "d + Suc (fold max (map jdepth js) 0) \<le> m \<longleftrightarrow> Suc d \<le> m \<and> (\<forall>j \<in> set js. Suc d + jdepth j \<le> m)"
    using fold_max_le [of "map jdepth js" 0 "m - Suc d"] by auto
  with jtext_arr.IH [of "Suc d" "CHR '']'' # r"] jtext_arr.prems show ?case
    by (cases "d = m") (simp_all add: nesting_open del: nesting_scan.simps)
qed (auto simp: nesting_open simp del: nesting_scan.simps)

lemma skip_ws_ends: "jtext j v \<Longrightarrow> jws w \<Longrightarrow> skip_ws (w @ v @ r) = v @ r"
  using jtext_hd [of j v] value_head_facts by auto

lemma nesting_text:
  "jtext j v \<Longrightarrow> jws w1 \<Longrightarrow> jws w2 \<Longrightarrow> nesting_within_limit (w1 @ v @ w2) m \<longleftrightarrow> jdepth j \<le> m"
  using nesting_depth(1) [of j v 0 m w2] nesting_jws [of w2 m 0 "[]"]
  by (simp add: nesting_within_limit_def)

lemma jtext_JObj_head: "jtext (JObj kvs) v \<Longrightarrow> \<exists>u. v = CHR ''{'' # u"
  by (cases rule: jtext.cases) auto

lemma jtext_JArr_head: "jtext (JArr js) v \<Longrightarrow> \<exists>u. v = CHR ''['' # u"
  by (cases rule: jtext.cases) auto

lemma value_okD: "value_ok v \<Longrightarrow> jws w \<Longrightarrow> number_stop r \<Longrightarrow> 3 * length v + 1 \<le> n \<Longrightarrow> parse_value n (w @ v @ r) = Some r"
  by (simp add: value_ok_def del: parse_value.simps)

lemma parse_object_complete:
  assumes "jtext (JObj kvs) v" "jws w2" "3 * length v \<le> n"
  shows "parse_object n (v @ w2) = Some w2"
proof -
  obtain u where "v = CHR ''{'' # u" using jtext_JObj_head [OF assms(1)] by blast
  moreover have "number_stop w2" using jws_number_stop [of w2 "[]"] assms(2) by (simp add: number_stop_def)
  ultimately show ?thesis
    using value_okD [OF grammar_complete(1) [OF assms(1)], of "[]" w2 "Suc n"] parse_value_open(1) [of "[]" n "u @ w2"] assms(3)
    by (simp del: parse_value.simps parse_object.simps)
qed

lemma parse_array_complete:
  assumes "jtext (JArr js) v" "jws w2" "3 * length v \<le> n"
  shows "parse_array n (v @ w2) = Some w2"
proof -
  obtain u where "v = CHR ''['' # u" using jtext_JArr_head [OF assms(1)] by blast
  moreover have "number_stop w2" using jws_number_stop [of w2 "[]"] assms(2) by (simp add: number_stop_def)
  ultimately show ?thesis
    using value_okD [OF grammar_complete(1) [OF assms(1)], of "[]" w2 "Suc n"] parse_value_open(2) [of "[]" n "u @ w2"] assms(3)
    by (simp del: parse_value.simps parse_array.simps)
qed

lemma valid_object_iff:
  "valid_object s m \<longleftrightarrow> is_valid_utf8 s \<and>
     (\<exists>w1 v w2 kvs. s = w1 @ v @ w2 \<and> jws w1 \<and> jws w2 \<and> jtext (JObj kvs) v \<and> jdepth (JObj kvs) \<le> m)"
  (is "?lhs \<longleftrightarrow> is_valid_utf8 s \<and> ?grammar")
proof
  assume a: ?lhs
  then obtain r where r: "is_valid_utf8 s" "nesting_within_limit s m" "parse_object (json_fuel s) (skip_ws s) = Some r" "jws r"
    by (auto simp: valid_object_def skip_ws_all split: if_splits option.splits)
  obtain w where w: "jws w" "s = w @ skip_ws s" by (rule skip_wsE)
  obtain v kvs where v: "skip_ws s = v @ r" "jtext (JObj kvs) v"
    using grammar_sound [of "json_fuel s"] r(3) unfolding sound_defs by blast
  from r(2) have "jdepth (JObj kvs) \<le> m"
    using nesting_text [OF v(2) w(1) r(4), of m] w(2) v(1) by simp
  with r w v show "is_valid_utf8 s \<and> ?grammar" by metis
next
  assume "is_valid_utf8 s \<and> ?grammar"
  then obtain w1 v w2 kvs where s: "s = w1 @ v @ w2" "jws w1" "jws w2" "jtext (JObj kvs) v" "jdepth (JObj kvs) \<le> m" "is_valid_utf8 s"
    by blast
  then have "parse_object (json_fuel s) (skip_ws s) = Some w2"
    using parse_object_complete [OF s(4,3), of "json_fuel s"] skip_ws_ends [OF s(4), of "[]" w2] by (simp add: json_fuel_def)
  with s show ?lhs
    using nesting_text [OF s(4,2,3), of m] by (simp add: valid_object_def skip_ws_all)
qed

lemma valid_array_iff:
  "valid_array s m \<longleftrightarrow> is_valid_utf8 s \<and>
     (\<exists>w1 v w2 js. s = w1 @ v @ w2 \<and> jws w1 \<and> jws w2 \<and> jtext (JArr js) v \<and> jdepth (JArr js) \<le> m)"
  (is "?lhs \<longleftrightarrow> is_valid_utf8 s \<and> ?grammar")
proof
  assume a: ?lhs
  then obtain r where r: "is_valid_utf8 s" "nesting_within_limit s m" "parse_array (json_fuel s) (skip_ws s) = Some r" "jws r"
    by (auto simp: valid_array_def skip_ws_all split: if_splits option.splits)
  obtain w where w: "jws w" "s = w @ skip_ws s" by (rule skip_wsE)
  obtain v js where v: "skip_ws s = v @ r" "jtext (JArr js) v"
    using grammar_sound [of "json_fuel s"] r(3) unfolding sound_defs by blast
  from r(2) have "jdepth (JArr js) \<le> m"
    using nesting_text [OF v(2) w(1) r(4), of m] w(2) v(1) by simp
  with r w v show "is_valid_utf8 s \<and> ?grammar" by metis
next
  assume "is_valid_utf8 s \<and> ?grammar"
  then obtain w1 v w2 js where s: "s = w1 @ v @ w2" "jws w1" "jws w2" "jtext (JArr js) v" "jdepth (JArr js) \<le> m" "is_valid_utf8 s"
    by blast
  then have "parse_array (json_fuel s) (skip_ws s) = Some w2"
    using parse_array_complete [OF s(4,3), of "json_fuel s"] skip_ws_ends [OF s(4), of "[]" w2] by (simp add: json_fuel_def)
  with s show ?lhs
    using nesting_text [OF s(4,2,3), of m] by (simp add: valid_array_def skip_ws_all)
qed

text \<open>
  C30: the validator accepts exactly the texts that are valid UTF-8 and, up to surrounding white
  space, a JSON object of the grammar whose containers nest at most 64 deep; with a caller's
  limit it does the same for every limit from 1 to 128 and rejects everything for other limits.
\<close>

theorem is_valid_object_iff_grammar:
  "(is_valid_object s \<longleftrightarrow> is_valid_utf8 s \<and>
     (\<exists>w1 v w2 kvs. s = w1 @ v @ w2 \<and> jws w1 \<and> jws w2 \<and> jtext (JObj kvs) v \<and> jdepth (JObj kvs) \<le> 64)) \<and>
   (is_valid_object_with_max_depth s m \<longleftrightarrow> 0 < m \<and> m \<le> 128 \<and> is_valid_utf8 s \<and>
     (\<exists>w1 v w2 kvs. s = w1 @ v @ w2 \<and> jws w1 \<and> jws w2 \<and> jtext (JObj kvs) v \<and> jdepth (JObj kvs) \<le> m))"
  by (simp add: is_valid_object_def is_valid_object_with_max_depth_def valid_object_iff kMaxNestingDepth_def)

end
