(* ===== verification/Json_Fields.thy ===== *)
theory Json_Fields
  imports Json_Validator
begin

text \<open>
  The field lookups of \<^verbatim>\<open>core/json.cpp\<close>: a scanner finds the member of the outermost object by the
  raw text of its name, and readers take the string, integer, object or array that follows.

  The scanner's depth counters are \<^verbatim>\<open>int\<close>s that only grow by one per input byte and stop at
  zero, so they are natural numbers here. Positions are indices into the object text.
\<close>

section \<open>Finding a member\<close>

text \<open>Behind the needle: white space, a colon, white space; the number of bytes up to the value.\<close>

definition after_colon :: "string \<Rightarrow> nat option" where
  "after_colon r =
     (case dropWhile isspace r of
        [] \<Rightarrow> None
      | c # t \<Rightarrow> if c = CHR '':'' then Some (length r - length (dropWhile isspace t)) else None)"

fun field_scan :: "string \<Rightarrow> bool \<Rightarrow> bool \<Rightarrow> nat \<times> nat \<Rightarrow> nat \<Rightarrow> string \<Rightarrow> nat option" where
  "field_scan needle in_string escaped depths index [] = None"
| "field_scan needle in_string escaped (object_depth, array_depth) index (ch # r) =
     (if in_string then
        if escaped then field_scan needle in_string False (object_depth, array_depth) (index + 1) r
        else if ch = bslash then field_scan needle in_string True (object_depth, array_depth) (index + 1) r
        else if ch = dquote then field_scan needle False escaped (object_depth, array_depth) (index + 1) r
        else field_scan needle in_string escaped (object_depth, array_depth) (index + 1) r
      else if ch = dquote then
        (case (if object_depth = 1 \<and> array_depth = 0 \<and> take (length needle) (ch # r) = needle
               then after_colon (drop (length needle) (ch # r)) else None) of
           Some n \<Rightarrow> Some (index + length needle + n)
         | None \<Rightarrow> field_scan needle True escaped (object_depth, array_depth) (index + 1) r)
      else if ch = CHR ''{'' then field_scan needle in_string escaped (object_depth + 1, array_depth) (index + 1) r
      else if ch = CHR ''}'' then
        field_scan needle in_string escaped (if object_depth > 0 then object_depth - 1 else object_depth, array_depth) (index + 1) r
      else if ch = CHR ''['' then field_scan needle in_string escaped (object_depth, array_depth + 1) (index + 1) r
      else if ch = CHR '']'' then
        field_scan needle in_string escaped (object_depth, if array_depth > 0 then array_depth - 1 else array_depth) (index + 1) r
      else field_scan needle in_string escaped (object_depth, array_depth) (index + 1) r)"

definition field_value_start :: "string \<Rightarrow> string \<Rightarrow> nat option" where
  "field_value_start object key = field_scan (dquote # escape key @ [dquote]) False False (0, 0) 0 object"

section \<open>Readers\<close>

definition string_field :: "string \<Rightarrow> string \<Rightarrow> string option" where
  "string_field object key =
     (case field_value_start object key of None \<Rightarrow> None | Some start \<Rightarrow> parse_string_at object start)"

text \<open>\<^verbatim>\<open>std::from_chars\<close> on a decimal: the value, or an error outside \<^verbatim>\<open>long long\<close>.\<close>

fun decimal_value :: "nat \<Rightarrow> string \<Rightarrow> nat" where
  "decimal_value acc [] = acc"
| "decimal_value acc (c # r) = decimal_value (acc * 10 + (byte c - byte CHR ''0'')) r"

definition long_long :: "int \<Rightarrow> bool" where
  "long_long n \<longleftrightarrow> - (2 ^ 63) \<le> n \<and> n < 2 ^ 63"

definition from_chars :: "string \<Rightarrow> int option" where
  "from_chars s =
     (let n = (if s \<noteq> [] \<and> hd s = CHR ''-'' then - int (decimal_value 0 (tl s)) else int (decimal_value 0 s))
      in if long_long n then Some n else None)"

definition integer_field :: "string \<Rightarrow> string \<Rightarrow> int option" where
  "integer_field object key =
     (case field_value_start object key of
        None \<Rightarrow> None
      | Some start \<Rightarrow>
          let s = drop start object;
              sgn = (if s \<noteq> [] \<and> hd s = CHR ''-'' then 1 else 0);
              digits = takeWhile isdigit (drop sgn s);
              rest = drop (sgn + length digits) s
          in
          if digits = [] \<or> (hd digits = CHR ''0'' \<and> length digits > 1) then None
          else if rest \<noteq> [] \<and> hd rest \<noteq> CHR '','' \<and> hd rest \<noteq> CHR ''}'' \<and> hd rest \<noteq> CHR '']'' \<and> \<not> is_json_whitespace (hd rest)
          then None
          else from_chars (take (sgn + length digits) s))"

definition object_field :: "string \<Rightarrow> string \<Rightarrow> string option" where
  "object_field object key =
     (case field_value_start object key of
        None \<Rightarrow> None
      | Some start \<Rightarrow> parse_balanced object start (CHR ''{'') (CHR ''}''))"

lemma balanced_scan_bounds:
  "balanced_scan op cl ins esc d i s = Some e \<Longrightarrow> i < e \<and> e \<le> i + length s"
  by (induction op cl ins esc d i s rule: balanced_scan.induct) (auto simp: Let_def split: if_splits)

lemma balanced_end_bounds: "balanced_end t i op cl = Some e \<Longrightarrow> i < e \<and> e \<le> length t"
  using balanced_scan_bounds [of op cl False False 0 i "drop i t" e]
  by (auto simp: balanced_end_def split: if_splits)

lemma string_end_scan_bounds: "string_end_scan esc i s = Some e \<Longrightarrow> i \<le> e \<and> e < i + length s"
  by (induction esc i s rule: string_end_scan.induct) (auto split: if_splits)

lemma string_literal_end_bounds: "string_literal_end t i = Some e \<Longrightarrow> i < e \<and> e < length t"
  using string_end_scan_bounds [of False "i + 1" "drop (i + 1) t" e]
  by (auto simp: string_literal_end_def split: if_splits)

text \<open>The array behind the member, brackets included; empty when there is none.\<close>

definition array_at :: "string \<Rightarrow> string \<Rightarrow> string option" where
  "array_at object key =
     (case field_value_start object key of
        None \<Rightarrow> None
      | Some start \<Rightarrow>
          if start \<ge> length object \<or> object ! start \<noteq> CHR ''['' then None
          else parse_balanced object start (CHR ''['') (CHR '']''))"

function objects_loop :: "string \<Rightarrow> nat \<Rightarrow> bool \<Rightarrow> bool \<Rightarrow> string list" where
  "objects_loop array index in_string escaped =
     (if index + 1 < length array then
        let ch = array ! index in
        if escaped then objects_loop array (index + 1) in_string False
        else if ch = bslash \<and> in_string then objects_loop array (index + 1) in_string True
        else if ch = dquote then objects_loop array (index + 1) (\<not> in_string) escaped
        else if \<not> in_string \<and> ch = CHR ''{'' then
          (case balanced_end array index (CHR ''{'') (CHR ''}'') of
             Some end_ \<Rightarrow> take (end_ - index) (drop index array) # objects_loop array end_ in_string escaped
           | None \<Rightarrow> objects_loop array (index + 1) in_string escaped)
        else objects_loop array (index + 1) in_string escaped
      else [])"
  by pat_completeness auto
termination
  by (relation "measure (\<lambda>(array, index, _, _). length array - index)") (auto dest: balanced_end_bounds)

definition objects_in_array_field :: "string \<Rightarrow> string \<Rightarrow> string list" where
  "objects_in_array_field object key =
     (case array_at object key of None \<Rightarrow> [] | Some array \<Rightarrow> objects_loop array 1 False False)"

definition skip_space :: "string \<Rightarrow> nat \<Rightarrow> nat" where
  "skip_space array index = index + length (takeWhile isspace (drop index array))"

function strict_loop :: "string \<Rightarrow> nat \<Rightarrow> nat \<Rightarrow> string list \<Rightarrow> string list option" where
  "strict_loop array max_items index0 result =
     (let index = skip_space array index0 in
      if index \<ge> length array then None
      else if array ! index = CHR '']'' then Some result
      else if array ! index \<noteq> CHR ''{'' \<or> length result = max_items then None
      else
        (case balanced_end array index (CHR ''{'') (CHR ''}'') of
           None \<Rightarrow> None
         | Some item_end \<Rightarrow>
             let item = take (item_end - index) (drop index array) in
             if \<not> valid_object item kMaxNestingDepth then None
             else
               let result' = result @ [item]; index' = skip_space array item_end in
               if index' \<ge> length array then None
               else if array ! index' = CHR '']'' then Some result'
               else if array ! index' \<noteq> CHR '','' then None
               else strict_loop array max_items (index' + 1) result'))"
  by pat_completeness auto
termination
proof (relation "measure (\<lambda>(array, _, index, _). length array - index)", goal_cases)
  case (2 array max_items index0 result index item_end item result' index')
  from 2(1,5) have "index0 < item_end" using balanced_end_bounds [of array index "CHR ''{''" "CHR ''}''" item_end]
    by (simp add: skip_space_def)
  moreover have "item_end \<le> index'" by (simp add: 2(9) skip_space_def)
  ultimately show ?case using 2(10) by simp
qed simp

definition strict_objects_in_array_field :: "string \<Rightarrow> string \<Rightarrow> nat \<Rightarrow> string list option" where
  "strict_objects_in_array_field object key max_items =
     (if \<not> is_valid_utf8 object then None
      else
        (case array_at object key of
           None \<Rightarrow> None
         | Some array \<Rightarrow>
             if \<not> valid_array array kMaxNestingDepth then None
             else strict_loop array max_items 1 []))"

definition skip_separators :: "string \<Rightarrow> nat \<Rightarrow> nat" where
  "skip_separators array index =
     index + length (takeWhile (\<lambda>c. isspace c \<or> c = CHR '','') (drop index (butlast array)))"

function strings_loop :: "string \<Rightarrow> nat \<Rightarrow> string list" where
  "strings_loop array index0 =
     (if index0 + 1 < length array then
        let index = skip_separators array index0 in
        if index + 1 \<ge> length array then []
        else if array ! index = dquote then
          (case parse_string_at array index of Some parsed \<Rightarrow> [parsed] | None \<Rightarrow> []) @
          (case string_literal_end array index of Some end_ \<Rightarrow> strings_loop array (end_ + 1) | None \<Rightarrow> [])
        else
          (case (if array ! index = CHR ''{'' then balanced_end array index (CHR ''{'') (CHR ''}'')
                 else if array ! index = CHR ''['' then balanced_end array index (CHR ''['') (CHR '']'') else None) of
             Some end_ \<Rightarrow> strings_loop array end_
           | None \<Rightarrow> strings_loop array (index + 1))
      else [])"
  by pat_completeness auto
termination
  by (relation "measure (\<lambda>(array, index). length array - index)")
    (auto simp: skip_separators_def split: if_splits dest!: balanced_end_bounds string_literal_end_bounds)

definition strings_in_array_field :: "string \<Rightarrow> string \<Rightarrow> string list" where
  "strings_in_array_field object key =
     (case array_at object key of None \<Rightarrow> [] | Some array \<Rightarrow> strings_loop array 1)"

declare objects_loop.simps [simp del] strict_loop.simps [simp del] strings_loop.simps [simp del]

section \<open>The scanner on texts of the grammar\<close>

definition jlit :: "string \<Rightarrow> string" where
  "jlit s = dquote # escape s @ [dquote]"

lemma jstring_jlit [simp]: "jstring (jlit s)"
  using escape_jchars by (auto simp: jstring_def jlit_def)

text \<open>String literals are prefix-free, so the scanner's prefix test is equality of literals.\<close>

lemma jstring_prefix_free:
  assumes "jstring a" "jstring b" "a @ r = b @ t"
  shows "a = b \<and> r = t"
proof -
  have "parse_string (a @ r) = Some r" "parse_string (b @ t) = Some t"
    using assms(1,2) parse_string_iff by blast+
  with assms(3) show ?thesis by simp
qed

lemma take_literal:
  assumes "jstring needle" "jstring t"
  shows "take (length needle) (t @ r) = needle \<longleftrightarrow> t = needle"
proof
  assume "take (length needle) (t @ r) = needle"
  then have "t @ r = needle @ drop (length needle) (t @ r)" by (metis append_take_drop_id)
  then show "t = needle" using jstring_prefix_free assms by blast
qed simp

interpretation field: string_aware "field_scan needle" for needle
proof unfold_locales
  fix d :: "nat \<times> nat" and i c r
  show "field_scan needle True True d i (c # r) = field_scan needle True False d (i + 1) r"
    "field_scan needle True False d i (bslash # r) = field_scan needle True True d (i + 1) r"
    "field_scan needle True False d i (dquote # r) = field_scan needle False False d (i + 1) r"
    "c \<noteq> bslash \<Longrightarrow> c \<noteq> dquote \<Longrightarrow> field_scan needle True False d i (c # r) = field_scan needle True False d (i + 1) r"
    by (cases d; simp)+
qed

definition no_hit :: "nat \<times> nat \<Rightarrow> string \<Rightarrow> bool" where
  "no_hit d r \<longleftrightarrow> d = (1, 0) \<longrightarrow> after_colon r = None"

lemma field_plain: "list_all plain_char t \<Longrightarrow> field_scan needle False False d i (t @ r) = field_scan needle False False d (i + length t) r"
  by (induction t arbitrary: i) (auto simp: plain_char_def split_paired_all, (cases d; simp)+)

lemma field_ws [simp]: "jws w \<Longrightarrow> field_scan needle False False d i (w @ r) = field_scan needle False False d (i + length w) r"
  by (simp add: field_plain jws_plain)

lemma field_literal:
  assumes "jstring needle" "jstring t" "d = (1, 0) \<Longrightarrow> t = needle \<Longrightarrow> after_colon r = None"
  shows "field_scan needle False False d i (t @ r) = field_scan needle False False d (i + length t) r"
proof -
  obtain b where b: "t = dquote # b @ [dquote]" "jchars b" using assms(2) by (auto simp: jstring_def)
  obtain od ad where d: "d = (od, ad)" by (cases d)
  have t: "t @ r = dquote # b @ dquote # r" by (simp add: b)
  have miss: "(if od = 1 \<and> ad = 0 \<and> take (length needle) (t @ r) = needle then after_colon (drop (length needle) (t @ r)) else None) = None"
    using assms(3) d take_literal [OF assms(1,2), of r] by auto
  have "field_scan needle False False d i (t @ r) = field_scan needle True False d (i + 1) (b @ dquote # r)"
    unfolding t d by (simp only: field_scan.simps miss [unfolded t] if_False if_True simp_thms option.case)
  also have "\<dots> = field_scan needle False False d (i + length t) r"
    using field.skip_body [OF b(2)] by (simp add: b(1))
  finally show ?thesis .
qed

lemma field_hit:
  assumes "jstring needle" "after_colon r = Some n"
  shows "field_scan needle False False (1, 0) i (needle @ r) = Some (i + length needle + n)"
proof -
  obtain b where b: "needle = dquote # b @ [dquote]" using assms(1) by (auto simp: jstring_def)
  have "field_scan needle False False (1, 0) i (dquote # (b @ [dquote] @ r)) = Some (i + length needle + n)"
    using assms(2) by (subst field_scan.simps) (simp add: b)
  then show ?thesis by (simp add: b)
qed

lemma field_steps:
  "field_scan needle False False (od, ad) i (CHR ''{'' # r) = field_scan needle False False (Suc od, ad) (i + 1) r"
  "field_scan needle False False (Suc od, ad) i (CHR ''}'' # r) = field_scan needle False False (od, ad) (i + 1) r"
  "field_scan needle False False (od, ad) i (CHR ''['' # r) = field_scan needle False False (od, Suc ad) (i + 1) r"
  "field_scan needle False False (od, Suc ad) i (CHR '']'' # r) = field_scan needle False False (od, ad) (i + 1) r"
  "c \<in> {CHR '','', CHR '':''} \<Longrightarrow> field_scan needle False False d i (c # r) = field_scan needle False False d (i + 1) r"
  by (cases d; auto)+

lemma field_scalar:
  "jstring needle \<Longrightarrow> jscalar t \<Longrightarrow> no_hit d r \<Longrightarrow> field_scan needle False False d i (t @ r) = field_scan needle False False d (i + length t) r"
  using jscalar_literal [of t] field_plain field_literal by (metis no_hit_def)

lemma field_skip:
  assumes "jstring needle"
  shows
  "jtext j v \<Longrightarrow> 1 \<le> od \<Longrightarrow> no_hit (od, ad) r \<Longrightarrow>
     field_scan needle False False (od, ad) i (v @ r) = field_scan needle False False (od, ad) (i + length v) r"
  "jmember kv s \<Longrightarrow> 2 \<le> od \<Longrightarrow>
     field_scan needle False False (od, ad) i (s @ r) = field_scan needle False False (od, ad) (i + length s) r"
  "jmembers kvs s \<Longrightarrow> 2 \<le> od \<Longrightarrow>
     field_scan needle False False (od, ad) i (s @ r) = field_scan needle False False (od, ad) (i + length s) r"
  "jelement j s \<Longrightarrow> 1 \<le> od \<Longrightarrow> 2 \<le> od + ad \<Longrightarrow>
     field_scan needle False False (od, ad) i (s @ r) = field_scan needle False False (od, ad) (i + length s) r"
  "jelements js s \<Longrightarrow> 1 \<le> od \<Longrightarrow> 1 \<le> ad \<Longrightarrow>
     field_scan needle False False (od, ad) i (s @ r) = field_scan needle False False (od, ad) (i + length s) r"
proof (induction arbitrary: od ad i r and od ad i r and od ad i r and od ad i r and od ad i r
    rule: jtext_jmember_jmembers_jelement_jelements.inducts)
  case (jtext_scalar t)
  then show ?case by (simp add: field_scalar assms)
next
  case (jmember w1 k w2 j e)
  then have "field_scan needle False False (od, ad) i (k @ r) = field_scan needle False False (od, ad) (i + length k) r" for i r
    by (intro field_literal assms) auto
  with jmember show ?case by (simp add: field_steps add.commute add.left_commute del: field_scan.simps)
next
  case (jelement w1 j v w2)
  then have "no_hit (od, ad) q" for q by (auto simp: no_hit_def)
  with jelement show ?case by (simp add: add.assoc del: field_scan.simps)
qed (auto simp: field_steps no_hit_def add.commute add.left_commute simp del: field_scan.simps)

section \<open>Looking up a member\<close>

inductive_cases jmembers_OneE: "jmembers kvs m"
inductive_cases jmemberE: "jmember (k, j) s"
inductive_cases jelementE: "jelement j s"
inductive_cases jtext_ObjE: "jtext (JObj kvs) v"
inductive_cases jtext_ArrE: "jtext (JArr js) v"

lemma jws_isspace: "jws w \<Longrightarrow> dropWhile isspace (w @ r) = dropWhile isspace r"
  by (rule dropWhile_append_all) (auto simp: jws_def list_all_iff is_json_whitespace_def isspace_def)

lemma isspace_simps [simp]: "\<not> isspace (CHR '':'')" "\<not> isspace (CHR '','')" "\<not> isspace (CHR ''}'')" "\<not> isspace (CHR '']'')"
  "\<not> isspace dquote" "\<not> isspace (CHR ''{'')" "\<not> isspace (CHR ''['')" "\<not> isspace (CHR ''-'')"
  by (simp_all add: isspace_def)

lemma value_head_space: "value_head c \<Longrightarrow> \<not> isspace c"
  by (auto simp: value_head_def isspace_def isdigit_def)

lemma after_colon_value:
  assumes "jws w2" "jws w3" "jtext j v"
  shows "after_colon (w2 @ CHR '':'' # w3 @ v @ q) = Some (length w2 + 1 + length w3)"
proof -
  obtain c u where "v = c # u" "value_head c" using jtext_hd [OF assms(3)] by blast
  then show ?thesis using assms value_head_space [of c] by (simp add: after_colon_def jws_isspace)
qed

text \<open>What stands behind a member's value: white space and then a comma or the closing brace.\<close>

definition value_end :: "string \<Rightarrow> bool" where
  "value_end q \<longleftrightarrow> (\<exists>w c u. q = w @ c # u \<and> jws w \<and> c \<in> {CHR '','', CHR ''}''})"

lemma value_endI: "jws w \<Longrightarrow> c \<in> {CHR '','', CHR ''}''} \<Longrightarrow> value_end (w @ c # u)"
  by (auto simp: value_end_def)

lemma value_end_no_colon: "value_end q \<Longrightarrow> after_colon q = None"
  by (auto simp: value_end_def after_colon_def jws_isspace)

text \<open>A hit: the scanner stands at the first byte of a text of \<open>j\<close>.\<close>

definition hit :: "json \<Rightarrow> string \<Rightarrow> nat \<Rightarrow> nat option \<Rightarrow> bool" where
  "hit j s i res \<longleftrightarrow> (\<exists>p t q. s = p @ t @ q \<and> jtext j t \<and> value_end q \<and> res = Some (i + length p))"

lemma hitI: "s = p @ t @ q \<Longrightarrow> jtext j t \<Longrightarrow> value_end q \<Longrightarrow> res = Some (i + length p) \<Longrightarrow> hit j s i res"
  by (auto simp: hit_def)

lemma hit_append: "hit j s (i + length p) res \<Longrightarrow> hit j (p @ s) i res"
  by (auto simp: hit_def) (metis append_assoc length_append add.assoc)

lemma field_member:
  assumes n: "jstring needle" and m: "jmember (k, j) s" and c: "c \<in> {CHR '','', CHR ''}''}"
  shows "if k = needle then hit j (s @ c # r) i (field_scan needle False False (1, 0) i (s @ c # r))
    else field_scan needle False False (1, 0) i (s @ c # r) = field_scan needle False False (1, 0) (i + length s) (c # r)"
  using m
proof (cases rule: jmemberE [consumes 1])
  case (1 w1 w2 e)
  from \<open>jelement j e\<close> obtain w3 v w4 where e: "e = w3 @ v @ w4" "jws w3" "jtext j v" "jws w4" by (rule jelementE)
  have ends: "value_end (w4 @ c # r)" using e(4) c by (rule value_endI)
  show ?thesis
  proof (cases "k = needle")
    case True
    have "field_scan needle False False (1, 0) i (s @ c # r) = Some (i + length w1 + length needle + (length w2 + 1 + length w3))"
      using 1 True field_hit [OF n after_colon_value [OF \<open>jws w2\<close> e(2,3), of "w4 @ c # r"]] by (simp add: e del: field_scan.simps)
    then have "hit j (s @ c # r) i (field_scan needle False False (1, 0) i (s @ c # r))"
      using 1 e ends True by (intro hitI [where p = "w1 @ k @ w2 @ CHR '':'' # w3" and t = v and q = "w4 @ c # r"]) simp_all
    with True show ?thesis by simp
  next
    case False
    have "field_scan needle False False (1, 0) q (k @ u) = field_scan needle False False (1, 0) (q + length k) u" for q u
      using field_literal [OF n \<open>jstring k\<close>, of "(1, 0)" u q] False by simp
    moreover have "field_scan needle False False (1, 0) q (v @ w4 @ c # r) = field_scan needle False False (1, 0) (q + length v) (w4 @ c # r)" for q
      using field_skip(1) [OF n e(3), of 1 0 "w4 @ c # r" q] value_end_no_colon [OF ends] by (simp add: no_hit_def)
    ultimately show ?thesis using False 1 e by (simp add: field_steps add.assoc del: field_scan.simps)
  qed
qed

lemma field_members:
  assumes n: "jstring needle"
  shows "jmembers kvs m \<Longrightarrow>
    (case map_of kvs needle of
       Some j \<Rightarrow> hit j (m @ CHR ''}'' # r) i (field_scan needle False False (1, 0) i (m @ CHR ''}'' # r))
     | None \<Rightarrow> field_scan needle False False (1, 0) i (m @ CHR ''}'' # r) = field_scan needle False False (1, 0) (i + length m) (CHR ''}'' # r))"
proof (induction kvs arbitrary: m i)
  case Nil
  then show ?case by (auto elim: jmembers_OneE)
next
  case (Cons kv kvs)
  obtain k j where kv: "kv = (k, j)" by (cases kv)
  from Cons.prems show ?case
  proof (cases rule: jmembers_OneE [consumes 1])
    case (1 _)
    then show ?thesis using field_member [OF n, of k j m "CHR ''}''" r i] kv by (auto split: if_splits)
  next
    case (2 _ s _ m')
    then have s: "jmember (k, j) s" "m = s @ CHR '','' # m'" "jmembers kvs m'" using kv by auto
    note step = field_member [OF n s(1), of "CHR '',''" "m' @ CHR ''}'' # r" i]
    show ?thesis
    proof (cases "k = needle")
      case True
      with step s kv show ?thesis by simp
    next
      case False
      with step have "field_scan needle False False (1, 0) i (m @ CHR ''}'' # r) =
          field_scan needle False False (1, 0) (i + length s + 1) (m' @ CHR ''}'' # r)"
        by (simp add: s(2) field_steps del: field_scan.simps)
      with Cons.IH [OF s(3), of "i + length s + 1"] False kv s(2) show ?thesis
        using hit_append [of _ "m' @ CHR ''}'' # r" i "s @ '',''"] by (simp add: add.assoc split: option.splits)
    qed
  qed
qed

lemma field_empty: "jws w \<Longrightarrow> field_scan needle False False (0, 0) i w = None"
  using field_ws [of w needle "(0, 0)" i "[]"] by simp

lemma field_value_start_lookup:
  assumes "jtext (JObj kvs) v" "jws w1" "jws w2"
  shows "case map_of kvs (jlit key) of
       Some j \<Rightarrow> hit j (w1 @ v @ w2) 0 (field_value_start (w1 @ v @ w2) key)
     | None \<Rightarrow> field_value_start (w1 @ v @ w2) key = None"
proof -
  have start: "field_value_start (w1 @ v @ w2) key = field_scan (jlit key) False False (0, 0) (length w1) (v @ w2)"
    using assms(2) by (simp add: field_value_start_def jlit_def)
  have close: "field_scan (jlit key) False False (1, 0) i (CHR ''}'' # w2) = None" for i
    using field_steps(2) [of "jlit key" 0 0 i w2] field_empty [OF assms(3)] by simp
  from assms(1) show ?thesis
  proof (cases rule: jtext_ObjE [consumes 1])
    case (1 w)
    then have "field_value_start (w1 @ v @ w2) key = None"
      unfolding start using close by (simp add: field_steps del: field_scan.simps)
    with 1 show ?thesis by simp
  next
    case (2 m)
    have s: "w1 @ v @ w2 = (w1 @ ''{'') @ m @ CHR ''}'' # w2" by (simp add: 2)
    have "field_value_start (w1 @ v @ w2) key = field_scan (jlit key) False False (1, 0) (length w1 + 1) (m @ CHR ''}'' # w2)"
      unfolding start by (simp add: 2 field_steps del: field_scan.simps)
    with field_members [OF jstring_jlit [of key] 2(2), of "length w1 + 1" w2] close show ?thesis
      using hit_append [of _ "m @ CHR ''}'' # w2" 0 "w1 @ ''{''"] unfolding s by (simp split: option.splits)
  qed
qed

section \<open>Readers on texts of the grammar\<close>

definition bracket_pair :: "char \<Rightarrow> char \<Rightarrow> bool" where
  "bracket_pair op cl \<longleftrightarrow> (op, cl) \<in> {(CHR ''{'', CHR ''}''), (CHR ''['', CHR '']'')}"

lemma balanced_plain:
  "bracket_pair op cl \<Longrightarrow> list_all plain_char t \<Longrightarrow>
   balanced_scan op cl False False d i (t @ r) = balanced_scan op cl False False d (i + length t) r"
  by (induction t arbitrary: i) (auto simp: plain_char_def bracket_pair_def)

lemma balanced_ws [simp]: "bracket_pair op cl \<Longrightarrow> jws w \<Longrightarrow>
   balanced_scan op cl False False d i (w @ r) = balanced_scan op cl False False d (i + length w) r"
  by (simp add: balanced_plain jws_plain)

lemma balanced_jstring [simp]: "jstring t \<Longrightarrow>
   balanced_scan op cl False False d i (t @ r) = balanced_scan op cl False False d (i + length t) r"
  by (rule balanced.skip_literal)

lemma balanced_scalar: "bracket_pair op cl \<Longrightarrow> jscalar t \<Longrightarrow>
   balanced_scan op cl False False d i (t @ r) = balanced_scan op cl False False d (i + length t) r"
  using jscalar_literal [of t] balanced_plain balanced_jstring by blast

lemma balanced_sep: "bracket_pair op cl \<Longrightarrow> c \<in> {CHR '','', CHR '':''} \<Longrightarrow>
   balanced_scan op cl False False d i (c # r) = balanced_scan op cl False False d (i + 1) r"
  by (auto simp: bracket_pair_def)

lemma balanced_braces:
  "bracket_pair op cl \<Longrightarrow> balanced_scan op cl False False d i (CHR ''{'' # r) =
     balanced_scan op cl False False (if op = CHR ''{'' then Suc d else d) (i + 1) r"
  "bracket_pair op cl \<Longrightarrow> balanced_scan op cl False False d i (CHR ''['' # r) =
     balanced_scan op cl False False (if op = CHR ''['' then Suc d else d) (i + 1) r"
  "bracket_pair op cl \<Longrightarrow> 0 < d \<Longrightarrow> balanced_scan op cl False False (if op = CHR ''{'' then Suc d else d) i (CHR ''}'' # r) =
     balanced_scan op cl False False d (i + 1) r"
  "bracket_pair op cl \<Longrightarrow> 0 < d \<Longrightarrow> balanced_scan op cl False False (if op = CHR ''['' then Suc d else d) i (CHR '']'' # r) =
     balanced_scan op cl False False d (i + 1) r"
  by (auto simp: bracket_pair_def)

lemma balanced_skip:
  assumes "bracket_pair op cl"
  shows
  "jtext j v \<Longrightarrow> 0 < d \<Longrightarrow> balanced_scan op cl False False d i (v @ r) = balanced_scan op cl False False d (i + length v) r"
  "jmember kv v \<Longrightarrow> 0 < d \<Longrightarrow> balanced_scan op cl False False d i (v @ r) = balanced_scan op cl False False d (i + length v) r"
  "jmembers kvs v \<Longrightarrow> 0 < d \<Longrightarrow> balanced_scan op cl False False d i (v @ r) = balanced_scan op cl False False d (i + length v) r"
  "jelement j v \<Longrightarrow> 0 < d \<Longrightarrow> balanced_scan op cl False False d i (v @ r) = balanced_scan op cl False False d (i + length v) r"
  "jelements js v \<Longrightarrow> 0 < d \<Longrightarrow> balanced_scan op cl False False d i (v @ r) = balanced_scan op cl False False d (i + length v) r"
proof (induction arbitrary: d i r and d i r and d i r and d i r and d i r
    rule: jtext_jmember_jmembers_jelement_jelements.inducts)
  case (jtext_scalar t)
  then show ?case by (simp add: balanced_scalar assms)
qed (simp_all add: balanced_braces balanced_sep assms add.commute add.left_commute del: balanced_scan.simps)

lemma balanced_end_object:
  assumes "jtext (JObj kvs) t"
  shows "balanced_end (p @ t @ q) (length p) (CHR ''{'') (CHR ''}'') = Some (length p + length t)"
proof -
  have b: "bracket_pair (CHR ''{'') (CHR ''}'')" by (simp add: bracket_pair_def)
  from assms obtain m where t: "t = CHR ''{'' # m @ ''}''" and m: "\<And>d i r. 0 < d \<Longrightarrow>
      balanced_scan (CHR ''{'') (CHR ''}'') False False d i (m @ r) = balanced_scan (CHR ''{'') (CHR ''}'') False False d (i + length m) r"
    by (cases rule: jtext_ObjE [consumes 1]) (auto simp: b balanced_skip(3) simp del: balanced_scan.simps)
  show ?thesis unfolding t
    using m [of 1 "length p + 1" "CHR ''}'' # q"] by (simp add: balanced_end_def)
qed

lemma balanced_end_array:
  assumes "jtext (JArr js) t"
  shows "balanced_end (p @ t @ q) (length p) (CHR ''['') (CHR '']'') = Some (length p + length t)"
proof -
  have b: "bracket_pair (CHR ''['') (CHR '']'')" by (simp add: bracket_pair_def)
  from assms obtain m where t: "t = CHR ''['' # m @ '']''" and m: "\<And>d i r. 0 < d \<Longrightarrow>
      balanced_scan (CHR ''['') (CHR '']'') False False d i (m @ r) = balanced_scan (CHR ''['') (CHR '']'') False False d (i + length m) r"
    by (cases rule: jtext_ArrE [consumes 1]) (auto simp: b balanced_skip(5) simp del: balanced_scan.simps)
  show ?thesis unfolding t
    using m [of 1 "length p + 1" "CHR '']'' # q"] by (simp add: balanced_end_def)
qed

lemma hitE:
  assumes "jtext (JObj kvs) v" "jws w1" "jws w2" "map_of kvs (jlit key) = Some j"
  obtains p t q where "w1 @ v @ w2 = p @ t @ q" "jtext j t" "value_end q" "field_value_start (w1 @ v @ w2) key = Some (length p)"
  using field_value_start_lookup [OF assms(1-3), of key] assms(4) that by (auto simp: hit_def)

inductive_cases jtext_ScalarE: "jtext (JScalar t) v"

lemma string_field_lookup:
  assumes "jtext (JObj kvs) v" "jws w1" "jws w2" "map_of kvs (jlit key) = Some (JScalar (jlit x))"
  shows "string_field (w1 @ v @ w2) key = Some (replace_invalid_utf8 x)"
proof -
  obtain p t q where h: "w1 @ v @ w2 = p @ t @ q" "jtext (JScalar (jlit x)) t" "field_value_start (w1 @ v @ w2) key = Some (length p)"
    by (rule hitE [OF assms])
  from h(2) have "t = jlit x" by (rule jtext_ScalarE)
  then show ?thesis
    unfolding string_field_def h(3) unfolding h(1) using parse_string_at_escape [of p x q] by (simp add: jlit_def)
qed

lemma object_field_lookup:
  assumes "jtext (JObj kvs) v" "jws w1" "jws w2" "map_of kvs (jlit key) = Some (JObj kvs')"
  shows "\<exists>t. object_field (w1 @ v @ w2) key = Some t \<and> jtext (JObj kvs') t"
proof -
  obtain p t q where h: "w1 @ v @ w2 = p @ t @ q" "jtext (JObj kvs') t" "field_value_start (w1 @ v @ w2) key = Some (length p)"
    by (rule hitE [OF assms])
  have "object_field (w1 @ v @ w2) key = Some t"
    unfolding object_field_def h(3) unfolding h(1) by (simp add: parse_balanced_def balanced_end_object [OF h(2)])
  with h(2) show ?thesis by blast
qed

lemma array_at_lookup:
  assumes "jtext (JObj kvs) v" "jws w1" "jws w2" "map_of kvs (jlit key) = Some (JArr js)"
  shows "\<exists>t. array_at (w1 @ v @ w2) key = Some t \<and> jtext (JArr js) t"
proof -
  obtain p t q where h: "w1 @ v @ w2 = p @ t @ q" "jtext (JArr js) t" "field_value_start (w1 @ v @ w2) key = Some (length p)"
    by (rule hitE [OF assms])
  obtain u where u: "t = CHR ''['' # u" using jtext_JArr_head [OF h(2)] by blast
  have "array_at (w1 @ v @ w2) key = parse_balanced (p @ t @ q) (length p) (CHR ''['') (CHR '']'')"
    unfolding array_at_def h(3) unfolding h(1) by (simp add: u)
  also have "\<dots> = Some t" by (simp add: parse_balanced_def balanced_end_array [OF h(2)])
  finally show ?thesis using h(2) by blast
qed

section \<open>Integers\<close>

text \<open>\<^verbatim>\<open>std::to_string\<close>.\<close>

fun decimal :: "nat \<Rightarrow> string" where
  "decimal n = (if n < 10 then [char_of (byte CHR ''0'' + n)] else decimal (n div 10) @ [char_of (byte CHR ''0'' + n mod 10)])"

declare decimal.simps [simp del]

definition int_string :: "int \<Rightarrow> string" where
  "int_string n = (if n < 0 then CHR ''-'' # decimal (nat (- n)) else decimal (nat n))"

lemma byte_char_of [simp]: "n < 256 \<Longrightarrow> byte (char_of n) = n"
  by simp

lemma decimal_digit: "d < 10 \<Longrightarrow> isdigit (char_of (48 + d :: nat))"
  by (simp add: isdigit_def less_eq_char_def)

lemma decimal_digits: "jdigits (decimal n)"
proof (induction n rule: decimal.induct)
  case (1 n)
  then show ?case
    by (subst decimal.simps) (auto simp: jdigits_def decimal_digit)
qed

lemma decimal_value_append: "decimal_value acc (xs @ [c]) = decimal_value acc xs * 10 + (byte c - 48)"
  by (induction acc xs rule: decimal_value.induct) auto

lemma decimal_value_decimal: "decimal_value 0 (decimal n) = n"
proof (induction n rule: decimal.induct)
  case (1 n)
  then show ?case
    by (subst decimal.simps) (auto simp: decimal_value_append)
qed

lemma decimal_hd: "n \<noteq> 0 \<Longrightarrow> hd (decimal n) \<noteq> CHR ''0''"
proof (induction n rule: decimal.induct)
  case (1 n)
  show ?case
  proof (cases "n < 10")
    case True
    have "char_of (48 + n) \<noteq> CHR ''0''"
    proof
      assume "char_of (48 + n) = CHR ''0''"
      then have "byte (char_of (48 + n)) = byte (CHR ''0'')" by simp
      with True 1(2) show False by simp
    qed
    with True show ?thesis by (subst decimal.simps) simp
  next
    case False
    with 1(1) show ?thesis
      using decimal_digits [of "n div 10"] by (subst decimal.simps) (auto simp: jdigits_def)
  qed
qed

lemma decimal_0: "decimal 0 = ''0''"
  using char_of_byte_eq [of "CHR ''0''" 48] by (simp add: decimal.simps)

lemma decimal_jint: "jint (decimal n)"
  using decimal_digits [of n] decimal_hd [of n] decimal_0 by (cases "n = 0") (auto simp: jint_def)

lemma int_string_shape: "\<exists>sgn ds. int_string n = sgn @ ds \<and> sgn \<in> {[], ''-''} \<and> jint ds"
  by (cases "n < 0") (auto simp: int_string_def decimal_jint intro: exI [where x = "''-''"] exI [where x = "[]"])

lemma int_string_scalar: "jscalar (int_string n)"
proof -
  obtain sgn ds where "int_string n = sgn @ ds @ [] @ []" "sgn \<in> {[], ''-''}" "jint ds"
    using int_string_shape [of n] by auto
  then have "jnumber (int_string n)" unfolding jnumber_def jfrac_def jexp_def by blast
  then show ?thesis by (simp add: jscalar_def)
qed

lemma from_chars_int_string: "long_long n \<Longrightarrow> from_chars (int_string n) = Some n"
proof (cases "n < 0")
  case False
  have "hd (decimal (nat n)) \<noteq> CHR ''-''"
    using decimal_digits [of "nat n"] by (cases "decimal (nat n)") (auto simp: jdigits_def)
  with False show "long_long n \<Longrightarrow> ?thesis"
    by (simp add: from_chars_def int_string_def decimal_value_decimal)
qed (simp add: from_chars_def int_string_def decimal_value_decimal)

lemma value_end_head:
  "value_end q \<Longrightarrow> q \<noteq> [] \<and> \<not> isdigit (hd q) \<and> (hd q \<noteq> CHR '','' \<longrightarrow> hd q \<noteq> CHR ''}'' \<longrightarrow> is_json_whitespace (hd q))"
proof -
  assume "value_end q"
  then obtain w c u where q: "q = w @ c # u" "jws w" "c \<in> {CHR '','', CHR ''}''}" by (auto simp: value_end_def)
  then show ?thesis using isdigit_not_ws by (cases w) (auto simp: jws_def)
qed

lemma takeWhile_digits: "jdigits ds \<Longrightarrow> q = [] \<or> \<not> isdigit (hd q) \<Longrightarrow> takeWhile isdigit (ds @ q) = ds"
  by (cases q) (auto simp: jdigits_def list_all_iff)

lemma drop_append_len: "drop (length xs) (xs @ ys) = ys" "drop (length xs + length ys) (xs @ ys @ zs) = zs"
  and take_append_len: "take (length xs + length ys) (xs @ ys @ zs) = xs @ ys"
  by simp_all

lemma integer_field_lookup:
  assumes "jtext (JObj kvs) v" "jws w1" "jws w2" "map_of kvs (jlit key) = Some (JScalar (int_string n))" "long_long n"
  shows "integer_field (w1 @ v @ w2) key = Some n"
proof -
  obtain p t q where h: "w1 @ v @ w2 = p @ t @ q" "jtext (JScalar (int_string n)) t" "value_end q" "field_value_start (w1 @ v @ w2) key = Some (length p)"
    by (rule hitE [OF assms(1-4)])
  from h(2) have t: "t = int_string n" by (rule jtext_ScalarE)
  obtain sgn ds where d: "int_string n = sgn @ ds" "sgn \<in> {[], ''-''}" "jint ds" using int_string_shape by blast
  have ds: "jdigits ds" "ds \<noteq> []" "hd ds \<noteq> CHR ''-''" "hd ds = CHR ''0'' \<longrightarrow> length ds = 1"
    using d(3) jint_hd [OF d(3)] by (auto simp: jint_def jdigits_def)
  have q: "q \<noteq> []" "\<not> isdigit (hd q)" "\<not> (hd q \<noteq> CHR '','' \<and> hd q \<noteq> CHR ''}'' \<and> hd q \<noteq> CHR '']'' \<and> \<not> is_json_whitespace (hd q))"
    using value_end_head [OF h(3)] by auto
  have tw: "takeWhile isdigit (ds @ q) = ds" using ds(1) q(2) by (simp add: takeWhile_digits)
  have sgn: "(if sgn @ ds @ q \<noteq> [] \<and> hd (sgn @ ds @ q) = CHR ''-'' then 1 else 0) = length sgn"
    using d(2) ds(2,3) by auto
  have ds0: "\<not> (ds = [] \<or> hd ds = CHR ''0'' \<and> length ds > 1)" using ds(2,4) by auto
  have "integer_field (w1 @ v @ w2) key = from_chars (sgn @ ds)"
    unfolding integer_field_def h(4) unfolding h(1) t d(1)
    by (simp only: option.case Let_def append_assoc drop_append_len sgn tw ds0 q(3) if_False simp_thms)
      (simp add: take_append_len)
  with from_chars_int_string [OF assms(5)] d(1) show ?thesis by simp
qed

section \<open>Arrays of objects\<close>

definition is_obj :: "json \<Rightarrow> bool" where
  "is_obj j \<longleftrightarrow> (\<exists>kvs. j = JObj kvs)"

lemma jws_all_space: "jws w \<Longrightarrow> \<forall>c \<in> set w. isspace c"
  by (induction w) (auto simp: jws_def is_json_whitespace_def isspace_def)

lemma skip_space_at:
  assumes "jws w" "r \<noteq> []" "\<not> isspace (hd r)"
  shows "skip_space (u @ w @ r) (length u) = length u + length w"
proof -
  have "takeWhile isspace (w @ r) = w"
    using assms(2,3) jws_all_space [OF assms(1)] by (cases r) simp_all
  then show ?thesis by (simp add: skip_space_def)
qed

lemma not_obj_head: "jtext j v \<Longrightarrow> \<not> is_obj j \<Longrightarrow> hd v \<noteq> CHR ''{''"
  by (cases rule: jtext.cases) (auto simp: is_obj_def jscalar_def dest: jstring_hd jnumber_hd)

lemma jtext_valid_slice:
  assumes "jtext j v" "is_obj j" "is_valid_utf8 (p @ v @ q)"
  shows "is_valid_utf8 v"
proof -
  from assms(1,2) obtain m where v: "v = CHR ''{'' # m @ ''}''"
    by (auto simp: is_obj_def elim: jtext_ObjE)
  have "is_valid_utf8 (m @ CHR ''}'' # q)"
    using valid_utf8_split_ascii [of p "CHR ''{''" "m @ CHR ''}'' # q"] assms(3) by (simp add: v)
  then have "is_valid_utf8 m" using valid_utf8_split_ascii [of m "CHR ''}''" q] by simp
  then show ?thesis
    by (simp add: v valid_utf8_Cons_ascii valid_utf8_append valid_utf8_ascii)
qed

lemma strict_item:
  assumes "jtext (JObj kvs) v" "jws w1" "is_valid_utf8 array" "array = u @ w1 @ v @ q" "jdepth (JObj kvs) \<le> kMaxNestingDepth"
  shows "skip_space array (length u) = length u + length w1"
    and "balanced_end array (length u + length w1) (CHR ''{'') (CHR ''}'') = Some (length u + length w1 + length v)"
    and "valid_object v kMaxNestingDepth"
    and "array ! (length u + length w1) = CHR ''{''"
proof -
  obtain x where x: "v = CHR ''{'' # x" using jtext_JObj_head [OF assms(1)] by blast
  show "skip_space array (length u) = length u + length w1"
    using skip_space_at [OF assms(2), of "v @ q" u] by (simp add: assms(4) x)
  show "balanced_end array (length u + length w1) (CHR ''{'') (CHR ''}'') = Some (length u + length w1 + length v)"
    using balanced_end_object [OF assms(1), of "u @ w1" q] by (simp add: assms(4))
  have "is_valid_utf8 v"
    using jtext_valid_slice [OF assms(1), of "u @ w1" q] assms(3,4) by (simp add: is_obj_def)
  then show "valid_object v kMaxNestingDepth"
    unfolding valid_object_iff using assms(1,5) by (intro conjI exI [where x = "[]"] exI [where x = v] exI [where x = kvs]) simp_all
  show "array ! (length u + length w1) = CHR ''{''" by (simp add: assms(4) x nth_append)
qed

text \<open>One turn of the strict loop on an element, followed by a comma or the closing bracket.\<close>

lemma strict_turn:
  assumes e: "jelement j e" and a: "array = u @ e @ c # q" and c: "c \<in> {CHR '','', CHR '']''}"
    and valid: "is_valid_utf8 array" and d: "jdepth j \<le> kMaxNestingDepth"
  shows "\<exists>v. jtext j v \<and> strict_loop array m (length u) res =
     (if \<not> is_obj j \<or> length res = m then None
      else if c = CHR '']'' then Some (res @ [v])
      else strict_loop array m (length u + length e + 1) (res @ [v]))"
proof -
  from e obtain w1 v w2 where v: "e = w1 @ v @ w2" "jws w1" "jtext j v" "jws w2" by (rule jelementE)
  obtain h t where h: "v = h # t" "value_head h" using jtext_hd [OF v(3)] by blast
  have start: "skip_space array (length u) = length u + length w1"
    using skip_space_at [OF v(2), of "v @ w2 @ c # q" u] value_head_space [OF h(2)] by (simp add: a v(1) h(1))
  have at: "array ! (length u + length w1) = h" by (simp add: a v(1) h(1) nth_append)
  have len: "length u + length w1 < length array" by (simp add: a v(1) h(1))
  have hne: "h \<noteq> CHR '']''" using value_head_facts [OF h(2)] by simp
  show ?thesis
  proof (cases "is_obj j")
    case False
    then have "h \<noteq> CHR ''{''" using not_obj_head [OF v(3)] h(1) by simp
    with False start at hne len v(3) show ?thesis
      by (intro exI [where x = v]) (simp add: strict_loop.simps [of array m "length u" res])
  next
    case True
    then obtain kvs where k: "j = JObj kvs" by (auto simp: is_obj_def)
    have a': "array = u @ w1 @ v @ (w2 @ c # q)" by (simp add: a v(1))
    note item = strict_item [OF v(3) [unfolded k] v(2) valid a' d [unfolded k]]
    have after: "skip_space array (length u + length w1 + length v) = length u + length w1 + length v + length w2"
      using skip_space_at [OF v(4), of "c # q" "u @ w1 @ v"] c by (auto simp: a' add.assoc)
    have sep: "array ! (length u + length w1 + length v + length w2) = c"
      "length u + length w1 + length v + length w2 < length array" by (simp_all add: a' nth_append)
    have slice: "take (length v) (drop (length u + length w1) array) = v" by (simp add: a')
    from True start at hne item after sep slice len v(3) c show ?thesis
      by (intro exI [where x = v]) (auto simp: strict_loop.simps [of array m "length u" res] Let_def v(1) add.assoc)
  qed
qed

lemma jelements_ConsE:
  assumes "jelements (j # js) e"
  obtains "js = []" "jelement j e" | s m where "e = s @ CHR '','' # m" "jelement j s" "jelements js m"
  using assms by (cases rule: jelements.cases) auto

lemma jelements_texts: "jelements js e \<Longrightarrow> \<exists>ts. list_all2 jtext js ts"
proof (induction js arbitrary: e)
  case (Cons j js)
  have "\<exists>v ts. jtext j v \<and> list_all2 jtext js ts"
    using Cons.prems by (rule jelements_ConsE) (use Cons.IH in \<open>blast elim: jelementE\<close>)+
  then show ?case by (auto simp: list_all2_Cons1)
qed (auto simp: list_all2_Nil)

lemma strict_elements:
  assumes "jelements js e" "array = u @ e @ '']''" "is_valid_utf8 array" "\<forall>j \<in> set js. jdepth j \<le> kMaxNestingDepth" "length res \<le> m"
  shows "\<exists>ts. list_all2 jtext js ts \<and> strict_loop array m (length u) res =
     (if list_all is_obj js \<and> length res + length js \<le> m then Some (res @ ts) else None)"
  using assms
proof (induction js arbitrary: e u res)
  case Nil
  then show ?case by (auto elim: jelements.cases)
next
  case (Cons j js)
  from Cons.prems(1) show ?case
  proof (cases rule: jelements_ConsE)
    case 1
    then obtain v where "jtext j v" and "strict_loop array m (length u) res = (if \<not> is_obj j \<or> length res = m then None else Some (res @ [v]))"
      using strict_turn [OF 1(2), of array u "CHR '']''" "[]" m res] Cons.prems by auto
    with 1 Cons.prems(5) show ?thesis by (intro exI [where x = "[v]"]) auto
  next
    case (2 s m')
    then have a: "array = u @ s @ CHR '','' # m' @ '']''" using Cons.prems(2) by simp
    then obtain v where v: "jtext j v" "strict_loop array m (length u) res =
        (if \<not> is_obj j \<or> length res = m then None else strict_loop array m (length u + length s + 1) (res @ [v]))"
      using strict_turn [OF 2(2) a _ Cons.prems(3), of m res] Cons.prems(4) by auto
    show ?thesis
    proof (cases "is_obj j \<and> length res \<noteq> m")
      case True
      with Cons.IH [OF 2(3), of "u @ s @ '',''" "res @ [v]"] a Cons.prems(3-5) obtain ts where
        "list_all2 jtext js ts" "strict_loop array m (length u + length s + 1) (res @ [v]) =
          (if list_all is_obj js \<and> length (res @ [v]) + length js \<le> m then Some ((res @ [v]) @ ts) else None)"
        by (auto simp: add.assoc)
      with v True show ?thesis by (intro exI [where x = "v # ts"]) auto
    next
      case False
      obtain ts where "list_all2 jtext js ts" using jelements_texts [OF 2(3)] by blast
      with v False Cons.prems(5) show ?thesis by (intro exI [where x = "v # ts"]) auto
    qed
  qed
qed

lemma array_at_other:
  assumes "jtext (JObj kvs) v" "jws w1" "jws w2"
  shows "map_of kvs (jlit key) = None \<Longrightarrow> array_at (w1 @ v @ w2) key = None"
    and "map_of kvs (jlit key) = Some j \<Longrightarrow> (\<And>js. j \<noteq> JArr js) \<Longrightarrow> array_at (w1 @ v @ w2) key = None"
proof -
  show "map_of kvs (jlit key) = None \<Longrightarrow> array_at (w1 @ v @ w2) key = None"
    using field_value_start_lookup [OF assms, of key] by (simp add: array_at_def)
  assume j: "map_of kvs (jlit key) = Some j" "\<And>js. j \<noteq> JArr js"
  obtain p t q where h: "w1 @ v @ w2 = p @ t @ q" "jtext j t" "field_value_start (w1 @ v @ w2) key = Some (length p)"
    by (rule hitE [OF assms j(1)])
  have "t \<noteq> []" "hd t \<noteq> CHR ''[''"
    using h(2) j(2) by (cases rule: jtext.cases; force simp: jscalar_def dest: jstring_hd jnumber_hd)+
  then show "array_at (w1 @ v @ w2) key = None"
    unfolding array_at_def h(3) unfolding h(1) by (cases t) auto
qed

lemma array_at_slice:
  assumes "jtext (JObj kvs) v" "jws w1" "jws w2" "map_of kvs (jlit key) = Some (JArr js)" "is_valid_utf8 (w1 @ v @ w2)"
  obtains t where "array_at (w1 @ v @ w2) key = Some t" "jtext (JArr js) t" "is_valid_utf8 t"
proof -
  obtain p t q where h: "w1 @ v @ w2 = p @ t @ q" "jtext (JArr js) t" "field_value_start (w1 @ v @ w2) key = Some (length p)"
    by (rule hitE [OF assms(1-4)])
  obtain m where m: "t = CHR ''['' # m @ '']''" using h(2) by (auto elim: jtext_ArrE)
  have "array_at (w1 @ v @ w2) key = parse_balanced (p @ t @ q) (length p) (CHR ''['') (CHR '']'')"
    unfolding array_at_def h(3) unfolding h(1) by (simp add: m)
  moreover have "\<dots> = Some t" by (simp add: parse_balanced_def balanced_end_array [OF h(2)])
  moreover have "is_valid_utf8 (m @ CHR '']'' # q)"
    using valid_utf8_split_ascii [of p "CHR ''[''" "m @ CHR '']'' # q"] assms(5) unfolding h(1) by (simp add: m)
  then have "is_valid_utf8 t"
    using valid_utf8_split_ascii [of m "CHR '']''" q] by (simp add: m valid_utf8_Cons_ascii valid_utf8_append valid_utf8_ascii)
  ultimately show thesis using that h(2) by simp
qed

lemma strict_array:
  assumes "jtext (JArr js) t" "is_valid_utf8 t" "jdepth (JArr js) \<le> kMaxNestingDepth"
  shows "\<exists>ts. list_all2 jtext js ts \<and>
    strict_loop t m 1 [] = (if list_all is_obj js \<and> length js \<le> m then Some ts else None)"
  using assms(1)
proof (cases rule: jtext_ArrE [consumes 1])
  case (1 w)
  have "skip_space t 1 = 1 + length w" using skip_space_at [OF \<open>jws w\<close>, of "'']''" "''[''"] by (simp add: 1)
  moreover have "t ! (1 + length w) = CHR '']''" "1 + length w < length t" by (simp_all add: 1 nth_append)
  ultimately have "strict_loop t m 1 [] = Some []" by (simp add: strict_loop.simps [of t m "Suc 0" "[]"])
  then show ?thesis using 1 by simp
next
  case (2 e)
  have "\<forall>j \<in> set js. jdepth j \<le> kMaxNestingDepth"
    using assms(3) fold_max_le [of "map jdepth js" 0 "kMaxNestingDepth"] by auto
  then show ?thesis
    using strict_elements [OF 2(2), of t "''[''" "[]" m] 2(1) assms(2) by (simp cong: if_cong)
qed

lemma strict_objects_lookup:
  assumes "jtext (JObj kvs) v" "jws w1" "jws w2" "is_valid_utf8 (w1 @ v @ w2)"
  shows "case map_of kvs (jlit key) of
      Some (JArr js) \<Rightarrow>
        if jdepth (JArr js) \<le> kMaxNestingDepth \<and> list_all is_obj js \<and> length js \<le> m
        then \<exists>ts. strict_objects_in_array_field (w1 @ v @ w2) key m = Some ts \<and> list_all2 jtext js ts
        else strict_objects_in_array_field (w1 @ v @ w2) key m = None
    | _ \<Rightarrow> strict_objects_in_array_field (w1 @ v @ w2) key m = None"
proof (cases "\<exists>js. map_of kvs (jlit key) = Some (JArr js)")
  case True
  then obtain js where js: "map_of kvs (jlit key) = Some (JArr js)" by blast
  obtain t where t: "array_at (w1 @ v @ w2) key = Some t" "jtext (JArr js) t" "is_valid_utf8 t"
    by (rule array_at_slice [OF assms(1-3) js assms(4)])
  have "valid_array t n \<longleftrightarrow> jdepth (JArr js) \<le> n" for n
    using nesting_text [OF t(2), of "[]" "[]" n] parse_array_complete [OF t(2), of "[]" "json_fuel t"] t(3) skip_ws_ends [OF t(2), of "[]" "[]"]
    by (simp add: valid_array_def json_fuel_def skip_ws_all del: jdepth.simps)
  with strict_array [OF t(2,3), of m] js t(1) assms(4) show ?thesis
    by (auto simp: strict_objects_in_array_field_def simp del: jdepth.simps)
next
  case False
  then have "array_at (w1 @ v @ w2) key = None"
    using array_at_other [OF assms(1-3), of key] by (cases "map_of kvs (jlit key)") auto
  with False assms(4) show ?thesis
    by (auto simp: strict_objects_in_array_field_def split: option.splits json.splits)
qed

text \<open>
  C32: on the text of a JSON object the lookup finds a member exactly when the first member whose
  name is the escaped key exists, at the first byte of that member's value, no matter what the
  other members and the nested values contain.
\<close>

theorem json_field_lookup:
  assumes "jtext (JObj kvs) v" "jws w1" "jws w2"
  shows "case map_of kvs (jlit key) of
       Some j \<Rightarrow> \<exists>p t q. w1 @ v @ w2 = p @ t @ q \<and> jtext j t \<and> value_end q \<and> field_value_start (w1 @ v @ w2) key = Some (length p)
     | None \<Rightarrow> field_value_start (w1 @ v @ w2) key = None"
  using field_value_start_lookup [OF assms, of key] by (auto simp: hit_def split: option.splits)

lemma sample_object: "jtext (JObj [(jlit ''a'', JScalar (jlit ''x''))]) (''{'' @ jlit ''a'' @ '':'' @ jlit ''x'' @ ''}'')"
proof -
  have "jelement (JScalar (jlit ''x'')) ([] @ jlit ''x'' @ [])"
    by (intro jelement jtext_scalar) (simp_all add: jscalar_def)
  then have "jmember (jlit ''a'', JScalar (jlit ''x'')) ([] @ jlit ''a'' @ [] @ CHR '':'' # jlit ''x'')"
    by (intro jmember) simp_all
  then show ?thesis using jtext_obj [OF jmembers_one] by fastforce
qed

theorem json_field_lookup_witness:
  "\<exists>p t q. ''{'' @ jlit ''a'' @ '':'' @ jlit ''x'' @ ''}'' = p @ t @ q \<and> jtext (JScalar (jlit ''x'')) t \<and>
     value_end q \<and> field_value_start (''{'' @ jlit ''a'' @ '':'' @ jlit ''x'' @ ''}'') ''a'' = Some (length p)"
  using json_field_lookup [OF sample_object, of "[]" "[]" "''a''"] by simp

lemma readers_absent:
  assumes "jtext (JObj kvs) v" "jws w1" "jws w2" "map_of kvs (jlit key) = None"
  shows "string_field (w1 @ v @ w2) key = None \<and> integer_field (w1 @ v @ w2) key = None \<and> object_field (w1 @ v @ w2) key = None"
  using field_value_start_lookup [OF assms(1-3), of key] assms(4)
  by (simp add: string_field_def integer_field_def object_field_def)

text \<open>
  Reading a member back. A member written with the escaper is read as its string (invalid
  bytes replaced), one written as a decimal is read as its integer, one that is an object is
  read as a text of that object; an absent member reads as nothing.
\<close>

theorem json_readers:
  assumes "jtext (JObj kvs) v" "jws w1" "jws w2"
  shows "(map_of kvs (jlit key) = Some (JScalar (jlit x)) \<longrightarrow> string_field (w1 @ v @ w2) key = Some (replace_invalid_utf8 x)) \<and>
    (map_of kvs (jlit key) = Some (JScalar (int_string n)) \<and> long_long n \<longrightarrow> integer_field (w1 @ v @ w2) key = Some n) \<and>
    (map_of kvs (jlit key) = Some (JObj kvs') \<longrightarrow> (\<exists>t. object_field (w1 @ v @ w2) key = Some t \<and> jtext (JObj kvs') t)) \<and>
    (map_of kvs (jlit key) = None \<longrightarrow> string_field (w1 @ v @ w2) key = None \<and> integer_field (w1 @ v @ w2) key = None \<and>
       object_field (w1 @ v @ w2) key = None)"
  using string_field_lookup [OF assms] integer_field_lookup [OF assms] object_field_lookup [OF assms] readers_absent [OF assms]
  by blast

theorem json_readers_witness:
  "string_field (''{'' @ jlit ''a'' @ '':'' @ jlit ''x'' @ ''}'') ''a'' = Some (replace_invalid_utf8 ''x'')"
  using json_readers [OF sample_object, of "[]" "[]" "''a''" "''x''"] by simp

text \<open>
  The strict array reader is all or nothing. On a valid UTF-8 object it returns the texts
  of the array's elements, in order, exactly when the member is an array within the nesting
  limit, every element is an object and there are at most as many as the caller allows; in
  every other case it returns nothing.
\<close>

theorem strict_objects_all_or_nothing:
  assumes "jtext (JObj kvs) v" "jws w1" "jws w2" "is_valid_utf8 (w1 @ v @ w2)"
  shows "case map_of kvs (jlit key) of
      Some (JArr js) \<Rightarrow>
        if jdepth (JArr js) \<le> 64 \<and> list_all is_obj js \<and> length js \<le> m
        then \<exists>ts. strict_objects_in_array_field (w1 @ v @ w2) key m = Some ts \<and> list_all2 jtext js ts
        else strict_objects_in_array_field (w1 @ v @ w2) key m = None
    | _ \<Rightarrow> strict_objects_in_array_field (w1 @ v @ w2) key m = None"
  using strict_objects_lookup [OF assms, of key m] by (simp only: kMaxNestingDepth_def)

lemma sample_array: "jtext (JObj [(jlit ''a'', JArr [JObj []])]) (''{'' @ jlit ''a'' @ '':[{}]}'')"
proof -
  have "jelement (JObj []) ([] @ (CHR ''{'' # [] @ ''}'') @ [])" by (intro jelement jtext_obj0) simp_all
  then have "jtext (JArr [JObj []]) (CHR ''['' # ''{}'' @ '']'')" by (intro jtext_arr jelements_one) simp
  then have "jelement (JArr [JObj []]) ([] @ ''[{}]'' @ [])" by (intro jelement) simp_all
  then have "jmember (jlit ''a'', JArr [JObj []]) ([] @ jlit ''a'' @ [] @ CHR '':'' # ''[{}]'')"
    by (intro jmember) simp_all
  then show ?thesis using jtext_obj [OF jmembers_one] by fastforce
qed

lemma sample_array_utf8: "is_valid_utf8 (''{'' @ jlit ''a'' @ '':[{}]}'')"
  by (simp add: jlit_def valid_utf8_Cons_ascii valid_utf8_append escape_valid_utf8)

theorem strict_objects_all_or_nothing_witness:
  "\<exists>ts. strict_objects_in_array_field (''{'' @ jlit ''a'' @ '':[{}]}'') ''a'' 3 = Some ts \<and> list_all2 jtext [JObj []] ts"
  using strict_objects_all_or_nothing [OF sample_array, of "[]" "[]" "''a''" 3] sample_array_utf8
  by (simp add: is_obj_def)

end
