(* ===== verification/Command_Plan.thy ===== *)
theory Command_Plan
  imports Command_Policy Sha256 Json_Fields
begin

text \<open>
  Sealed command plans, \<^verbatim>\<open>command/environment.cpp\<close> and \<^verbatim>\<open>command/command_plan.cpp\<close>: the length-prefixed
  fields that are hashed, the child environment and its digest, the plan and its fingerprint,
  sealing and preparing a command, the freshness of a plan, and its two renderings.
\<close>

section \<open>Hashed fields\<close>

text \<open>\<^verbatim>\<open>Sha256Builder\<close>: the builder is the bytes appended so far; a field is its length in eight little-endian bytes and its bytes.\<close>

type_synonym sha256_builder = string

definition field_length :: "string \<Rightarrow> string" where
  "field_length v = map (\<lambda>i. char_of ((length v mod 2 ^ 64) div 2 ^ (i * 8) mod 256)) [0..<8]"

definition append_field :: "string \<Rightarrow> sha256_builder \<Rightarrow> sha256_builder" where
  "append_field v b = b @ field_length v @ v"

definition append_number :: "nat \<Rightarrow> sha256_builder \<Rightarrow> sha256_builder" where
  "append_number n b = append_field (int_string (int n)) b"

definition append_int :: "int \<Rightarrow> sha256_builder \<Rightarrow> sha256_builder" where
  "append_int n b = append_field (int_string n) b"

definition append_flag :: "bool \<Rightarrow> sha256_builder \<Rightarrow> sha256_builder" where
  "append_flag v b = append_field (if v then ''1'' else ''0'') b"

definition builder_hex :: "sha256_builder \<Rightarrow> string" where
  "builder_hex b = sha256_hex b"

definition append_all :: "('a \<Rightarrow> sha256_builder \<Rightarrow> sha256_builder) \<Rightarrow> 'a list \<Rightarrow> sha256_builder \<Rightarrow> sha256_builder" where
  "append_all f xs b = foldl (\<lambda>b x. f x b) b xs"

definition append_ancestor :: "path_ancestor_metadata \<Rightarrow> sha256_builder \<Rightarrow> sha256_builder" where
  "append_ancestor a b =
     (let b1 = append_number (anc_group a) (append_number (anc_owner a) (append_number (anc_mode a)
                 (append_number (anc_inode a) (append_number (anc_device a) (append_field (anc_path a) b)))));
          b2 = (if anc_identity_bound a then
                  append_int (anc_changed_nanoseconds a) (append_int (anc_changed_seconds a) (append_number (anc_link_count a) b1))
                else b1) in
      append_flag (anc_identity_bound a) (append_flag (anc_is_symlink a) b2))"

definition append_path_metadata :: "path_metadata \<Rightarrow> sha256_builder \<Rightarrow> sha256_builder" where
  "append_path_metadata md b =
     (let b1 = append_int (md_changed_nanoseconds md) (append_int (md_changed_seconds md) (append_number (md_link_count md)
                 (append_number (md_group md) (append_number (md_owner md) (append_number (md_size md) (append_number (md_mode md)
                 (append_number (md_inode md) (append_number (md_device md) (append_field (canonical_path md)
                 (append_field (requested_path md) b))))))))));
          b2 = append_int (requested_changed_nanoseconds md) (append_int (requested_changed_seconds md)
                 (append_number (requested_link_count md) (append_number (requested_group md) (append_number (requested_owner md)
                 (append_number (requested_mode md) (append_number (requested_inode md) (append_number (requested_device md)
                 (append_flag (requested_path_is_symlink md) b1)))))))) in
      append_all append_ancestor (ancestor_metadata md) (append_number (length (ancestor_metadata md)) b2))"

definition root_list :: "synthetic_environment_roots \<Rightarrow> path_metadata list" where
  "root_list r = [root_home r, root_xdg_config_home r, root_xdg_cache_home r, root_xdg_data_home r, root_xdg_state_home r, root_tmpdir r]"

definition append_synthetic_environment_roots :: "synthetic_environment_roots \<Rightarrow> sha256_builder \<Rightarrow> sha256_builder" where
  "append_synthetic_environment_roots roots b = append_all append_path_metadata (root_list roots) b"

section \<open>The child environment\<close>

type_synonym environment_variable = "string \<times> string"

record command_environment =
  env_profile_id :: string
  env_digest :: string
  env_entries :: "environment_variable list"
  env_roots :: synthetic_environment_roots

definition environment_fields :: "string \<Rightarrow> environment_variable list \<Rightarrow> sha256_builder" where
  "environment_fields profile_id entries =
     append_all (\<lambda>(key, v) b. append_field v (append_field key b)) entries
       (append_number (length entries) (append_field profile_id (append_field ''ava-command-environment-v3'' [])))"

definition environment_digest :: "string \<Rightarrow> environment_variable list \<Rightarrow> string" where
  "environment_digest profile_id entries = ''sha256:ava-command-environment-v3:'' @ builder_hex (environment_fields profile_id entries)"

definition validate_sealed_environment_root :: "host \<Rightarrow> path_metadata \<Rightarrow> string \<Rightarrow> command_limits \<Rightarrow> anchor list option \<Rightarrow> unit io" where
  "validate_sealed_environment_root h root name limits anchor_set =
     (if canonical_path root = [] \<or> \<not> is_absolute (canonical_path root) \<or> has_forbidden_path_byte (canonical_path root)
         \<or> length (canonical_path root) > max_path_bytes limits then
        io_fail (command_error InvalidArgument (name @ '' is not a bounded canonical synthetic environment path'') ''path'' (canonical_path root))
      else
        io_bind (path_metadata_is_fresh h root anchor_set) (\<lambda>fresh.
          if \<not> fresh then io_fail (command_error Io (name @ '' changed during environment construction'') ''path'' (requested_path root))
          else io_return ()))"

fun join_path :: "host \<Rightarrow> path_metadata \<Rightarrow> command_limits \<Rightarrow> anchor list option \<Rightarrow> string \<Rightarrow> command_path_entry list \<Rightarrow> string io" where
  "join_path h trusted_home limits anchor_set result [] = io_return result"
| "join_path h trusted_home limits anchor_set result (entry # rest) =
     (let directory = pe_directory entry in
      if directory = [] \<or> \<not> is_absolute directory \<or> CHR '':'' \<in> set directory \<or> has_forbidden_path_byte directory
         \<or> \<not> path_eq (canonical_path (pe_metadata entry)) directory then
        io_fail (command_error InvalidArgument ''sealed PATH entry is not safely representable'' ''path'' directory)
      else
        io_bind (if is_sealed_user_tool_path (requested_path (pe_metadata entry)) trusted_home
                 then user_tool_path_metadata_is_fresh h (pe_metadata entry) trusted_home anchor_set
                 else path_metadata_is_fresh h (pe_metadata entry) anchor_set) (\<lambda>fresh.
          if \<not> fresh then io_fail (command_error Io ''sealed PATH entry changed during environment construction'' ''path'' directory)
          else
            let separator = (if result = [] then 0 else 1) in
            if length result > max_path_bytes limits \<or> separator > max_path_bytes limits - length result
               \<or> length directory > max_path_bytes limits - length result - separator then
              io_fail (invalid_command ''derived PATH exceeds the bounded safe representation'')
            else join_path h trusted_home limits anchor_set ((if separator \<noteq> 0 then result @ '':'' else result) @ directory) rest))"

definition safe_profile_id :: "string \<Rightarrow> bool" where
  "safe_profile_id p \<longleftrightarrow> \<not> (p = [] \<or> length p > 128 \<or> has_c0_or_del p
     \<or> \<not> list_all (\<lambda>ch. isalnum ch \<or> ch = CHR ''-'' \<or> ch = CHR ''_'' \<or> ch = CHR ''.'') p)"

definition environment_entries :: "command_environment_options \<Rightarrow> string \<Rightarrow> string \<Rightarrow> synthetic_environment_roots \<Rightarrow> environment_variable list" where
  "environment_entries options logical_cwd path roots =
     [(''LANG'', ''C.UTF-8''), (''LC_ALL'', ''C.UTF-8''), (''LC_CTYPE'', ''C.UTF-8''), (''TZ'', ''UTC''),
      (''USER'', eo_user options), (''LOGNAME'', eo_logname options), (''PWD'', logical_cwd), (''PATH'', path),
      (''HOME'', canonical_path (root_home roots)), (''XDG_CONFIG_HOME'', canonical_path (root_xdg_config_home roots)),
      (''XDG_CACHE_HOME'', canonical_path (root_xdg_cache_home roots)), (''XDG_DATA_HOME'', canonical_path (root_xdg_data_home roots)),
      (''XDG_STATE_HOME'', canonical_path (root_xdg_state_home roots)), (''TMPDIR'', canonical_path (root_tmpdir roots))]"

fun validate_environment_roots :: "host \<Rightarrow> command_limits \<Rightarrow> anchor list option \<Rightarrow> (string \<times> path_metadata) list \<Rightarrow> unit io" where
  "validate_environment_roots h limits anchor_set [] = io_return ()"
| "validate_environment_roots h limits anchor_set ((name, root) # rest) =
     io_bind (validate_sealed_environment_root h root name limits anchor_set) (\<lambda>_. validate_environment_roots h limits anchor_set rest)"

definition environment_make ::
  "host \<Rightarrow> command_environment_options \<Rightarrow> command_path_entry list \<Rightarrow> string \<Rightarrow> path_metadata \<Rightarrow> synthetic_environment_roots \<Rightarrow> command_limits
    \<Rightarrow> anchor list option \<Rightarrow> command_environment io" where
  "environment_make h options path_entries logical_cwd trusted_home roots limits anchor_set =
     io_bind (Some (validate_limits limits)) (\<lambda>_.
     if logical_cwd = [] \<or> \<not> is_absolute logical_cwd \<or> length logical_cwd > max_path_bytes limits \<or> has_forbidden_path_byte logical_cwd then
       io_fail (invalid_command ''logical child PWD must be a bounded absolute path'')
     else if \<not> safe_profile_id (eo_profile_id options) then
       io_fail (invalid_command ''environment profile id must be a bounded safe identifier'')
     else if list_ex (\<lambda>v. v = [] \<or> length v > max_argument_bytes limits \<or> has_c0_or_del v) [eo_user options, eo_logname options] then
       io_fail (invalid_command ''USER and LOGNAME must be bounded safe values'')
     else
     io_bind (trusted_home_metadata_is_fresh h trusted_home anchor_set) (\<lambda>home_fresh.
     if \<not> home_fresh then io_fail (command_error Io ''sealed trusted home changed during environment construction'' [] [])
     else
     io_bind (validate_environment_roots h limits anchor_set
       (zip [''HOME'', ''XDG_CONFIG_HOME'', ''XDG_CACHE_HOME'', ''XDG_DATA_HOME'', ''XDG_STATE_HOME'', ''TMPDIR''] (root_list roots))) (\<lambda>_.
     io_bind (join_path h trusted_home limits anchor_set [] path_entries) (\<lambda>path.
       let entries = environment_entries options logical_cwd path roots in
       io_return \<lparr>env_profile_id = eo_profile_id options, env_digest = environment_digest (eo_profile_id options) entries,
                  env_entries = entries, env_roots = roots\<rparr>))))"

section \<open>Plans\<close>

record command_plan =
  cp_intent_lane :: command_intent_lane
  cp_execution_domain :: command_execution_domain
  cp_workspace :: string
  cp_cwd :: string
  cp_workspace_metadata :: path_metadata
  cp_cwd_metadata :: path_metadata
  cp_anchor_set :: "anchor list option"
  cp_trusted_home_metadata :: path_metadata
  cp_ava_authority_roots :: "string list"
  cp_ava_authority_root_metadata :: "path_metadata list"
  cp_synthetic_environment_roots :: synthetic_environment_roots
  cp_plan_argv :: "string list"
  cp_raw_shell_text :: string
  cp_path_entries :: "command_path_entry list"
  cp_resolved_executable :: "resolved_executable option"
  cp_classification :: command_classification
  cp_environment_profile_id :: string
  cp_environment_digest :: string
  cp_fingerprint :: string

definition append_path_entry :: "command_path_entry \<Rightarrow> sha256_builder \<Rightarrow> sha256_builder" where
  "append_path_entry entry b =
     append_path_metadata (pe_metadata entry) (append_field (provenance_to_string (pe_provenance entry)) (append_field (pe_directory entry) b))"

definition append_interpreter :: "shebang_interpreter \<Rightarrow> sha256_builder \<Rightarrow> sha256_builder" where
  "append_interpreter i b =
     append_field (if si_resolved_via_env i then ''env-target'' else ''direct-interpreter'')
       (append_field (si_argument i) (append_path_metadata (si_interpreter i) b))"

definition append_resolved :: "resolved_executable option \<Rightarrow> sha256_builder \<Rightarrow> sha256_builder" where
  "append_resolved r b =
     (case r of
        None \<Rightarrow> append_field ''unresolved'' b
      | Some e \<Rightarrow>
          append_all append_interpreter (re_shebang_interpreters e)
            (append_number (length (re_shebang_interpreters e))
            (append_field (if re_shebang_fully_resolved e then ''resolved'' else ''partial'')
            (append_field (origin_to_string (re_origin e))
            (append_path_metadata (re_executable e) (append_field ''resolved'' b))))))"

definition append_capabilities :: "command_capabilities \<Rightarrow> sha256_builder \<Rightarrow> sha256_builder" where
  "append_capabilities c b =
     append_all append_flag
       [executes_mutable_project_code c, requires_containment c, network_enabled c, mutates_workspace c, destructive_or_privileged c,
        interpreter_inline c, unknown_wrapper c, raw_shell_capability c] b"

definition append_recipe :: "recipe_descriptor option \<Rightarrow> sha256_builder \<Rightarrow> sha256_builder" where
  "append_recipe r b =
     (case r of
        None \<Rightarrow> append_field ''none'' b
      | Some d \<Rightarrow>
          append_all append_path_metadata (rd_path_arguments d) (append_number (length (rd_path_arguments d))
            (append_all append_field (rd_canonical_argv d) (append_number (length (rd_canonical_argv d))
            (append_field (recipe_to_string (rd_recipe d)) b)))))"

definition append_classification :: "command_classification \<Rightarrow> sha256_builder \<Rightarrow> sha256_builder" where
  "append_classification c b =
     append_recipe (cc_recipe c) (append_capabilities (cc_capabilities c) (append_flag (cc_ask_candidate c)
       (append_field (scope_to_string (cc_max_interactive_scope c)) (append_field (family_to_string (cc_family c))
       (append_field (level_to_string (cc_level c)) b)))))"

definition fingerprint_head :: "command_plan \<Rightarrow> sha256_builder" where
  "fingerprint_head p =
     append_path_metadata (cp_trusted_home_metadata p) (append_path_metadata (cp_cwd_metadata p) (append_field (cp_cwd p)
       (append_path_metadata (cp_workspace_metadata p) (append_field (cp_workspace p)
       (append_field (domain_to_string (cp_execution_domain p)) (append_field (lane_to_string (cp_intent_lane p))
       (append_field ''ava-command-plan-v5'' [])))))))"

definition fingerprint_authority :: "command_plan \<Rightarrow> sha256_builder \<Rightarrow> sha256_builder" where
  "fingerprint_authority p b =
     append_synthetic_environment_roots (cp_synthetic_environment_roots p)
       (append_all append_path_metadata (cp_ava_authority_root_metadata p) (append_number (length (cp_ava_authority_root_metadata p))
       (append_all append_field (cp_ava_authority_roots p) (append_number (length (cp_ava_authority_roots p)) b))))"

definition fingerprint_fields :: "command_plan \<Rightarrow> sha256_builder" where
  "fingerprint_fields p =
     append_field (cp_environment_digest p) (append_field (cp_environment_profile_id p)
       (append_classification (cp_classification p) (append_resolved (cp_resolved_executable p)
       (append_all append_path_entry (cp_path_entries p) (append_number (length (cp_path_entries p))
       (append_field (cp_raw_shell_text p) (append_all append_field (cp_plan_argv p) (append_number (length (cp_plan_argv p))
       (fingerprint_authority p (fingerprint_head p))))))))))"

definition compute_fingerprint :: "command_plan \<Rightarrow> string" where
  "compute_fingerprint p = ''sha256:ava-command-plan-v5:'' @ builder_hex (fingerprint_fields p)"

definition paths_overlap :: "string \<Rightarrow> string \<Rightarrow> bool" where
  "paths_overlap first second =
     (if \<not> is_absolute first \<or> \<not> is_absolute second then False
      else
        let normalized_first = lexically_normal first; normalized_second = lexically_normal second;
            first_relative = lexically_relative normalized_first normalized_second in
        if path_eq normalized_first normalized_second \<or> first_relative \<noteq> [] \<and> hd (path_parts first_relative) \<noteq> ''..'' then True
        else
          let second_relative = lexically_relative normalized_second normalized_first in
          second_relative \<noteq> [] \<and> hd (path_parts second_relative) \<noteq> ''..'')"

definition metadata_overlaps_authority :: "string list \<Rightarrow> executable_metadata \<Rightarrow> bool" where
  "metadata_overlaps_authority authority_roots md =
     list_ex (\<lambda>authority. paths_overlap (requested_path md) authority \<or> paths_overlap (canonical_path md) authority) authority_roots"

definition executable_overlaps_authority :: "resolved_executable \<Rightarrow> string list \<Rightarrow> bool" where
  "executable_overlaps_authority executable authority_roots \<longleftrightarrow>
     metadata_overlaps_authority authority_roots (re_executable executable)
     \<or> list_ex (\<lambda>i. metadata_overlaps_authority authority_roots (si_interpreter i)) (re_shebang_interpreters executable)"

section \<open>Sealing and preparing\<close>

definition sealed_plan ::
  "command_intent \<Rightarrow> command_build_options \<Rightarrow> sealed_command_context \<Rightarrow> command_environment \<Rightarrow> command_execution_domain \<Rightarrow> string list \<Rightarrow> string
    \<Rightarrow> resolved_executable \<Rightarrow> command_classification \<Rightarrow> command_plan" where
  "sealed_plan intent options context environment domain argv shell_text executable classification =
     (let plan =
        \<lparr>cp_intent_lane = ci_lane intent, cp_execution_domain = domain, cp_workspace = sc_workspace context, cp_cwd = sc_cwd context,
         cp_workspace_metadata = sc_workspace_metadata context, cp_cwd_metadata = sc_cwd_metadata context,
         cp_anchor_set = bo_anchor_set options, cp_trusted_home_metadata = sc_trusted_home_metadata context,
         cp_ava_authority_roots = sc_ava_authority_roots context, cp_ava_authority_root_metadata = sc_ava_authority_root_metadata context,
         cp_synthetic_environment_roots = sc_synthetic_environment_roots context, cp_plan_argv = argv, cp_raw_shell_text = shell_text,
         cp_path_entries = sc_path_entries context, cp_resolved_executable = Some executable, cp_classification = classification,
         cp_environment_profile_id = env_profile_id environment, cp_environment_digest = env_digest environment, cp_fingerprint = []\<rparr> in
      plan\<lparr>cp_fingerprint := compute_fingerprint plan\<rparr>)"

definition seal_raw_shell ::
  "host \<Rightarrow> command_intent \<Rightarrow> command_build_options \<Rightarrow> sealed_command_context \<Rightarrow> command_environment \<Rightarrow> command_plan io" where
  "seal_raw_shell h intent options context environment =
     (if bo_shell options = [] \<or> \<not> is_absolute (bo_shell options) then
        io_fail (command_error InvalidArgument ''raw-shell plans require an absolute configured shell executable'' ''shell'' (bo_shell options))
      else
        io_bind (resolve_executable h [bo_shell options] (sc_path_entries context) (sc_cwd context) (sc_workspace context)
                   (bo_trusted_home options) (bo_limits options) (bo_anchor_set options)) (\<lambda>shell.
          if executable_overlaps_authority shell (sc_ava_authority_roots context) then
            io_fail (command_error PermissionDenied ''raw-shell executable authority must remain disjoint from AVA authority roots'' [] [])
          else
            io_return (sealed_plan intent options context environment RawShellDomain [] (ci_source_text intent) shell (classify_raw_shell shell))))"

definition seal_direct ::
  "host \<Rightarrow> command_intent \<Rightarrow> command_build_options \<Rightarrow> sealed_command_context \<Rightarrow> command_environment \<Rightarrow> command_plan io" where
  "seal_direct h intent options context environment =
     io_bind (resolve_executable h (ci_argv intent) (sc_path_entries context) (sc_cwd context) (sc_workspace context)
                (bo_trusted_home options) (bo_limits options) (bo_anchor_set options)) (\<lambda>resolved.
       if executable_overlaps_authority resolved (sc_ava_authority_roots context) then
         io_fail (command_error PermissionDenied ''command executable authority must remain disjoint from AVA authority roots'' [] [])
       else
         (case classify_command h (ci_argv intent) resolved (sc_cwd context) (sc_workspace context) (bo_workspace_script_recipes options)
                 (bo_anchor_set options) of
            None \<Rightarrow> None
          | Some classification \<Rightarrow>
              io_return (sealed_plan intent options context environment DirectArgv (ci_argv intent) [] resolved classification)))"

definition seal_command_plan :: "host \<Rightarrow> command_intent \<Rightarrow> command_build_options \<Rightarrow> command_plan io" where
  "seal_command_plan h intent options =
     io_bind (Some (validate_limits (bo_limits options))) (\<lambda>_.
     io_bind (Some (if ci_lane intent = RawShellLane then validate_raw_shell (ci_source_text intent) (bo_limits options)
                    else validate_structured_argv (ci_argv intent) (bo_limits options))) (\<lambda>_.
     io_bind (discover_command_context h intent options) (\<lambda>context.
     io_bind (environment_make h (bo_environment options) (sc_path_entries context) (sc_cwd context) (sc_trusted_home_metadata context)
                (sc_synthetic_environment_roots context) (bo_limits options) (bo_anchor_set options)) (\<lambda>environment.
       if ci_lane intent = RawShellLane then seal_raw_shell h intent options context environment
       else seal_direct h intent options context environment))))"

definition validate_environment_matches_plan :: "command_environment \<Rightarrow> command_plan \<Rightarrow> unit ava_result" where
  "validate_environment_matches_plan environment plan =
     (if env_profile_id environment \<noteq> cp_environment_profile_id plan \<or> env_digest environment \<noteq> cp_environment_digest plan
         \<or> \<not> roots_equal (env_roots environment) (cp_synthetic_environment_roots plan) then
        Inl (command_error PermissionDenied ''prepared command environment does not match the sealed plan environment digest'' [] [])
      else Inr ())"

text \<open>Preparation builds the environment a second time; \<open>h2\<close> is the host at that moment.\<close>

definition prepare_command :: "host \<Rightarrow> host \<Rightarrow> command_intent \<Rightarrow> command_build_options \<Rightarrow> (command_plan \<times> command_environment) io" where
  "prepare_command h h2 intent options =
     io_bind (seal_command_plan h intent options) (\<lambda>plan.
     io_bind (environment_make h2 (bo_environment options) (cp_path_entries plan) (cp_cwd plan) (cp_trusted_home_metadata plan)
                (cp_synthetic_environment_roots plan) (bo_limits options) (cp_anchor_set plan)) (\<lambda>environment.
     io_bind (Some (validate_environment_matches_plan environment plan)) (\<lambda>_. io_return (plan, environment))))"

section \<open>Freshness of a plan\<close>

definition fresh_user_tool_or_strict_path :: "host \<Rightarrow> path_metadata \<Rightarrow> path_metadata \<Rightarrow> anchor list option \<Rightarrow> bool io" where
  "fresh_user_tool_or_strict_path h md trusted_home anchor_set =
     (if \<not> is_sealed_user_tool_path (requested_path md) trusted_home then path_metadata_is_fresh h md anchor_set
      else user_tool_path_metadata_is_fresh h md trusted_home anchor_set)"

definition fresh_user_tool_or_strict_executable :: "host \<Rightarrow> executable_metadata \<Rightarrow> path_metadata \<Rightarrow> anchor list option \<Rightarrow> bool io" where
  "fresh_user_tool_or_strict_executable h md trusted_home anchor_set =
     (if \<not> is_sealed_user_tool_path (requested_path md) trusted_home then executable_metadata_is_fresh h md anchor_set
      else user_tool_executable_metadata_is_fresh h md trusted_home anchor_set)"

text \<open>One check after the other; the first error or stale answer ends it.\<close>

fun all_fresh :: "('a \<Rightarrow> bool io) \<Rightarrow> 'a list \<Rightarrow> bool io" where
  "all_fresh f [] = io_return True"
| "all_fresh f (x # xs) = io_bind (f x) (\<lambda>fresh. if \<not> fresh then io_return False else all_fresh f xs)"

definition and_fresh :: "bool io \<Rightarrow> bool io \<Rightarrow> bool io" where
  "and_fresh a b = io_bind a (\<lambda>fresh. if \<not> fresh then io_return False else b)"

definition authority_root_absent :: "host \<Rightarrow> path_metadata list \<Rightarrow> string \<Rightarrow> bool io" where
  "authority_root_absent h captured root =
     (if list_ex (\<lambda>md. path_eq (requested_path md) root) captured then io_return True
      else
        (case h_symlink_found h root of
           Inl n \<Rightarrow> if n = ENOENT then io_return True
                   else io_fail (command_error Io ''failed to revalidate an absent AVA authority root'' [] [])
         | Inr found \<Rightarrow> io_return (\<not> found)))"

definition synthetic_root_fresh :: "host \<Rightarrow> command_plan \<Rightarrow> path_metadata \<Rightarrow> bool io" where
  "synthetic_root_fresh h p root =
     io_bind (path_metadata_is_fresh h root (cp_anchor_set p)) (\<lambda>fresh.
       io_return (fresh \<and> \<not> (paths_overlap (canonical_path root) (canonical_path (cp_workspace_metadata p))
                                \<or> paths_overlap (canonical_path root) (canonical_path (cp_trusted_home_metadata p)))))"

definition plan_is_fresh :: "host \<Rightarrow> command_plan \<Rightarrow> bool io" where
  "plan_is_fresh h p =
     (let home = cp_trusted_home_metadata p; anchor_set = cp_anchor_set p;
          executables = (case cp_resolved_executable p of
                           None \<Rightarrow> []
                         | Some e \<Rightarrow> re_executable e # map si_interpreter (re_shebang_interpreters e));
          recipe_paths = (case cc_recipe (cp_classification p) of None \<Rightarrow> [] | Some r \<Rightarrow> rd_path_arguments r) in
      and_fresh (all_fresh (\<lambda>md. fresh_user_tool_or_strict_executable h md home anchor_set) executables)
      (and_fresh (all_fresh (\<lambda>md. path_metadata_is_fresh h md anchor_set) [cp_workspace_metadata p, cp_cwd_metadata p])
      (and_fresh (trusted_home_metadata_is_fresh h home anchor_set)
      (and_fresh (all_fresh (\<lambda>md. path_metadata_is_fresh h md anchor_set) (cp_ava_authority_root_metadata p))
      (and_fresh (all_fresh (authority_root_absent h (cp_ava_authority_root_metadata p)) (cp_ava_authority_roots p))
      (and_fresh (all_fresh (synthetic_root_fresh h p) (root_list (cp_synthetic_environment_roots p)))
      (and_fresh (all_fresh (\<lambda>entry. fresh_user_tool_or_strict_path h (pe_metadata entry) home anchor_set) (cp_path_entries p))
      (all_fresh (\<lambda>md. path_metadata_is_fresh h md anchor_set) recipe_paths))))))))"

section \<open>Renderings\<close>

definition plan_json_escape :: "string \<Rightarrow> string" where
  "plan_json_escape v =
     concat (map (\<lambda>ch.
       if ch = dquote then [bslash, dquote]
       else if ch = bslash then [bslash, bslash]
       else if ch = CHR 0x08 then bslash # ''b''
       else if ch = CHR 0x0C then bslash # ''f''
       else if ch = CHR 0x0A then bslash # ''n''
       else if ch = CHR 0x0D then bslash # ''r''
       else if ch = CHR 0x09 then bslash # ''t''
       else if byte ch < 0x20 then bslash # ''u00'' @ [hex_digits ! (byte ch div 16), hex_digits ! (byte ch mod 16)]
       else [ch]) v)"

definition json_text :: "string \<Rightarrow> string" where
  "json_text v = dquote # plan_json_escape v @ [dquote]"

definition json_plain :: "string \<Rightarrow> string" where
  "json_plain v = dquote # v @ [dquote]"

definition json_member :: "string \<Rightarrow> string \<Rightarrow> string" where
  "json_member key v = json_plain key @ '':'' @ v"

fun join_comma :: "string list \<Rightarrow> string" where
  "join_comma [] = []"
| "join_comma [v] = v"
| "join_comma (v # vs) = v @ '','' @ join_comma vs"

definition display_json :: "command_plan \<Rightarrow> string" where
  "display_json p =
     ''{'' @ join_comma
       ([json_member ''fingerprint'' (json_text (cp_fingerprint p)),
         json_member ''intent_lane'' (json_plain (lane_to_string (cp_intent_lane p))),
         json_member ''execution_domain'' (json_plain (domain_to_string (cp_execution_domain p))),
         json_member ''workspace'' (json_text (cp_workspace p)),
         json_member ''cwd'' (json_text (cp_cwd p)),
         json_member ''environment_profile_id'' (json_text (cp_environment_profile_id p)),
         json_member ''environment_digest'' (json_text (cp_environment_digest p)),
         json_member ''level'' (json_plain (level_to_string (cc_level (cp_classification p)))),
         json_member ''family'' (json_plain (family_to_string (cc_family (cp_classification p)))),
         json_member ''argv'' (''['' @ join_comma (map json_text (cp_plan_argv p)) @ '']'')]
        @ (if cp_raw_shell_text p \<noteq> [] then [json_member ''raw_shell'' (json_text (cp_raw_shell_text p))] else [])) @ ''}''"

definition redacted_summary :: "command_plan \<Rightarrow> string" where
  "redacted_summary p =
     ''{'' @ join_comma
       [json_member ''fingerprint'' (json_text (cp_fingerprint p)),
        json_member ''intent_lane'' (json_plain (lane_to_string (cp_intent_lane p))),
        json_member ''execution_domain'' (json_plain (domain_to_string (cp_execution_domain p))),
        json_member ''level'' (json_plain (level_to_string (cc_level (cp_classification p)))),
        json_member ''family'' (json_plain (family_to_string (cc_family (cp_classification p)))),
        json_member ''resolved_executable'' (if cp_resolved_executable p \<noteq> None then ''true'' else ''false'')] @ ''}''"

definition command_mode_is_enabled :: "command_runtime_mode \<Rightarrow> bool" where
  "command_mode_is_enabled m \<longleftrightarrow> m = Enabled"

definition command_mode_is_prompt_only :: "command_runtime_mode \<Rightarrow> bool" where
  "command_mode_is_prompt_only m \<longleftrightarrow> m = PromptOnly"

end
