(* ===== verification/Plan_Fingerprint.thy ===== *)
theory Plan_Fingerprint
  imports Command_Plan
begin

text \<open>
  What the fingerprint of a plan binds. Everything that is hashed is a list of length-prefixed
  fields; the fields of a plan determine its sealed content. The contract of an encoder, that
  its fields can be cut off the front of any continuation, is the locale \<open>field_code\<close>; it is
  interpreted on the encoders of ancestors, metadata, search path entries and interpreters.
\<close>

section \<open>Bytes and fields\<close>

definition field_bytes :: "string \<Rightarrow> string" where
  "field_bytes v = field_length v @ v"

definition fields_bytes :: "string list \<Rightarrow> string" where
  "fields_bytes vs = concat (map field_bytes vs)"

lemma fields_bytes_simps [simp]:
  "fields_bytes [] = []" "fields_bytes (v # vs) = field_bytes v @ fields_bytes vs"
  "fields_bytes (vs @ ws) = fields_bytes vs @ fields_bytes ws"
  by (simp_all add: fields_bytes_def)

lemma field_length_eight [simp]: "length (field_length v) = 8"
  by (simp add: field_length_def)

lemma field_bytes_nonempty [simp]: "field_bytes v \<noteq> []"
proof
  assume "field_bytes v = []"
  then have "length (field_bytes v) = 0" by simp
  then show False by (simp add: field_bytes_def)
qed

lemma little_endian_inject:
  assumes "\<And>i. i < k \<Longrightarrow> m div 2 ^ (i * 8) mod 256 = n div 2 ^ (i * 8) mod (256 :: nat)"
  shows "m mod 2 ^ (k * 8) = n mod 2 ^ (k * 8)"
  using assms
proof (induction k)
  case (Suc k)
  have split: "x mod 2 ^ (Suc k * 8) = 2 ^ (k * 8) * (x div 2 ^ (k * 8) mod 256) + x mod 2 ^ (k * 8)" for x :: nat
    using mod_mult2_eq [of x "2 ^ (k * 8)" 256] by (simp add: power_add mult.commute)
  show ?case unfolding split using Suc.IH Suc.prems by simp
qed simp

lemma field_length_inject:
  assumes "field_length v = field_length w" "length v < 2 ^ 64" "length w < 2 ^ 64"
  shows "length v = length w"
proof -
  have "length v div 2 ^ (i * 8) mod 256 = length w div 2 ^ (i * 8) mod 256" if "i < 8" for i
  proof -
    have "field_length v ! i = field_length w ! i" using assms(1) by simp
    then have "char_of (length v div 2 ^ (i * 8) mod 256) = (char_of (length w div 2 ^ (i * 8) mod 256) :: char)"
      using that assms(2,3) by (simp add: field_length_def)
    then show ?thesis by (metis of_char_of mod_mod_trivial)
  qed
  from little_endian_inject [of 8, OF this] show ?thesis using assms(2,3) by simp
qed

lemma field_bytes_cancel:
  assumes "field_bytes v @ t = field_bytes w @ u" "length v < 2 ^ 64" "length w < 2 ^ 64"
  shows "v = w \<and> t = u"
proof -
  have "field_length v = field_length w" "v @ t = w @ u"
    using assms(1) by (auto simp: field_bytes_def append_eq_append_conv)
  with field_length_inject [OF _ assms(2,3)] show ?thesis by simp
qed

lemma fields_bytes_inject:
  assumes "fields_bytes vs = fields_bytes ws" "length (fields_bytes vs) < 2 ^ 64"
  shows "vs = ws"
  using assms
proof (induction vs arbitrary: ws)
  case Nil
  then show ?case by (cases ws) simp_all
next
  case (Cons v vs)
  then obtain w ws' where ws: "ws = w # ws'" by (cases ws) auto
  have "length (fields_bytes ws) < 2 ^ 64" using Cons.prems by simp
  then have "length v < 2 ^ 64" "length w < 2 ^ 64"
    using Cons.prems(2) by (simp_all add: ws field_bytes_def)
  with Cons.prems(1) have "v = w" "fields_bytes vs = fields_bytes ws'"
    using field_bytes_cancel [of v "fields_bytes vs" w "fields_bytes ws'"] by (simp_all add: ws)
  moreover from this have "vs = ws'" using Cons.IH Cons.prems(2) by (simp add: field_bytes_def)
  ultimately show ?case by (simp add: ws)
qed

section \<open>Numbers\<close>

lemma decimal_inject: "decimal m = decimal n \<longleftrightarrow> m = n"
  by (metis decimal_value_decimal)

lemma decimal_no_sign: "decimal n \<noteq> CHR ''-'' # ds"
  using decimal_digits [of n] by (auto simp: jdigits_def isdigit_def)

lemma int_string_inject [simp]: "int_string m = int_string n \<longleftrightarrow> m = n"
  by (auto simp: int_string_def decimal_inject decimal_no_sign decimal_no_sign [symmetric])

lemma int_string_zero [simp]: "int_string 0 = ''0''"
  by code_simp

section \<open>Encoders\<close>

text \<open>
  \<open>code x\<close> are the fields of \<open>x\<close>, \<open>norm x\<close> is the part of \<open>x\<close> they depend on, and \<open>ok\<close> holds of the
  values that are encoded.
\<close>

locale field_code =
  fixes code :: "'a \<Rightarrow> string list" and norm :: "'a \<Rightarrow> 'b" and ok :: "'a \<Rightarrow> bool"
  assumes cancel: "ok x \<Longrightarrow> ok y \<Longrightarrow> code x @ u = code y @ v \<longleftrightarrow> norm x = norm y \<and> u = v"
begin

definition counted :: "'a list \<Rightarrow> string list" where
  "counted xs = int_string (int (length xs)) # concat (map code xs)"

lemma many_cancel:
  "list_all ok xs \<Longrightarrow> list_all ok ys \<Longrightarrow> length xs = length ys \<Longrightarrow>
   concat (map code xs) @ u = concat (map code ys) @ v \<longleftrightarrow> map norm xs = map norm ys \<and> u = v"
proof (induction xs arbitrary: ys)
  case (Cons x xs)
  then obtain y ys' where ys: "ys = y # ys'" by (cases ys) auto
  with Cons show ?case by (simp add: cancel)
qed simp

lemma counted_cancel:
  assumes "list_all ok xs" "list_all ok ys"
  shows "counted xs @ u = counted ys @ v \<longleftrightarrow> map norm xs = map norm ys \<and> u = v"
proof (cases "length xs = length ys")
  case True
  with many_cancel [OF assms True, of u v] show ?thesis by (simp add: counted_def)
next
  case False
  then have "map norm xs \<noteq> map norm ys" by (metis length_map)
  with False show ?thesis by (simp add: counted_def)
qed

end

definition flag_field :: "bool \<Rightarrow> string" where
  "flag_field b = (if b then ''1'' else ''0'')"

lemma flag_field_inject [simp]: "flag_field a = flag_field b \<longleftrightarrow> a = b"
  by (simp add: flag_field_def)

interpretation text_code: field_code "\<lambda>v. [v]" "\<lambda>v. v" "\<lambda>_. True"
  by unfold_locales simp

subsection \<open>Ancestors\<close>

text \<open>
  The fields of an ancestor are unambiguous because the link count of a bound ancestor is not
  zero, while the field in its place for an unbound one, a directory, is the symlink flag \<open>0\<close>.
\<close>

definition ancestor_fields :: "path_ancestor_metadata \<Rightarrow> string list" where
  "ancestor_fields a =
     [anc_path a, int_string (int (anc_device a)), int_string (int (anc_inode a)), int_string (int (anc_mode a)),
      int_string (int (anc_owner a)), int_string (int (anc_group a))]
     @ (if anc_identity_bound a then
          [int_string (int (anc_link_count a)), int_string (anc_changed_seconds a), int_string (anc_changed_nanoseconds a)] else [])
     @ [flag_field (anc_is_symlink a), flag_field (anc_identity_bound a)]"

definition bound_ancestor :: "path_ancestor_metadata \<Rightarrow> path_ancestor_metadata" where
  "bound_ancestor a =
     (if anc_identity_bound a then a else a\<lparr>anc_link_count := 0, anc_changed_seconds := 0, anc_changed_nanoseconds := 0\<rparr>)"

definition ancestor_ok :: "path_ancestor_metadata \<Rightarrow> bool" where
  "ancestor_ok a \<longleftrightarrow> (if anc_identity_bound a then anc_link_count a \<noteq> 0 else \<not> anc_is_symlink a)"

lemma int_string_not_zero_flag: "n \<noteq> 0 \<Longrightarrow> int_string n \<noteq> flag_field False"
  by (metis flag_field_def int_string_inject int_string_zero)

interpretation ancestor_code: field_code ancestor_fields bound_ancestor ancestor_ok
proof
  fix x y :: path_ancestor_metadata and u v
  assume ok: "ancestor_ok x" "ancestor_ok y"
  have neq: "int_string (int n) \<noteq> flag_field False" if "n \<noteq> 0" for n using that int_string_not_zero_flag by simp
  show "ancestor_fields x @ u = ancestor_fields y @ v \<longleftrightarrow> bound_ancestor x = bound_ancestor y \<and> u = v"
    using ok neq [of "anc_link_count x"] neq [of "anc_link_count y"] neq [of "anc_link_count x", symmetric] neq [of "anc_link_count y", symmetric]
    by (cases x; cases y) (auto simp: ancestor_fields_def bound_ancestor_def ancestor_ok_def split: if_splits)
qed

subsection \<open>Path metadata\<close>

definition metadata_fields :: "path_metadata \<Rightarrow> string list" where
  "metadata_fields md =
     [requested_path md, canonical_path md, int_string (int (md_device md)), int_string (int (md_inode md)), int_string (int (md_mode md)),
      int_string (int (md_size md)), int_string (int (md_owner md)), int_string (int (md_group md)), int_string (int (md_link_count md)),
      int_string (md_changed_seconds md), int_string (md_changed_nanoseconds md), flag_field (requested_path_is_symlink md),
      int_string (int (requested_device md)), int_string (int (requested_inode md)), int_string (int (requested_mode md)),
      int_string (int (requested_owner md)), int_string (int (requested_group md)), int_string (int (requested_link_count md)),
      int_string (requested_changed_seconds md), int_string (requested_changed_nanoseconds md)]
     @ ancestor_code.counted (ancestor_metadata md)"

definition bound_metadata :: "path_metadata \<Rightarrow> path_metadata" where
  "bound_metadata md = md\<lparr>ancestor_metadata := map bound_ancestor (ancestor_metadata md)\<rparr>"

definition metadata_ok :: "path_metadata \<Rightarrow> bool" where
  "metadata_ok md \<longleftrightarrow> list_all ancestor_ok (ancestor_metadata md)"

interpretation metadata_code: field_code metadata_fields bound_metadata metadata_ok
proof
  fix x y :: path_metadata and u v
  assume "metadata_ok x" "metadata_ok y"
  then have ok: "list_all ancestor_ok (ancestor_metadata x)" "list_all ancestor_ok (ancestor_metadata y)" by (simp_all add: metadata_ok_def)
  have eq: "bound_metadata x = bound_metadata y \<longleftrightarrow>
      x\<lparr>ancestor_metadata := []\<rparr> = y\<lparr>ancestor_metadata := []\<rparr> \<and>
      map bound_ancestor (ancestor_metadata x) = map bound_ancestor (ancestor_metadata y)"
    by (cases x; cases y) (auto simp: bound_metadata_def)
  show "metadata_fields x @ u = metadata_fields y @ v \<longleftrightarrow> bound_metadata x = bound_metadata y \<and> u = v"
    unfolding eq using ancestor_code.counted_cancel [OF ok, of u v]
    by (cases x; cases y) (auto simp: metadata_fields_def)
qed

subsection \<open>Search path entries, interpreters, executables\<close>

definition entry_fields :: "command_path_entry \<Rightarrow> string list" where
  "entry_fields e = [pe_directory e, provenance_to_string (pe_provenance e)] @ metadata_fields (pe_metadata e)"

definition bound_entry :: "command_path_entry \<Rightarrow> command_path_entry" where
  "bound_entry e = e\<lparr>pe_metadata := bound_metadata (pe_metadata e)\<rparr>"

definition entry_ok :: "command_path_entry \<Rightarrow> bool" where
  "entry_ok e \<longleftrightarrow> metadata_ok (pe_metadata e)"

interpretation entry_code: field_code entry_fields bound_entry entry_ok
proof
  fix x y :: command_path_entry and u v
  assume "entry_ok x" "entry_ok y"
  then show "entry_fields x @ u = entry_fields y @ v \<longleftrightarrow> bound_entry x = bound_entry y \<and> u = v"
    by (cases x; cases y) (auto simp: entry_fields_def bound_entry_def entry_ok_def metadata_code.cancel command_names)
qed

definition interpreter_fields :: "shebang_interpreter \<Rightarrow> string list" where
  "interpreter_fields i =
     metadata_fields (si_interpreter i) @ [si_argument i, if si_resolved_via_env i then ''env-target'' else ''direct-interpreter'']"

definition bound_interpreter :: "shebang_interpreter \<Rightarrow> shebang_interpreter" where
  "bound_interpreter i = i\<lparr>si_interpreter := bound_metadata (si_interpreter i)\<rparr>"

definition interpreter_ok :: "shebang_interpreter \<Rightarrow> bool" where
  "interpreter_ok i \<longleftrightarrow> metadata_ok (si_interpreter i)"

interpretation interpreter_code: field_code interpreter_fields bound_interpreter interpreter_ok
proof
  fix x y :: shebang_interpreter and u v
  assume "interpreter_ok x" "interpreter_ok y"
  then show "interpreter_fields x @ u = interpreter_fields y @ v \<longleftrightarrow> bound_interpreter x = bound_interpreter y \<and> u = v"
    by (cases x; cases y) (auto simp: interpreter_fields_def bound_interpreter_def interpreter_ok_def metadata_code.cancel split: if_splits)
qed

definition executable_fields :: "resolved_executable option \<Rightarrow> string list" where
  "executable_fields r =
     (case r of
        None \<Rightarrow> [''unresolved'']
      | Some e \<Rightarrow> [''resolved''] @ metadata_fields (re_executable e)
          @ [origin_to_string (re_origin e), if re_shebang_fully_resolved e then ''resolved'' else ''partial'']
          @ interpreter_code.counted (re_shebang_interpreters e))"

definition bound_executable :: "resolved_executable \<Rightarrow> resolved_executable" where
  "bound_executable e = e\<lparr>re_executable := bound_metadata (re_executable e),
     re_shebang_interpreters := map bound_interpreter (re_shebang_interpreters e)\<rparr>"

definition executable_ok :: "resolved_executable option \<Rightarrow> bool" where
  "executable_ok r \<longleftrightarrow> pred_option (\<lambda>e. metadata_ok (re_executable e) \<and> list_all interpreter_ok (re_shebang_interpreters e)) r"

lemma bound_executable_eq:
  "bound_executable x = bound_executable y \<longleftrightarrow>
     bound_metadata (re_executable x) = bound_metadata (re_executable y) \<and> re_origin x = re_origin y
     \<and> re_shebang_fully_resolved x = re_shebang_fully_resolved y
     \<and> map bound_interpreter (re_shebang_interpreters x) = map bound_interpreter (re_shebang_interpreters y)"
  by (cases x; cases y) (auto simp: bound_executable_def)

interpretation executable_code: field_code executable_fields "map_option bound_executable" executable_ok
proof
  fix x y :: "resolved_executable option" and u v
  assume ok: "executable_ok x" "executable_ok y"
  show "executable_fields x @ u = executable_fields y @ v \<longleftrightarrow> map_option bound_executable x = map_option bound_executable y \<and> u = v"
  proof (cases x)
    case (Some e)
    show ?thesis
    proof (cases y)
      case (Some f)
      show ?thesis using ok \<open>x = Some e\<close> Some
        by (auto simp: executable_fields_def executable_ok_def bound_executable_eq metadata_code.cancel interpreter_code.counted_cancel command_names
              split: if_splits)
    qed (simp add: executable_fields_def Some)
  qed (cases y; simp add: executable_fields_def)
qed

subsection \<open>Classifications\<close>

definition capability_fields :: "command_capabilities \<Rightarrow> string list" where
  "capability_fields c = map flag_field
     [executes_mutable_project_code c, requires_containment c, network_enabled c, mutates_workspace c, destructive_or_privileged c,
      interpreter_inline c, unknown_wrapper c, raw_shell_capability c]"

definition recipe_fields :: "recipe_descriptor option \<Rightarrow> string list" where
  "recipe_fields r =
     (case r of
        None \<Rightarrow> [''none'']
      | Some d \<Rightarrow> [recipe_to_string (rd_recipe d)] @ text_code.counted (rd_canonical_argv d) @ metadata_code.counted (rd_path_arguments d))"

definition bound_recipe :: "recipe_descriptor \<Rightarrow> recipe_descriptor" where
  "bound_recipe d = d\<lparr>rd_path_arguments := map bound_metadata (rd_path_arguments d)\<rparr>"

definition recipe_ok :: "recipe_descriptor option \<Rightarrow> bool" where
  "recipe_ok r \<longleftrightarrow> pred_option (\<lambda>d. list_all metadata_ok (rd_path_arguments d)) r"

lemma recipe_to_string_not_none: "recipe_to_string r \<noteq> ''none''"
  by (cases r) simp_all

interpretation recipe_code: field_code recipe_fields "map_option bound_recipe" recipe_ok
proof
  fix x y :: "recipe_descriptor option" and u v
  assume ok: "recipe_ok x" "recipe_ok y"
  have eq: "bound_recipe d = bound_recipe e \<longleftrightarrow> rd_recipe d = rd_recipe e \<and> rd_canonical_argv d = rd_canonical_argv e
      \<and> map bound_metadata (rd_path_arguments d) = map bound_metadata (rd_path_arguments e)" for d e
    by (cases d; cases e) (auto simp: bound_recipe_def)
  have strings: "list_all (\<lambda>_. True) xs" for xs :: "string list" by (simp add: list_all_iff)
  show "recipe_fields x @ u = recipe_fields y @ v \<longleftrightarrow> map_option bound_recipe x = map_option bound_recipe y \<and> u = v"
    using ok recipe_to_string_not_none recipe_to_string_not_none [symmetric]
    by (cases x; cases y)
      (auto simp: recipe_fields_def recipe_ok_def eq text_code.counted_cancel [OF strings strings] metadata_code.counted_cancel command_names)
qed

definition classification_fields :: "command_classification \<Rightarrow> string list" where
  "classification_fields c =
     [level_to_string (cc_level c), family_to_string (cc_family c), scope_to_string (cc_max_interactive_scope c), flag_field (cc_ask_candidate c)]
     @ capability_fields (cc_capabilities c) @ recipe_fields (cc_recipe c)"

definition bound_classification :: "command_classification \<Rightarrow> command_classification" where
  "bound_classification c = c\<lparr>cc_recipe := map_option bound_recipe (cc_recipe c)\<rparr>"

interpretation classification_code: field_code classification_fields bound_classification "\<lambda>c. recipe_ok (cc_recipe c)"
proof
  fix x y :: command_classification and u v
  assume ok: "recipe_ok (cc_recipe x)" "recipe_ok (cc_recipe y)"
  have eq: "bound_classification x = bound_classification y \<longleftrightarrow> cc_level x = cc_level y \<and> cc_family x = cc_family y
      \<and> map_option bound_recipe (cc_recipe x) = map_option bound_recipe (cc_recipe y) \<and> cc_capabilities x = cc_capabilities y
      \<and> cc_max_interactive_scope x = cc_max_interactive_scope y \<and> cc_ask_candidate x = cc_ask_candidate y"
    by (cases x; cases y) (auto simp: bound_classification_def)
  have caps: "capability_fields c @ s = capability_fields d @ t \<longleftrightarrow> c = d \<and> s = t" for c d s t
    by (cases c; cases d) (auto simp: capability_fields_def)
  show "classification_fields x @ u = classification_fields y @ v \<longleftrightarrow> bound_classification x = bound_classification y \<and> u = v"
    using ok by (auto simp: classification_fields_def eq caps recipe_code.cancel command_names)
qed

section \<open>Plans\<close>

definition environment_binding :: "command_plan \<Rightarrow> string list" where
  "environment_binding p = [cp_environment_profile_id p, cp_environment_digest p]"

definition plan_fields :: "command_plan \<Rightarrow> string list" where
  "plan_fields p =
     [''ava-command-plan-v5'', lane_to_string (cp_intent_lane p), domain_to_string (cp_execution_domain p), cp_workspace p]
     @ metadata_fields (cp_workspace_metadata p) @ [cp_cwd p] @ metadata_fields (cp_cwd_metadata p) @ metadata_fields (cp_trusted_home_metadata p)
     @ text_code.counted (cp_ava_authority_roots p) @ metadata_code.counted (cp_ava_authority_root_metadata p)
     @ concat (map metadata_fields (root_list (cp_synthetic_environment_roots p)))
     @ text_code.counted (cp_plan_argv p) @ [cp_raw_shell_text p] @ entry_code.counted (cp_path_entries p)
     @ executable_fields (cp_resolved_executable p) @ classification_fields (cp_classification p)
     @ environment_binding p"

definition bound_roots :: "synthetic_environment_roots \<Rightarrow> synthetic_environment_roots" where
  "bound_roots r = \<lparr>root_home = bound_metadata (root_home r), root_xdg_config_home = bound_metadata (root_xdg_config_home r),
     root_xdg_cache_home = bound_metadata (root_xdg_cache_home r), root_xdg_data_home = bound_metadata (root_xdg_data_home r),
     root_xdg_state_home = bound_metadata (root_xdg_state_home r), root_tmpdir = bound_metadata (root_tmpdir r)\<rparr>"

text \<open>
  The sealed content of a plan: all of it but the fingerprint itself, the handle of the anchor
  set, and the link count and change time of ancestors whose identity is not bound.
\<close>

definition sealed_content :: "command_plan \<Rightarrow> command_plan" where
  "sealed_content p = p\<lparr>cp_workspace_metadata := bound_metadata (cp_workspace_metadata p), cp_cwd_metadata := bound_metadata (cp_cwd_metadata p),
     cp_anchor_set := None, cp_trusted_home_metadata := bound_metadata (cp_trusted_home_metadata p),
     cp_ava_authority_root_metadata := map bound_metadata (cp_ava_authority_root_metadata p),
     cp_synthetic_environment_roots := bound_roots (cp_synthetic_environment_roots p), cp_path_entries := map bound_entry (cp_path_entries p),
     cp_resolved_executable := map_option bound_executable (cp_resolved_executable p),
     cp_classification := bound_classification (cp_classification p), cp_fingerprint := []\<rparr>"

definition plan_ok :: "command_plan \<Rightarrow> bool" where
  "plan_ok p \<longleftrightarrow>
     list_all metadata_ok ([cp_workspace_metadata p, cp_cwd_metadata p, cp_trusted_home_metadata p] @ cp_ava_authority_root_metadata p
       @ root_list (cp_synthetic_environment_roots p))
     \<and> list_all entry_ok (cp_path_entries p) \<and> executable_ok (cp_resolved_executable p) \<and> recipe_ok (cc_recipe (cp_classification p))"

lemma bound_roots_eq: "bound_roots r = bound_roots s \<longleftrightarrow> map bound_metadata (root_list r) = map bound_metadata (root_list s)"
  by (simp add: bound_roots_def root_list_def)

lemma sealed_content_eq:
  "sealed_content p = sealed_content q \<longleftrightarrow>
     cp_intent_lane p = cp_intent_lane q \<and> cp_execution_domain p = cp_execution_domain q \<and> cp_workspace p = cp_workspace q
     \<and> bound_metadata (cp_workspace_metadata p) = bound_metadata (cp_workspace_metadata q) \<and> cp_cwd p = cp_cwd q
     \<and> bound_metadata (cp_cwd_metadata p) = bound_metadata (cp_cwd_metadata q)
     \<and> bound_metadata (cp_trusted_home_metadata p) = bound_metadata (cp_trusted_home_metadata q)
     \<and> cp_ava_authority_roots p = cp_ava_authority_roots q
     \<and> map bound_metadata (cp_ava_authority_root_metadata p) = map bound_metadata (cp_ava_authority_root_metadata q)
     \<and> bound_roots (cp_synthetic_environment_roots p) = bound_roots (cp_synthetic_environment_roots q)
     \<and> cp_plan_argv p = cp_plan_argv q \<and> cp_raw_shell_text p = cp_raw_shell_text q
     \<and> map bound_entry (cp_path_entries p) = map bound_entry (cp_path_entries q)
     \<and> map_option bound_executable (cp_resolved_executable p) = map_option bound_executable (cp_resolved_executable q)
     \<and> bound_classification (cp_classification p) = bound_classification (cp_classification q)
     \<and> cp_environment_profile_id p = cp_environment_profile_id q \<and> cp_environment_digest p = cp_environment_digest q"
  by (cases p; cases q) (auto simp: sealed_content_def)

lemma plan_fields_eq:
  assumes "plan_ok p" "plan_ok q"
  shows "plan_fields p = plan_fields q \<longleftrightarrow> sealed_content p = sealed_content q"
proof -
  have strings: "list_all (\<lambda>_. True) xs" for xs :: "string list" by (simp add: list_all_iff)
  have roots: "length (root_list r) = length (root_list s)" for r s by (simp add: root_list_def)
  have ok: "list_all metadata_ok (root_list (cp_synthetic_environment_roots p))" "list_all metadata_ok (root_list (cp_synthetic_environment_roots q))"
    using assms by (simp_all add: plan_ok_def)
  show ?thesis
    using assms unfolding sealed_content_eq bound_roots_eq
    by (simp add: plan_fields_def plan_ok_def metadata_code.cancel text_code.counted_cancel [OF strings strings] metadata_code.counted_cancel
          metadata_code.many_cancel [OF ok roots] entry_code.counted_cancel executable_code.cancel classification_code.cancel command_names)
      (simp add: environment_binding_def)
qed

subsection \<open>The code hashes these fields\<close>

named_theorems appended

lemma append_field_bytes [appended]: "append_field v b = b @ fields_bytes [v]"
  by (simp add: append_field_def field_bytes_def)

lemma append_number_bytes [appended]: "append_number n b = b @ fields_bytes [int_string (int n)]"
  by (simp add: append_number_def append_field_bytes)

lemma append_int_bytes [appended]: "append_int n b = b @ fields_bytes [int_string n]"
  by (simp add: append_int_def append_field_bytes)

lemma append_flag_bytes [appended]: "append_flag f b = b @ fields_bytes [flag_field f]"
  by (simp add: append_flag_def append_field_bytes flag_field_def)

lemma append_all_bytes:
  "(\<And>x b. f x b = b @ fields_bytes (code x)) \<Longrightarrow> append_all f xs b = b @ fields_bytes (concat (map code xs))"
  by (induction xs arbitrary: b) (simp_all add: append_all_def)

lemma append_ancestor_bytes [appended]: "append_ancestor a b = b @ fields_bytes (ancestor_fields a)"
  by (simp add: append_ancestor_def ancestor_fields_def appended Let_def)

lemma append_path_metadata_bytes [appended]: "append_path_metadata md b = b @ fields_bytes (metadata_fields md)"
  by (simp add: append_path_metadata_def metadata_fields_def ancestor_code.counted_def appended append_all_bytes [OF append_ancestor_bytes] Let_def)

lemma append_path_entry_bytes [appended]: "append_path_entry e b = b @ fields_bytes (entry_fields e)"
  by (simp add: append_path_entry_def entry_fields_def appended)

lemma append_interpreter_bytes [appended]: "append_interpreter i b = b @ fields_bytes (interpreter_fields i)"
  by (simp add: append_interpreter_def interpreter_fields_def appended)

lemmas appended_lists = append_all_bytes [OF append_path_metadata_bytes] append_all_bytes [OF append_path_entry_bytes]
  append_all_bytes [OF append_interpreter_bytes] append_all_bytes [OF append_field_bytes] append_all_bytes [OF append_flag_bytes]

lemma append_resolved_bytes [appended]: "append_resolved r b = b @ fields_bytes (executable_fields r)"
  by (cases r) (simp_all add: append_resolved_def executable_fields_def interpreter_code.counted_def appended appended_lists)

lemma append_recipe_bytes [appended]: "append_recipe r b = b @ fields_bytes (recipe_fields r)"
  by (cases r) (simp_all add: append_recipe_def recipe_fields_def text_code.counted_def metadata_code.counted_def appended appended_lists)

lemma append_classification_bytes [appended]: "append_classification c b = b @ fields_bytes (classification_fields c)"
  by (simp add: append_classification_def append_capabilities_def classification_fields_def capability_fields_def appended appended_lists)

lemma fingerprint_fields_bytes: "fingerprint_fields p = fields_bytes (plan_fields p)"
  by (simp add: fingerprint_fields_def fingerprint_authority_def fingerprint_head_def append_synthetic_environment_roots_def plan_fields_def environment_binding_def
        text_code.counted_def metadata_code.counted_def entry_code.counted_def appended appended_lists)

text \<open>
  C4: the fingerprint binds the plan. The hashed bytes of two plans agree exactly when their
  sealed content agrees, so two plans with the same fingerprint and different content exhibit a
  collision of SHA-256. The plans' bound ancestors have links and their unbound ones are not
  symbolic links, as for every inspected path.
\<close>

theorem fingerprint_binds_plan:
  assumes "plan_ok p" "plan_ok q" "length (fingerprint_fields p) < 2 ^ 64"
  shows "(fingerprint_fields p = fingerprint_fields q \<longleftrightarrow> sealed_content p = sealed_content q)
    \<and> (compute_fingerprint p = compute_fingerprint q \<longleftrightarrow>
        sealed_content p = sealed_content q
        \<or> fingerprint_fields p \<noteq> fingerprint_fields q \<and> sha256_hex (fingerprint_fields p) = sha256_hex (fingerprint_fields q))"
proof -
  have "fingerprint_fields p = fingerprint_fields q \<longleftrightarrow> plan_fields p = plan_fields q"
    using fields_bytes_inject [of "plan_fields p" "plan_fields q"] assms(3) by (auto simp: fingerprint_fields_bytes)
  then show ?thesis using plan_fields_eq [OF assms(1,2)] by (auto simp: compute_fingerprint_def builder_hex_def)
qed

definition sample_metadata :: "path_ancestor_metadata list \<Rightarrow> path_metadata" where
  "sample_metadata ancestors =
     \<lparr>requested_path = ''/t/x'', canonical_path = ''/t/x'', md_device = 0, md_inode = 0, md_mode = 0, md_size = 0, md_owner = 0, md_group = 0,
      md_link_count = 0, md_changed_seconds = 0, md_changed_nanoseconds = 0, requested_path_is_symlink = False, requested_device = 0,
      requested_inode = 0, requested_mode = 0, requested_owner = 0, requested_group = 0, requested_link_count = 0,
      requested_changed_seconds = 0, requested_changed_nanoseconds = 0, ancestor_metadata = ancestors\<rparr>"

definition sample_ancestor :: "bool \<Rightarrow> nat \<Rightarrow> int \<Rightarrow> path_ancestor_metadata" where
  "sample_ancestor bound links nanoseconds =
     \<lparr>anc_path = ''/t'', anc_device = 0, anc_inode = 0, anc_mode = 0, anc_owner = 0, anc_group = 0, anc_link_count = links,
      anc_changed_seconds = 0, anc_changed_nanoseconds = nanoseconds, anc_is_symlink = False, anc_identity_bound = bound\<rparr>"

definition sample_plan :: "path_ancestor_metadata \<Rightarrow> string list \<Rightarrow> command_plan" where
  "sample_plan ancestor argv =
     (let md = sample_metadata [sample_ancestor False 0 0] in
      \<lparr>cp_intent_lane = StructuredArgv, cp_execution_domain = DirectArgv, cp_workspace = ''/w'', cp_cwd = ''/w'', cp_workspace_metadata = md,
       cp_cwd_metadata = md, cp_anchor_set = None, cp_trusted_home_metadata = md, cp_ava_authority_roots = [],
       cp_ava_authority_root_metadata = [],
       cp_synthetic_environment_roots = \<lparr>root_home = md, root_xdg_config_home = md, root_xdg_cache_home = md, root_xdg_data_home = md,
         root_xdg_state_home = md, root_tmpdir = sample_metadata [ancestor]\<rparr>,
       cp_plan_argv = argv, cp_raw_shell_text = [], cp_path_entries = [], cp_resolved_executable = None,
       cp_classification = \<lparr>cc_level = Sensitive, cc_family = UnknownWrapper, cc_recipe = None, cc_capabilities = no_capabilities,
         cc_max_interactive_scope = Once, cc_ask_candidate = False\<rparr>,
       cp_environment_profile_id = [], cp_environment_digest = [], cp_fingerprint = []\<rparr>)"

lemmas sample_plan_defs = sample_plan_def sample_metadata_def sample_ancestor_def

lemma sample_plan_ok: "ancestor_ok ancestor \<Longrightarrow> plan_ok (sample_plan ancestor argv)"
  by (simp add: sample_plan_defs plan_ok_def root_list_def metadata_ok_def ancestor_ok_def executable_ok_def recipe_ok_def Let_def)

theorem fingerprint_binds_plan_witness:
  "plan_ok (sample_plan (sample_ancestor True 1 0) [''ls'']) \<and> plan_ok (sample_plan (sample_ancestor True 1 0) [''rm''])
   \<and> length (fingerprint_fields (sample_plan (sample_ancestor True 1 0) [''ls''])) < 2 ^ 64
   \<and> fingerprint_fields (sample_plan (sample_ancestor True 1 0) [''ls'']) \<noteq> fingerprint_fields (sample_plan (sample_ancestor True 1 0) [''rm''])"
proof -
  have one: "int_string 1 = ''1''" by code_simp
  have ok: "plan_ok (sample_plan (sample_ancestor True 1 0) argv)" for argv
    by (rule sample_plan_ok) (simp add: sample_ancestor_def ancestor_ok_def)
  have short: "length (fingerprint_fields (sample_plan (sample_ancestor True 1 0) [''ls''])) < 2 ^ 64"
    by (simp add: fingerprint_fields_bytes plan_fields_def metadata_fields_def ancestor_fields_def ancestor_code.counted_def text_code.counted_def
          metadata_code.counted_def entry_code.counted_def executable_fields_def classification_fields_def capability_fields_def recipe_fields_def
          environment_binding_def flag_field_def field_bytes_def root_list_def sample_plan_defs one Let_def no_capabilities_def)
  have "sealed_content (sample_plan (sample_ancestor True 1 0) [''ls'']) \<noteq> sealed_content (sample_plan (sample_ancestor True 1 0) [''rm''])"
    by (simp add: sealed_content_eq sample_plan_def Let_def)
  with fingerprint_binds_plan [OF ok ok short, of "[''rm'']"] short ok show ?thesis by simp
qed

text \<open>
  The condition on the link counts is needed: the flag that tells whether the identity is bound
  is hashed behind the fields it governs. A bound ancestor without links and with a change time
  of zero seconds has the fields of an unbound one, and takes the following ones from the
  argument vector.
\<close>

lemma unlinked_ancestor_ambiguous:
  "fingerprint_fields (sample_plan (sample_ancestor False 0 0) [''0'', ''1'', ''1'', ''rm''])
   = fingerprint_fields (sample_plan (sample_ancestor True 0 4) [''rm''])"
proof -
  have n: "int_string 1 = ''1''" "int_string 4 = ''4''" by code_simp+
  show ?thesis
    by (simp add: fingerprint_fields_bytes plan_fields_def metadata_fields_def ancestor_fields_def ancestor_code.counted_def text_code.counted_def
          environment_binding_def flag_field_def root_list_def sample_plan_defs n Let_def)
qed

end
