(* ===== verification/Plan_Safety.thy ===== *)
theory Plan_Safety
  imports Plan_Fingerprint
begin

text \<open>
  What a sealed plan guarantees: where its directories lie, that its identities are those of
  inspected paths, the exact environment of the child, the length of interpreter chains, and
  what a successful freshness check means.
\<close>

section \<open>Inverting the operations\<close>

named_theorems io_inversion

lemma io_bind_return [io_inversion]: "io_bind m f = io_return y \<longleftrightarrow> (\<exists>x. m = io_return x \<and> f x = io_return y)"
  by (auto simp: io_bind_def split: option.split sum.split)

lemma result_option_return [io_inversion]: "(Some r = io_return y) \<longleftrightarrow> r = Inr y"
  by simp

lemma io_case_return [io_inversion]:
  "(case s of Inl e \<Rightarrow> io_fail (f e) | Inr x \<Rightarrow> g x) = io_return y \<longleftrightarrow> (\<exists>x. s = Inr x \<and> g x = io_return y)"
  "(case a of None \<Rightarrow> io_fail err | Some x \<Rightarrow> k x) = io_return y \<longleftrightarrow> (\<exists>x. a = Some x \<and> k x = io_return y)"
  "(case a of None \<Rightarrow> None | Some x \<Rightarrow> k x) = io_return y \<longleftrightarrow> (\<exists>x. a = Some x \<and> k x = io_return y)"
  "(if c then io_fail err else m) = io_return y \<longleftrightarrow> \<not> c \<and> m = io_return y"
  by (auto split: sum.split option.split)

lemma normalized_absolute_return [io_inversion]:
  "normalized_absolute p label = Inr q \<longleftrightarrow> p \<noteq> [] \<and> is_absolute p \<and> \<not> has_forbidden_path_byte p \<and> q = lexically_normal p"
  by (auto simp: normalized_absolute_def)

lemma both_valid_return [io_inversion]: "both_valid a b = Inr () \<longleftrightarrow> a = Inr () \<and> b = Inr ()"
  by (auto simp: both_valid_def split: sum.split)

definition selected_anchor :: "host \<Rightarrow> anchor list \<Rightarrow> string \<Rightarrow> anchor_ref option" where
  "selected_anchor h as p = (case find_anchor (h_kernel h) as p of Inl _ \<Rightarrow> None | Inr r \<Rightarrow> Some r)"

lemma metadata_from_simps [simp]:
  "requested_path (metadata_from p rs ts as) = p" "canonical_path (metadata_from p rs ts as) = p" "ancestor_metadata (metadata_from p rs ts as) = as"
  "md_mode (metadata_from p rs ts as) = st_mode ts" "md_owner (metadata_from p rs ts as) = st_uid ts"
  by (simp_all add: metadata_from_def)

lemma inspect_path_metadataE:
  assumes "inspect_path_metadata h input expected reject label anchors = io_return md"
  obtains as requested_status opened target_status ancestors where
    "anchors = Some as" "is_absolute input"
    "open_readable (h_kernel h) as (lexically_normal input) (node_flags expected) 0 = io_return opened"
    "h_fstat h (ao_fd opened) = Inr target_status"
    "(if selected_anchor h as (lexically_normal input) = None
      then capture_ancestor_metadata h (lexically_normal input) (lexically_normal input) ''path ancestor'' else Inr []) = Inr ancestors"
    "expected = DirectoryNode \<Longrightarrow> S_ISDIR (st_mode target_status)" "expected = RegularNode \<Longrightarrow> S_ISREG (st_mode target_status)"
    "md = metadata_from (lexically_normal input) requested_status target_status ancestors"
  using assms unfolding inspect_path_metadata_def Let_def
  by (clarsimp simp: io_inversion selected_anchor_def [symmetric])

text \<open>A host whose files have links, as the kernel reports for every reachable file.\<close>

definition linked_host :: "host \<Rightarrow> bool" where
  "linked_host h \<longleftrightarrow> (\<forall>fd s. h_fstat h fd = Inr s \<longrightarrow> st_nlink s \<noteq> 0)"

lemma S_ISDIR_not_link: "S_ISDIR m \<Longrightarrow> \<not> S_ISLNK m"
  by (simp add: S_ISDIR_def S_ISLNK_def)

lemma capture_parents_ok:
  assumes "linked_host h" "capture_parents h label current cs (seen, captured) = Inr (seen', captured')" "list_all ancestor_ok captured"
  shows "list_all ancestor_ok captured'"
  using assms(2,3)
proof (induction cs arbitrary: current seen captured)
  case (Cons c cs)
  have "ancestor_ok (ancestor_metadata_from p s)" if "metadata_stat h p label = Inr s" for p s
    using that assms(1) S_ISDIR_not_link
    by (auto simp: metadata_stat_def linked_host_def ancestor_ok_def ancestor_metadata_from_def is_sticky_directory_def split: sum.split_asm)
  with Cons show ?case by (fastforce simp: Let_def split: if_split_asm sum.split_asm)
qed simp

lemma inspected_ok:
  assumes "inspect_path_metadata h input expected reject label anchors = io_return md" "linked_host h"
  shows "metadata_ok md"
proof -
  obtain as rs opened ts ancestors where
    a: "(if selected_anchor h as (lexically_normal input) = None
         then capture_ancestor_metadata h (lexically_normal input) (lexically_normal input) ''path ancestor'' else Inr []) = Inr ancestors"
      "md = metadata_from (lexically_normal input) rs ts ancestors"
    using assms(1) by (rule inspect_path_metadataE)
  have "list_all ancestor_ok ancestors"
    using a(1) capture_parents_ok [OF assms(2), of "''path ancestor''"]
    by (fastforce simp: capture_ancestor_metadata_def split: if_split_asm sum.split_asm)
  then show ?thesis by (simp add: a(2) metadata_ok_def)
qed

lemma inspected_paths:
  assumes "inspect_path_metadata h input expected reject label anchors = io_return md"
  shows "canonical_path md = lexically_normal input \<and> requested_path md = lexically_normal input \<and> is_absolute (canonical_path md)"
  using assms by (rule inspect_path_metadataE) (simp add: lexically_normal_absolute)

lemma inspected_absolute:
  "inspect_path_metadata h input expected reject label anchors = io_return md \<Longrightarrow> is_absolute (canonical_path md)"
  using inspected_paths by blast

section \<open>Executables\<close>

lemma executable_metadataE:
  assumes "executable_metadata h requested anchors = io_return md"
  obtains md0 physical where "inspect_path_metadata h requested RegularNode False ''executable'' (Some anchors) = io_return md0"
    "md = md0\<lparr>canonical_path := lexically_normal physical\<rparr>" "is_absolute physical" "validate_safe_executable h md = Inr ()"
  using assms unfolding executable_metadata_def Let_def
  by (clarsimp simp: io_inversion)
    (auto simp: descriptor_executable_path_def descriptor_physical_path_checked_def is_absolute_def
       split: sum.split_asm descriptor_path_failure.split_asm if_split_asm)

text \<open>An executable as it is sealed: inspected, with absolute spellings, and safe to run.\<close>

definition sealed_executable :: "host \<Rightarrow> executable_metadata \<Rightarrow> bool" where
  "sealed_executable h md \<longleftrightarrow> is_absolute (requested_path md) \<and> is_absolute (canonical_path md) \<and> validate_safe_executable h md = Inr ()
     \<and> (linked_host h \<longrightarrow> metadata_ok md)"

lemma executable_metadata_sealed:
  assumes "executable_metadata h requested anchors = io_return md"
  shows "sealed_executable h md"
  using assms
proof (rule executable_metadataE)
  fix md0 physical
  assume a: "inspect_path_metadata h requested RegularNode False ''executable'' (Some anchors) = io_return md0"
    "md = md0\<lparr>canonical_path := lexically_normal physical\<rparr>" "is_absolute physical" "validate_safe_executable h md = Inr ()"
  then show ?thesis
    using inspected_paths [OF a(1)] inspected_ok [OF a(1)] by (auto simp: sealed_executable_def metadata_ok_def lexically_normal_absolute)
qed

lemma search_executable_sealed: "search_executable h requested anchors entries = io_return md \<Longrightarrow> sealed_executable h md"
  by (induction entries) (auto simp: Let_def io_inversion executable_metadata_sealed split: sum.split_asm if_split_asm)

lemma resolve_env_name_sealed: "resolve_env_name h name anchors entries = Some (Some md) \<Longrightarrow> sealed_executable h md"
  by (induction entries) (auto simp: Let_def executable_metadata_sealed split: sum.split_asm if_split_asm option.split_asm)

subsection \<open>Interpreter chains\<close>

text \<open>
  The state of the loop: the spellings seen are those of the executable and of the interpreters
  so far, no two of which are the same path; and the chain is bounded.
\<close>

definition chain_state :: "host \<Rightarrow> executable_metadata \<Rightarrow> shebang_interpreter list \<Rightarrow> string list \<Rightarrow> bool" where
  "chain_state h executable interpreters seen \<longleftrightarrow>
     set seen = insert (canonical_path executable) ((\<lambda>i. canonical_path (si_interpreter i)) ` set interpreters)
     \<and> distinct (map path_parts (canonical_path executable # map (\<lambda>i. canonical_path (si_interpreter i)) interpreters))
     \<and> list_all (\<lambda>i. sealed_executable h (si_interpreter i)) interpreters"

lemma chain_state_step:
  assumes "chain_state h executable interpreters seen" "\<not> list_ex (path_eq (canonical_path md)) seen" "sealed_executable h md"
  shows "chain_state h executable (interpreters @ [\<lparr>si_interpreter = md, si_argument = a, si_resolved_via_env = e\<rparr>]) (canonical_path md # seen)"
proof -
  have "path_parts s \<noteq> path_parts (canonical_path md)" "path_parts (canonical_path md) \<noteq> path_parts s" if "s \<in> set seen" for s
    using assms(2) that by (auto simp: list_ex_iff path_eq_def)
  then show ?thesis using assms(1,3) by (auto simp: chain_state_def)
qed

declare shebang_chain_loop.simps [simp del]

definition linked :: "executable_metadata \<Rightarrow> string \<Rightarrow> bool \<Rightarrow> shebang_interpreter" where
  "linked md argument via_env = \<lparr>si_interpreter = md, si_argument = argument, si_resolved_via_env = via_env\<rparr>"

lemma shebang_chain_loop_cases:
  assumes "shebang_chain_loop h executable limits entries anchors seen interpreters current = io_return (result, resolved)"
  obtains (stop) "result = interpreters"
  | (partial) env a where "length interpreters < max_shebang_depth limits" "sealed_executable h env"
      "\<not> list_ex (path_eq (canonical_path env)) seen" "result = interpreters @ [linked env a False]"
  | (through_env) env a md where "length interpreters < max_shebang_depth limits" "sealed_executable h env" "sealed_executable h md"
      "\<not> list_ex (path_eq (canonical_path env)) seen" "\<not> list_ex (path_eq (canonical_path md)) (canonical_path env # seen)"
      "shebang_chain_loop h executable limits entries anchors (canonical_path md # canonical_path env # seen)
         ((interpreters @ [linked env a False]) @ [linked md [] True]) md = io_return (result, resolved)"
  | (direct) md a where "length interpreters < max_shebang_depth limits" "sealed_executable h md"
      "\<not> list_ex (path_eq (canonical_path md)) seen"
      "shebang_chain_loop h executable limits entries anchors (canonical_path md # seen) (interpreters @ [linked md a False]) md
         = io_return (result, resolved)"
proof -
  note loop = assms [unfolded shebang_chain_loop.simps [of h executable limits entries anchors seen interpreters current]]
  obtain parsed where parsed: "shebang_interpreter_path h current limits anchors = io_return parsed"
    using loop by (auto simp: io_inversion)
  note facts = that
  show thesis
  proof (cases parsed)
    case None
    then show thesis using facts(1) loop parsed by (auto simp: io_bind_def)
  next
    case (Some parse)
    have run: "length interpreters < max_shebang_depth limits"
      using loop parsed Some by (simp add: io_bind_def io_inversion)
    let ?md = "executable_metadata h (sp_interpreter_path parse) anchors"
    obtain md where md: "?md = io_return md" "\<not> list_ex (path_eq (canonical_path md)) seen" "sealed_executable h md"
      using loop parsed Some run executable_metadata_sealed
      by (auto simp: io_inversion split: if_split_asm)
    show thesis
    proof (cases "sp_is_env parse")
      case True
      show thesis
        using loop parsed Some run True md
        by (auto simp: io_bind_def linked_def Let_def split: option.split_asm if_split_asm intro: facts(2) [OF run md(3,2), of "sp_argument parse"]
              facts(3) [OF run md(3) _ md(2), of _ "sp_argument parse", unfolded linked_def, simplified] resolve_env_name_sealed)
    next
      case False
      show thesis
        using loop parsed Some run False md facts(4) [OF run md(3,2), of "sp_argument parse"]
        by (simp add: io_bind_def linked_def)
    qed
  qed
qed

lemma shebang_chain_loop_sound:
  assumes "shebang_chain_loop h executable limits entries anchors seen interpreters current = io_return (result, resolved)"
    "chain_state h executable interpreters seen" "length interpreters \<le> max_shebang_depth limits + 1"
  shows "(\<exists>seen'. chain_state h executable result seen') \<and> length result \<le> max_shebang_depth limits + 1"
  using assms
proof (induction "max_shebang_depth limits + 2 - length interpreters" arbitrary: seen interpreters current rule: less_induct)
  case less
  note step = chain_state_step [folded linked_def]
  show ?case
    using less.prems(1)
  proof (cases rule: shebang_chain_loop_cases)
    case stop
    then show ?thesis using less.prems by auto
  next
    case (partial env a)
    then show ?thesis using step [OF less.prems(2)] less.prems(3) by auto
  next
    case (through_env env a md)
    show ?thesis
      using less.hyps [OF _ through_env(6) step [OF step [OF less.prems(2) through_env(4,2)] through_env(5,3)]] through_env(1) by simp
  next
    case (direct md a)
    show ?thesis using less.hyps [OF _ direct(4) step [OF less.prems(2) direct(3,2)]] direct(1) by simp
  qed
qed

lemma inspect_shebang_chain_sound:
  assumes "inspect_shebang_chain h executable limits entries anchors = io_return (interpreters, resolved)"
  shows "length interpreters \<le> max_shebang_depth limits + 1
    \<and> distinct (map path_parts (canonical_path executable # map (\<lambda>i. canonical_path (si_interpreter i)) interpreters))
    \<and> list_all (\<lambda>i. sealed_executable h (si_interpreter i)) interpreters"
  using shebang_chain_loop_sound [OF assms [unfolded inspect_shebang_chain_def]] by (auto simp: chain_state_def)

text \<open>
  C40: an interpreter chain is bounded and has no cycle: at most one interpreter more than the limit is
  sealed (an \<^verbatim>\<open>env\<close> line contributes two at once), the executable and its interpreters are
  pairwise different files by their physical paths, and each interpreter passed the checks for executables.
\<close>

theorem shebang_chain_bounded:
  assumes "inspect_shebang_chain h executable limits entries anchors = io_return (interpreters, resolved)"
  shows "length interpreters \<le> max_shebang_depth limits + 1
    \<and> distinct (map path_parts (canonical_path executable # map (\<lambda>i. canonical_path (si_interpreter i)) interpreters))
    \<and> (\<forall>i \<in> set interpreters. validate_safe_executable h (si_interpreter i) = Inr ())"
  using inspect_shebang_chain_sound [OF assms] by (auto simp: sealed_executable_def list_all_iff)

lemma resolve_executable_sealed:
  assumes "resolve_executable h argv entries cwd workspace home limits anchor_set = io_return e"
  shows "sealed_executable h (re_executable e) \<and> list_all (\<lambda>i. sealed_executable h (si_interpreter i)) (re_shebang_interpreters e)"
proof -
  obtain anchors md interpreters resolved where m:
    "(if is_absolute (hd argv) \<or> slash \<in> set (hd argv)
      then executable_metadata h (lexically_normal (if is_absolute (hd argv) then hd argv else path_append cwd (hd argv))) anchors
      else search_executable h (hd argv) anchors entries) = io_return md"
    "inspect_shebang_chain h md limits entries anchors = io_return (interpreters, resolved)"
    "re_executable e = md" "re_shebang_interpreters e = interpreters"
    using assms unfolding resolve_executable_def Let_def by (auto simp: io_inversion simp del: if_split split del: if_split)
  have "sealed_executable h md"
    using m(1) by (auto split: if_split_asm intro: executable_metadata_sealed search_executable_sealed)
  then show ?thesis using inspect_shebang_chain_sound [OF m(2)] m(3,4) by simp
qed

section \<open>The search path\<close>

lemma safe_path_directoryE:
  assumes "safe_path_directory h requested provenance anchors = io_return e"
  shows "is_absolute (pe_directory e) \<and> canonical_path (pe_metadata e) = pe_directory e \<and> CHR '':'' \<notin> set requested
    \<and> pe_directory e = lexically_normal requested \<and> pe_provenance e = provenance
    \<and> validate_safe_directory h (pe_metadata e) (provenance \<noteq> StartupPath) True ''PATH directory'' = Inr ()
    \<and> (linked_host h \<longrightarrow> entry_ok e)"
  using assms unfolding safe_path_directory_def Let_def
  by (clarsimp simp: io_inversion entry_ok_def) (auto dest: inspected_ok inspected_paths)

lemma append_unique_path_all: "list_all P entries \<Longrightarrow> P e \<Longrightarrow> list_all P (append_unique_path entries e)"
  by (simp add: append_unique_path_def)

lemma startup_entries_all:
  assumes "startup_entries h home anchors entries parts = io_return result" "list_all P entries"
    "\<And>requested e. safe_path_directory h requested StartupPath anchors = io_return e \<Longrightarrow> \<not> exposes_home home e \<Longrightarrow> P e"
  shows "list_all P result"
  using assms(1,2)
proof (induction parts arbitrary: entries)
  case (Cons part parts)
  then show ?case
    using append_unique_path_all assms(3) by (fastforce split: if_split_asm option.split_asm sum.split_asm)
qed simp

lemma add_optional_candidate_all:
  assumes "add_optional_candidate h anchors candidate provenance entries = io_return result" "list_all P entries"
    "\<And>e. safe_path_directory h candidate provenance anchors = io_return e \<Longrightarrow> P e"
  shows "list_all P result"
  using assms append_unique_path_all [of P]
  by (auto simp: add_optional_candidate_def split: option.split_asm sum.split_asm)

lemma discover_path_all:
  assumes "discover_path h options workspace home anchors = io_return entries"
    "\<And>requested e. safe_path_directory h requested StartupPath anchors = io_return e \<Longrightarrow> \<not> exposes_home home e \<Longrightarrow> P e"
    "\<And>requested provenance e. safe_path_directory h requested provenance anchors = io_return e \<Longrightarrow> provenance \<noteq> StartupPath \<Longrightarrow> P e"
  shows "list_all P entries"
proof -
  obtain entries0 entries1 entries2 c1 c2 c3 where
    m: "startup_path_entries h options home anchors = io_return entries0"
    "entries1 = entries0 \<or> add_optional_candidate h anchors c1 UserLocal entries0 = io_return entries1"
    "add_optional_candidate h anchors c2 WorkspaceVenv entries1 = io_return entries2"
    "add_optional_candidate h anchors c3 WorkspaceNodeModules entries2 = io_return entries"
    using assms(1) unfolding discover_path_def Let_def
    by (fastforce simp: io_inversion split: if_split_asm)
  have "list_all P entries0" using m(1) startup_entries_all [of h home anchors "[]" _ entries0 P] assms(2)
    by (auto simp: startup_path_entries_def io_inversion split: option.split_asm if_split_asm)
  then have "list_all P entries1" using m(2) add_optional_candidate_all assms(3) by blast
  then have "list_all P entries2" using add_optional_candidate_all [OF m(3)] assms(3) by blast
  then show ?thesis using add_optional_candidate_all [OF m(4)] assms(3) by blast
qed

section \<open>The sealed context\<close>

text \<open>Containment and disjointness of normalised absolute paths, component by component.\<close>

definition inside :: "string \<Rightarrow> string \<Rightarrow> bool" where
  "inside parent child \<longleftrightarrow> prefix (path_names (lexically_normal parent)) (path_names (lexically_normal child))"

definition apart :: "string \<Rightarrow> string \<Rightarrow> bool" where
  "apart p q \<longleftrightarrow> \<not> inside p q \<and> \<not> inside q p"

lemma is_within_inside: "is_absolute child \<Longrightarrow> is_absolute parent \<Longrightarrow> is_within child parent \<longleftrightarrow> inside parent child"
  by (simp add: is_within_iff inside_def)

lemma overlaps_path_apart: "is_absolute p \<Longrightarrow> is_absolute q \<Longrightarrow> overlaps_path p q \<longleftrightarrow> \<not> apart p q"
  by (auto simp: overlaps_path_def apart_def is_within_inside)

lemma paths_overlap_apart: "is_absolute p \<Longrightarrow> is_absolute q \<Longrightarrow> paths_overlap p q \<longleftrightarrow> \<not> apart p q"
proof -
  assume abs: "is_absolute p" "is_absolute q"
  have "[] \<notin> set (path_names (lexically_normal q))" by (simp add: path_names_def)
  then have "ws @ [[]] \<noteq> path_names (lexically_normal q)" for ws by (metis in_set_conv_decomp)
  then have eq: "path_eq (lexically_normal p) (lexically_normal q) \<Longrightarrow> inside q p"
    using abs by (auto simp: path_eq_def inside_def normal_absolute_parts lexically_normal_normal split: if_split_asm)
  have inside_iff: "lexically_inside (lexically_normal a) (lexically_normal b) \<longleftrightarrow> inside a b" if "is_absolute a" "is_absolute b" for a b
    using that by (simp add: lexically_inside_iff lexically_normal_normal inside_def)
  show ?thesis
    using abs eq inside_iff [of p q] inside_iff [of q p]
    by (auto simp: paths_overlap_def Let_def lexically_inside_def apart_def)
qed

lemma capture_authority_rootsD:
  assumes "capture_authority_roots h anchors workspace roots paths captured = io_return (paths', captured')" "is_absolute workspace"
    "list_all (\<lambda>p. is_absolute p \<and> apart p workspace) paths" "linked_host h \<longrightarrow> list_all metadata_ok captured"
  shows "list_all (\<lambda>p. is_absolute p \<and> apart p workspace) paths' \<and> (linked_host h \<longrightarrow> list_all metadata_ok captured')"
  using assms(1,3,4)
proof (induction roots arbitrary: paths captured)
  case (Cons root roots)
  from Cons.prems(1) have ok: "is_absolute (lexically_normal root)" "apart (lexically_normal root) workspace"
    using assms(2) by (auto simp: io_inversion apart_def is_within_inside lexically_normal_absolute)
  then show ?case
    using Cons inspected_ok by (fastforce simp: io_inversion split: if_split_asm)
qed simp

lemma capture_synthetic_rootD:
  assumes "capture_synthetic_root h limits anchors workspace home path name = io_return md" "is_absolute workspace" "is_absolute home"
  shows "is_absolute (canonical_path md) \<and> apart (canonical_path md) workspace \<and> apart (canonical_path md) home
    \<and> S_ISDIR (md_mode md) \<and> md_owner md = h_euid h \<and> group_or_other_bits (md_mode md) = 0 \<and> (linked_host h \<longrightarrow> metadata_ok md)"
proof -
  from assms(1) obtain synthetic where md: "inspect_path_metadata h synthetic DirectoryNode False name (Some anchors) = io_return md"
    "validate_synthetic_environment_directory h md name = Inr ()"
    "\<not> overlaps_path (canonical_path md) workspace" "\<not> overlaps_path (canonical_path md) home"
    unfolding capture_synthetic_root_def Let_def by (auto simp: io_inversion)
  then show ?thesis
    using inspected_paths [OF md(1)] inspected_ok [OF md(1)] assms(2,3)
    by (auto simp: overlaps_path_apart validate_synthetic_environment_directory_def owner_is_safe_def split: if_split_asm)
qed

lemma capture_synthetic_rootsD:
  assumes "capture_synthetic_roots h options anchors workspace home = io_return roots" "is_absolute workspace" "is_absolute home"
  shows "list_all (\<lambda>md. is_absolute (canonical_path md) \<and> apart (canonical_path md) workspace \<and> apart (canonical_path md) home
    \<and> S_ISDIR (md_mode md) \<and> md_owner md = h_euid h \<and> group_or_other_bits (md_mode md) = 0 \<and> (linked_host h \<longrightarrow> metadata_ok md))
    (root_list roots)"
  using assms capture_synthetic_rootD [OF _ assms(2,3)] unfolding capture_synthetic_roots_def Let_def
  by (clarsimp simp: io_inversion root_list_def)

text \<open>What the discovery of a context guarantees about its paths.\<close>

definition context_safe :: "host \<Rightarrow> sealed_command_context \<Rightarrow> bool" where
  "context_safe h c \<longleftrightarrow>
     is_absolute (sc_workspace c) \<and> is_absolute (sc_cwd c) \<and> inside (sc_workspace c) (sc_cwd c)
     \<and> sc_workspace c = canonical_path (sc_workspace_metadata c) \<and> sc_cwd c = canonical_path (sc_cwd_metadata c)
     \<and> \<not> inside (sc_workspace c) (canonical_path (sc_trusted_home_metadata c))
     \<and> list_all (\<lambda>a. is_absolute a \<and> apart a (sc_workspace c)
         \<and> list_all (\<lambda>e. apart (pe_directory e) a) (sc_path_entries c)) (sc_ava_authority_roots c)
     \<and> list_all (\<lambda>md. apart (canonical_path md) (sc_workspace c) \<and> apart (canonical_path md) (canonical_path (sc_trusted_home_metadata c))
         \<and> S_ISDIR (md_mode md) \<and> md_owner md = h_euid h \<and> group_or_other_bits (md_mode md) = 0)
         (root_list (sc_synthetic_environment_roots c))
     \<and> list_all (\<lambda>e. is_absolute (pe_directory e) \<and> pe_directory e = canonical_path (pe_metadata e)
         \<and> (pe_provenance e = StartupPath \<longrightarrow> \<not> exposes_home (sc_trusted_home_metadata c) e)) (sc_path_entries c)"

definition context_ok :: "sealed_command_context \<Rightarrow> bool" where
  "context_ok c \<longleftrightarrow>
     list_all metadata_ok ([sc_workspace_metadata c, sc_cwd_metadata c, sc_trusted_home_metadata c] @ sc_ava_authority_root_metadata c
       @ root_list (sc_synthetic_environment_roots c))
     \<and> list_all entry_ok (sc_path_entries c)"

lemma inside_refl [simp]: "inside p p"
  by (simp add: inside_def)

lemma capture_cwdD:
  assumes "capture_cwd h requested anchors ws = io_return md" "is_absolute (canonical_path ws)"
  shows "is_absolute (canonical_path md) \<and> inside (canonical_path ws) (canonical_path md) \<and> (linked_host h \<longrightarrow> metadata_ok ws \<longrightarrow> metadata_ok md)"
proof (cases requested)
  case (Some d)
  with assms(1) obtain input where md: "inspect_path_metadata h input DirectoryNode False ''command cwd'' (Some anchors) = io_return md"
    "is_within (canonical_path md) (canonical_path ws)"
    by (auto simp: capture_cwd_def io_inversion Let_def)
  then show ?thesis using inspected_absolute [OF md(1)] inspected_ok [OF md(1)] assms(2) by (simp add: is_within_inside)
qed (use assms in \<open>simp add: capture_cwd_def\<close>)

lemma discover_command_contextD:
  assumes "discover_command_context h intent options = io_return c"
  shows "context_safe h c \<and> (linked_host h \<longrightarrow> context_ok c)"
proof -
  obtain anchors ws cwd home paths captured roots entries w0 where m:
    "inspect_path_metadata h w0 DirectoryNode False ''command workspace'' (Some anchors) = io_return ws"
    "capture_cwd h (ci_cwd intent) anchors ws = io_return cwd"
    "inspect_path_metadata h (bo_trusted_home options) DirectoryNode True ''trusted command discovery home'' (Some anchors) = io_return home"
    "\<not> is_within (canonical_path home) (canonical_path ws)"
    "capture_authority_roots h anchors (canonical_path ws) (bo_ava_authority_roots options) [] [] = io_return (paths, captured)"
    "capture_synthetic_roots h options anchors (canonical_path ws) (canonical_path home) = io_return roots"
    "discover_path h options (canonical_path ws) home anchors = io_return entries"
    "entries_disjoint paths entries = Inr ()"
    and c: "c = \<lparr>sc_workspace = canonical_path ws, sc_cwd = canonical_path cwd, sc_workspace_metadata = ws, sc_cwd_metadata = cwd,
       sc_trusted_home_metadata = home, sc_ava_authority_roots = paths, sc_ava_authority_root_metadata = captured,
       sc_synthetic_environment_roots = roots, sc_path_entries = entries\<rparr>"
    using assms unfolding discover_command_context_def by (auto simp: io_inversion)
  have ws: "is_absolute (canonical_path ws)" and home: "is_absolute (canonical_path home)"
    using inspected_absolute [OF m(1)] inspected_absolute [OF m(3)] by simp_all
  let ?entry = "\<lambda>e. is_absolute (pe_directory e) \<and> pe_directory e = canonical_path (pe_metadata e) \<and> (linked_host h \<longrightarrow> entry_ok e)
    \<and> (pe_provenance e = StartupPath \<longrightarrow> \<not> exposes_home home e)"
  have entries: "list_all ?entry entries"
    by (rule discover_path_all [OF m(7)]) (auto dest!: safe_path_directoryE)
  have roots: "list_all (\<lambda>p. is_absolute p \<and> apart p (canonical_path ws)) paths" "linked_host h \<longrightarrow> list_all metadata_ok captured"
    using capture_authority_rootsD [OF m(5) ws] by auto
  have disjoint: "apart (pe_directory e) a" if "e \<in> set entries" "a \<in> set paths" for e a
    using that m(8) entries roots(1) overlaps_path_apart [of "pe_directory e" a]
    by (auto simp: entries_disjoint_def list_all_iff list_ex_iff split: if_split_asm)
  note parts = capture_cwdD [OF m(2) ws] capture_synthetic_rootsD [OF m(6) ws home] is_within_inside [OF home ws]
  have "context_safe h c"
    using m(4) ws entries roots(1) parts disjoint by (auto simp: context_safe_def c list_all_iff)
  moreover have "context_ok c" if "linked_host h"
    using that inspected_ok [OF m(1)] inspected_ok [OF m(3)] entries roots(2) parts by (auto simp: context_ok_def c list_all_iff)
  ultimately show ?thesis by blast
qed

section \<open>Sealed plans\<close>

lemma recipe_arguments_ok:
  assumes "classify_command h argv executable cwd workspace recipes anchor_set = Some c" "linked_host h"
  shows "recipe_ok (cc_recipe c)"
  using assms(1)
proof (cases rule: classify_command_cases)
  case (standard b)
  have "metadata_ok md" if "seal_recipe_path_argument h v cwd' workspace anchor_set' = Some (Some md)" for v cwd' anchor_set' md
    using that inspected_ok [OF _ assms(2)]
    by (auto simp: seal_recipe_path_argument_def split: if_split_asm sum.split_asm option.split_asm)
  then show ?thesis using standard(1,3) by (auto simp: recipe_shape_def standard_classification_def recipe_ok_def)
qed (auto simp: classification_base_def recipe_ok_def)

lemma classify_raw_shell_ok: "classification_ok executable (classify_raw_shell executable) \<and> cc_recipe (classify_raw_shell executable) = None"
  by (auto simp: classify_raw_shell_def critical_classification_def apply_executable_origin_invariants_def classification_ok_def
       no_capabilities_def split: executable_origin.split) (metis executable_origin.exhaust)+

lemma seal_command_planE:
  assumes "seal_command_plan h intent options = io_return p"
  obtains c env executable where "discover_command_context h intent options = io_return c"
    "environment_make h (bo_environment options) (sc_path_entries c) (sc_cwd c) (sc_trusted_home_metadata c)
       (sc_synthetic_environment_roots c) (bo_limits options) (bo_anchor_set options) = io_return env"
    "\<not> executable_overlaps_authority executable (sc_ava_authority_roots c)"
    "sealed_executable h (re_executable executable)" "list_all (\<lambda>i. sealed_executable h (si_interpreter i)) (re_shebang_interpreters executable)"
    "classification_ok executable (cp_classification p)" "linked_host h \<Longrightarrow> recipe_ok (cc_recipe (cp_classification p))"
    "p = sealed_plan intent options c env (cp_execution_domain p) (cp_plan_argv p) (cp_raw_shell_text p) executable (cp_classification p)"
    "if ci_lane intent = RawShellLane
     then cp_execution_domain p = RawShellDomain \<and> cp_plan_argv p = [] \<and> cp_raw_shell_text p = ci_source_text intent
     else cp_execution_domain p = DirectArgv \<and> cp_plan_argv p = ci_argv intent \<and> cp_raw_shell_text p = []"
proof -
  have fields: "cp_execution_domain (sealed_plan intent options c env d a t e k) = d" "cp_plan_argv (sealed_plan intent options c env d a t e k) = a"
    "cp_raw_shell_text (sealed_plan intent options c env d a t e k) = t" "cp_classification (sealed_plan intent options c env d a t e k) = k"
    for c env d a t e k by (simp_all add: sealed_plan_def Let_def)
  from assms obtain c env where c: "discover_command_context h intent options = io_return c"
    "environment_make h (bo_environment options) (sc_path_entries c) (sc_cwd c) (sc_trusted_home_metadata c)
       (sc_synthetic_environment_roots c) (bo_limits options) (bo_anchor_set options) = io_return env"
    "(if ci_lane intent = RawShellLane then seal_raw_shell h intent options c env else seal_direct h intent options c env) = io_return p"
    unfolding seal_command_plan_def by (auto simp: io_inversion split del: if_split)
  note facts = that
  show thesis
  proof (cases "ci_lane intent = RawShellLane")
    case True
    with c(3) obtain shell where e: "resolve_executable h [bo_shell options] (sc_path_entries c) (sc_cwd c) (sc_workspace c)
        (bo_trusted_home options) (bo_limits options) (bo_anchor_set options) = io_return shell"
      "\<not> executable_overlaps_authority shell (sc_ava_authority_roots c)"
      "p = sealed_plan intent options c env RawShellDomain [] (ci_source_text intent) shell (classify_raw_shell shell)"
      by (auto simp: seal_raw_shell_def io_inversion)
    show thesis
      by (rule facts [OF c(1,2) e(2)]) (use resolve_executable_sealed [OF e(1)] classify_raw_shell_ok [of shell] True in \<open>auto simp: e(3) fields recipe_ok_def\<close>)
  next
    case False
    with c(3) obtain resolved k where e: "resolve_executable h (ci_argv intent) (sc_path_entries c) (sc_cwd c) (sc_workspace c)
        (bo_trusted_home options) (bo_limits options) (bo_anchor_set options) = io_return resolved"
      "\<not> executable_overlaps_authority resolved (sc_ava_authority_roots c)"
      "classify_command h (ci_argv intent) resolved (sc_cwd c) (sc_workspace c) (bo_workspace_script_recipes options) (bo_anchor_set options) = Some k"
      "p = sealed_plan intent options c env DirectArgv (ci_argv intent) [] resolved k"
      by (auto simp: seal_direct_def io_inversion)
    show thesis
      by (rule facts [OF c(1,2) e(2)])
        (use resolve_executable_sealed [OF e(1)] classify_command_ok [OF e(3)] recipe_arguments_ok [OF e(3)] False in \<open>auto simp: e(4) fields\<close>)
  qed
qed

definition plan_executables :: "command_plan \<Rightarrow> executable_metadata list" where
  "plan_executables p =
     (case cp_resolved_executable p of None \<Rightarrow> [] | Some e \<Rightarrow> re_executable e # map si_interpreter (re_shebang_interpreters e))"

lemma executables_apart:
  assumes "\<not> executable_overlaps_authority e roots" "list_all (\<lambda>a. is_absolute a) roots" "a \<in> set roots"
    "sealed_executable h (re_executable e)" "list_all (\<lambda>i. sealed_executable h (si_interpreter i)) (re_shebang_interpreters e)"
    "md \<in> set (re_executable e # map si_interpreter (re_shebang_interpreters e))"
  shows "apart (requested_path md) a \<and> apart (canonical_path md) a"
proof -
  have "sealed_executable h md" using assms(4-6) by (auto simp: list_all_iff)
  then have "is_absolute (requested_path md)" "is_absolute (canonical_path md)" by (simp_all add: sealed_executable_def)
  moreover have "\<not> paths_overlap (requested_path md) a \<and> \<not> paths_overlap (canonical_path md) a"
    using assms(1,3,6) by (auto simp: executable_overlaps_authority_def metadata_overlaps_authority_def list_ex_iff)
  moreover have "is_absolute a" using assms(2,3) by (simp add: list_all_iff)
  ultimately show ?thesis by (simp add: paths_overlap_apart)
qed

lemma sealed_plan_ok:
  assumes "seal_command_plan h intent options = io_return p" "linked_host h"
  shows "plan_ok p"
  using assms(1)
proof (rule seal_command_planE)
  fix c env e
  assume m: "discover_command_context h intent options = io_return c"
    "sealed_executable h (re_executable e)" "list_all (\<lambda>i. sealed_executable h (si_interpreter i)) (re_shebang_interpreters e)"
    "linked_host h \<Longrightarrow> recipe_ok (cc_recipe (cp_classification p))"
    "p = sealed_plan intent options c env (cp_execution_domain p) (cp_plan_argv p) (cp_raw_shell_text p) e (cp_classification p)"
  have "executable_ok (Some e)"
    using m(2,3) assms(2) by (auto simp: executable_ok_def sealed_executable_def interpreter_ok_def list_all_iff)
  moreover have "context_ok c" using discover_command_contextD [OF m(1)] assms(2) by blast
  ultimately show ?thesis using m(4) [OF assms(2)] by (subst m(5)) (simp add: plan_ok_def context_ok_def sealed_plan_def Let_def)
qed

lemma sealed_fingerprint: "seal_command_plan h intent options = io_return p \<Longrightarrow> cp_fingerprint p = compute_fingerprint p"
proof (erule seal_command_planE)
  fix c env e
  assume p: "p = sealed_plan intent options c env (cp_execution_domain p) (cp_plan_argv p) (cp_raw_shell_text p) e (cp_classification p)"
  then obtain q where q: "p = q\<lparr>cp_fingerprint := compute_fingerprint q\<rparr>" unfolding sealed_plan_def Let_def by blast
  have "compute_fingerprint (q\<lparr>cp_fingerprint := f\<rparr>) = compute_fingerprint q" for f
    by (simp add: compute_fingerprint_def fingerprint_fields_bytes plan_fields_def environment_binding_def)
  then show ?thesis by (simp add: q)
qed

text \<open>
  C25: on a host whose files have links, every sealed plan is well formed for its fingerprint (its
  bound ancestors have links, its unbound ones are directories), and the fingerprint it carries
  is the one computed from its content.
\<close>

theorem sealed_plan_fingerprinted:
  assumes "seal_command_plan h intent options = io_return p" "linked_host h"
  shows "plan_ok p \<and> cp_fingerprint p = compute_fingerprint p"
  using sealed_plan_ok [OF assms] sealed_fingerprint [OF assms(1)] by blast

text \<open>
  C3: a sealed plan is isolated. Its working directory lies in the workspace, which does not hold
  the home directory; no authority root of the program meets the workspace, the search path or
  any executable; the directories given to the child as its home, configuration and temporary
  directories are private directories apart from the workspace and the home; every executable
  and interpreter passed the ownership checks; and the classification is well formed.
\<close>

theorem sealed_plan_isolated:
  assumes "seal_command_plan h intent options = io_return p"
  shows "inside (cp_workspace p) (cp_cwd p) \<and> \<not> inside (cp_workspace p) (canonical_path (cp_trusted_home_metadata p))
    \<and> (\<forall>a \<in> set (cp_ava_authority_roots p). apart a (cp_workspace p) \<and> (\<forall>e \<in> set (cp_path_entries p). apart (pe_directory e) a)
         \<and> (\<forall>md \<in> set (plan_executables p). apart (requested_path md) a \<and> apart (canonical_path md) a))
    \<and> (\<forall>md \<in> set (root_list (cp_synthetic_environment_roots p)).
         apart (canonical_path md) (cp_workspace p) \<and> apart (canonical_path md) (canonical_path (cp_trusted_home_metadata p))
         \<and> S_ISDIR (md_mode md) \<and> md_owner md = h_euid h \<and> group_or_other_bits (md_mode md) = 0)
    \<and> (\<forall>md \<in> set (plan_executables p). validate_safe_executable h md = Inr ())
    \<and> (\<exists>e. cp_resolved_executable p = Some e \<and> classification_ok e (cp_classification p))"
  using assms
proof (rule seal_command_planE)
  fix c env e
  assume m: "discover_command_context h intent options = io_return c" "\<not> executable_overlaps_authority e (sc_ava_authority_roots c)"
    "sealed_executable h (re_executable e)" "list_all (\<lambda>i. sealed_executable h (si_interpreter i)) (re_shebang_interpreters e)"
    "classification_ok e (cp_classification p)"
    "p = sealed_plan intent options c env (cp_execution_domain p) (cp_plan_argv p) (cp_raw_shell_text p) e (cp_classification p)"
  have p: "cp_workspace p = sc_workspace c" "cp_cwd p = sc_cwd c" "cp_trusted_home_metadata p = sc_trusted_home_metadata c"
    "cp_ava_authority_roots p = sc_ava_authority_roots c" "cp_path_entries p = sc_path_entries c"
    "cp_synthetic_environment_roots p = sc_synthetic_environment_roots c" "cp_resolved_executable p = Some e"
    by (subst m(6), simp add: sealed_plan_def Let_def)+
  then have ex: "plan_executables p = re_executable e # map si_interpreter (re_shebang_interpreters e)" by (simp add: plan_executables_def)
  have safe: "context_safe h c" using discover_command_contextD [OF m(1)] by blast
  then have "list_all is_absolute (sc_ava_authority_roots c)" by (auto simp: context_safe_def list_all_iff)
  from executables_apart [OF m(2) this _ m(3,4)] have
    "\<forall>a \<in> set (sc_ava_authority_roots c). \<forall>md \<in> set (plan_executables p). apart (requested_path md) a \<and> apart (canonical_path md) a"
    unfolding ex by blast
  moreover have "\<forall>md \<in> set (plan_executables p). validate_safe_executable h md = Inr ()"
    using m(3,4) by (auto simp: ex sealed_executable_def list_all_iff)
  ultimately show ?thesis
    using safe m(5) p(7) unfolding p(1-6) context_safe_def list_all_iff by blast
qed

section \<open>The environment of the child\<close>

fun path_text :: "string list \<Rightarrow> string" where
  "path_text [] = []"
| "path_text [d] = d"
| "path_text (d # ds) = d @ '':'' @ path_text ds"

lemma path_text_Cons: "path_text (d # ds) = (if ds = [] then d else d @ '':'' @ path_text ds)"
  by (cases ds) simp_all

lemma split_path_word: "CHR '':'' \<notin> set d \<Longrightarrow> split_path d = [d]"
  by (induction d) auto

lemma split_path_colon: "CHR '':'' \<notin> set d \<Longrightarrow> split_path (d @ CHR '':'' # s) = d # split_path s"
  by (induction d) auto

lemma split_path_text: "ds \<noteq> [] \<Longrightarrow> \<forall>d \<in> set ds. CHR '':'' \<notin> set d \<Longrightarrow> split_path (path_text ds) = ds"
  by (induction ds rule: path_text.induct) (simp_all add: split_path_word split_path_colon)

lemma join_path_text:
  assumes "join_path h home limits anchor_set result entries = io_return path" "length result \<le> max_path_bytes limits"
  shows "path = (if result = [] then path_text (map pe_directory entries)
                 else if entries = [] then result else result @ '':'' @ path_text (map pe_directory entries))
    \<and> (\<forall>e \<in> set entries. CHR '':'' \<notin> set (pe_directory e) \<and> is_absolute (pe_directory e)) \<and> length path \<le> max_path_bytes limits"
  using assms
proof (induction entries arbitrary: result)
  case (Cons e es)
  let ?next = "(if result = [] then [] else result @ '':'') @ pe_directory e"
  from Cons.prems have e: "pe_directory e \<noteq> []" "is_absolute (pe_directory e)" "CHR '':'' \<notin> set (pe_directory e)"
    and rest: "join_path h home limits anchor_set ?next es = io_return path" "length ?next \<le> max_path_bytes limits"
    by (auto simp: io_inversion Let_def split: if_split_asm)
  have "?next \<noteq> []" using e(1) by simp
  with Cons.IH [OF rest] e show ?case by (auto simp: path_text_Cons)
qed simp

lemma environment_make_entries:
  assumes "environment_make h options entries cwd home roots limits anchor_set = io_return env"
  shows "env_entries env = environment_entries options cwd (path_text (map pe_directory entries)) roots
    \<and> env_roots env = roots \<and> env_profile_id env = eo_profile_id options
    \<and> env_digest env = environment_digest (eo_profile_id options) (env_entries env)
    \<and> (\<forall>e \<in> set entries. CHR '':'' \<notin> set (pe_directory e)) \<and> length (path_text (map pe_directory entries)) \<le> max_path_bytes limits"
  using assms unfolding environment_make_def Let_def
  by (auto simp: io_inversion dest!: join_path_text)

text \<open>
  C24: the environment handed to the child is exactly the fourteen sealed variables with the values
  fixed by the plan, whatever the host looks like when the environment is built again; its
  digest is the one bound by the plan, and reading \<^verbatim>\<open>PATH\<close> at its colons gives back the sealed
  directories in order, within the size limit.
\<close>

theorem prepared_environment_exact:
  assumes "prepare_command h h2 intent options = io_return (p, env)"
  shows "env_entries env = environment_entries (bo_environment options) (cp_cwd p) (path_text (map pe_directory (cp_path_entries p)))
        (cp_synthetic_environment_roots p)
    \<and> distinct (map fst (env_entries env)) \<and> length (env_entries env) = 14
    \<and> env_digest env = cp_environment_digest p \<and> cp_environment_digest p = environment_digest (cp_environment_profile_id p) (env_entries env)
    \<and> (cp_path_entries p \<noteq> [] \<longrightarrow> split_path (path_text (map pe_directory (cp_path_entries p))) = map pe_directory (cp_path_entries p))
    \<and> length (path_text (map pe_directory (cp_path_entries p))) \<le> max_path_bytes (bo_limits options)"
proof -
  from assms have m: "environment_make h2 (bo_environment options) (cp_path_entries p) (cp_cwd p) (cp_trusted_home_metadata p)
      (cp_synthetic_environment_roots p) (bo_limits options) (cp_anchor_set p) = io_return env"
    "validate_environment_matches_plan env p = Inr ()"
    unfolding prepare_command_def by (auto simp: io_inversion)
  from m(2) have eq: "env_profile_id env = cp_environment_profile_id p" "env_digest env = cp_environment_digest p"
    by (auto simp: validate_environment_matches_plan_def split: if_split_asm)
  note e = environment_make_entries [OF m(1)]
  have "distinct (map fst (env_entries env)) \<and> length (env_entries env) = 14" using e by (simp add: environment_entries_def)
  moreover have "cp_path_entries p \<noteq> [] \<longrightarrow> split_path (path_text (map pe_directory (cp_path_entries p))) = map pe_directory (cp_path_entries p)"
    using e by (auto intro!: split_path_text)
  moreover have "cp_environment_digest p = environment_digest (cp_environment_profile_id p) (env_entries env)"
    using e eq by simp
  ultimately show ?thesis using e eq by simp
qed

section \<open>Freshness\<close>

definition same_file :: "path_metadata \<Rightarrow> path_metadata \<Rightarrow> bool" where
  "same_file current md \<longleftrightarrow>
     path_eq (canonical_path current) (canonical_path md) \<and> md_device current = md_device md \<and> md_inode current = md_inode md
     \<and> md_mode current = md_mode md \<and> md_size current = md_size md \<and> md_owner current = md_owner md \<and> md_group current = md_group md
     \<and> md_link_count current = md_link_count md \<and> md_changed_seconds current = md_changed_seconds md
     \<and> md_changed_nanoseconds current = md_changed_nanoseconds md \<and> requested_inode current = requested_inode md
     \<and> requested_device current = requested_device md"

lemma metadata_equal_same_file: "metadata_equal (current\<lparr>ancestor_metadata := as\<rparr>) md \<Longrightarrow> same_file current md"
  by (simp add: metadata_equal_def same_file_def)

lemma and_fresh_return [io_inversion]: "and_fresh a b = io_return True \<longleftrightarrow> a = io_return True \<and> b = io_return True"
  by (auto simp: and_fresh_def io_bind_def split: option.split sum.split)

lemma all_fresh_return [io_inversion]: "all_fresh f xs = io_return True \<longleftrightarrow> (\<forall>x \<in> set xs. f x = io_return True)"
  by (induction xs) (auto simp: io_bind_def split: option.split sum.split)

text \<open>The file is inspected again and is the same as when it was sealed.\<close>

definition still_the_path :: "host \<Rightarrow> anchor list option \<Rightarrow> path_metadata \<Rightarrow> bool" where
  "still_the_path h anchor_set md \<longleftrightarrow>
     (\<exists>current. inspect_path_metadata h (requested_path md) AnyNode False ''sealed path'' anchor_set = io_return current
        \<and> same_file current md \<and> validate_safe_ancestors h (ancestor_metadata current) = Inr ())"

definition still_the_executable :: "host \<Rightarrow> anchor list option \<Rightarrow> executable_metadata \<Rightarrow> bool" where
  "still_the_executable h anchor_set md \<longleftrightarrow>
     (\<exists>anchors current. anchor_set = Some anchors \<and> executable_metadata h (requested_path md) anchors = io_return current
        \<and> same_file current md \<and> validate_safe_executable h current = Inr ())"

lemma path_fresh_with_ancestors:
  assumes "path_metadata_is_fresh_with_ancestors h md home anchor_set = io_return True"
  shows "still_the_path h anchor_set md"
  using assms unfolding path_metadata_is_fresh_with_ancestors_def still_the_path_def
  by (auto simp: io_inversion split: if_split_asm sum.split_asm intro: metadata_equal_same_file)

lemma executable_fresh_with_ancestors:
  assumes "executable_metadata_is_fresh_with_ancestors h md home anchor_set = io_return True"
  shows "still_the_executable h anchor_set md"
  using assms unfolding executable_metadata_is_fresh_with_ancestors_def still_the_executable_def
  by (auto simp: io_inversion sealed_executable_def split: if_split_asm sum.split_asm option.split_asm
        intro: metadata_equal_same_file dest: executable_metadata_sealed)

lemma path_fresh: "path_metadata_is_fresh h md anchor_set = io_return True \<Longrightarrow> still_the_path h anchor_set md"
  by (simp add: path_metadata_is_fresh_def path_fresh_with_ancestors)

lemma tool_path_fresh: "fresh_user_tool_or_strict_path h md home anchor_set = io_return True \<Longrightarrow> still_the_path h anchor_set md"
  by (auto simp: fresh_user_tool_or_strict_path_def user_tool_path_metadata_is_fresh_def io_inversion path_fresh path_fresh_with_ancestors
       split: if_split_asm)

lemma tool_executable_fresh:
  "fresh_user_tool_or_strict_executable h md home anchor_set = io_return True \<Longrightarrow> still_the_executable h anchor_set md"
  by (auto simp: fresh_user_tool_or_strict_executable_def user_tool_executable_metadata_is_fresh_def executable_metadata_is_fresh_def
       io_inversion executable_fresh_with_ancestors split: if_split_asm)

text \<open>
  C13: a plan that is found fresh still describes the files it was sealed with. Every executable and
  interpreter, the workspace, the working directory, every authority root that existed, every
  directory given to the child, every entry of the search path and every path argument of a
  recipe is inspected again and has the sealed identity, size, owner, mode and change time; an
  authority root that was absent is still absent; and the directories of the child are still
  apart from workspace and home.
\<close>

theorem fresh_plan_unchanged:
  assumes "plan_is_fresh h p = io_return True"
  shows "(\<forall>md \<in> set (plan_executables p). still_the_executable h (cp_anchor_set p) md)
    \<and> (\<forall>md \<in> set ([cp_workspace_metadata p, cp_cwd_metadata p] @ cp_ava_authority_root_metadata p
         @ root_list (cp_synthetic_environment_roots p) @ map pe_metadata (cp_path_entries p)
         @ (case cc_recipe (cp_classification p) of None \<Rightarrow> [] | Some r \<Rightarrow> rd_path_arguments r)). still_the_path h (cp_anchor_set p) md)
    \<and> (\<forall>a \<in> set (cp_ava_authority_roots p).
         (\<exists>md \<in> set (cp_ava_authority_root_metadata p). path_eq (requested_path md) a) \<or> h_symlink_found h a \<in> {Inr False, Inl ENOENT})
    \<and> (\<forall>md \<in> set (root_list (cp_synthetic_environment_roots p)).
         \<not> paths_overlap (canonical_path md) (canonical_path (cp_workspace_metadata p))
         \<and> \<not> paths_overlap (canonical_path md) (canonical_path (cp_trusted_home_metadata p)))
    \<and> trusted_home_metadata_is_fresh h (cp_trusted_home_metadata p) (cp_anchor_set p) = io_return True"
proof -
  have absent: "(\<exists>md \<in> set (cp_ava_authority_root_metadata p). path_eq (requested_path md) a) \<or> h_symlink_found h a \<in> {Inr False, Inl ENOENT}"
    if "authority_root_absent h (cp_ava_authority_root_metadata p) a = io_return True" for a
    using that by (auto simp: authority_root_absent_def list_ex_iff split: if_split_asm sum.split_asm)
  have root: "still_the_path h (cp_anchor_set p) md \<and> \<not> paths_overlap (canonical_path md) (canonical_path (cp_workspace_metadata p))
      \<and> \<not> paths_overlap (canonical_path md) (canonical_path (cp_trusted_home_metadata p))"
    if "synthetic_root_fresh h p md = io_return True" for md
    using that by (auto simp: synthetic_root_fresh_def io_inversion path_fresh)
  define arguments where "arguments = (case cc_recipe (cp_classification p) of None \<Rightarrow> [] | Some r \<Rightarrow> rd_path_arguments r)"
  note f = assms [unfolded plan_is_fresh_def Let_def io_inversion, folded plan_executables_def arguments_def]
  have "\<forall>md \<in> set (plan_executables p). still_the_executable h (cp_anchor_set p) md" using f tool_executable_fresh by blast
  moreover have "\<forall>md \<in> set (map pe_metadata (cp_path_entries p)). still_the_path h (cp_anchor_set p) md" using f tool_path_fresh by auto
  moreover have "\<forall>md \<in> set ([cp_workspace_metadata p, cp_cwd_metadata p] @ cp_ava_authority_root_metadata p @ arguments).
      still_the_path h (cp_anchor_set p) md" using f path_fresh unfolding set_append ball_Un by blast
  ultimately show ?thesis using f root absent unfolding arguments_def [symmetric] set_append ball_Un by blast
qed

end
