(* ===== verification/Plan_Example.thy ===== *)
theory Plan_Example
  imports Plan_Safety
begin

text \<open>
  A complete run of the planner on a small host: a workspace \<^verbatim>\<open>/w\<close> with the script \<^verbatim>\<open>/w/make\<close> and
  its interpreter \<^verbatim>\<open>/w/sh\<close>, a state directory \<^verbatim>\<open>/s\<close>, a home \<^verbatim>\<open>/h\<close> and an absent authority root \<^verbatim>\<open>/a\<close>. It shows that the
  hypotheses of the theorems on plans hold together.
\<close>

definition private_stat :: stat_result where
  "private_stat = blank_stat\<lparr>st_mode := 16832, st_uid := 1000, st_nlink := 2\<rparr>"

definition program_stat :: stat_result where
  "program_stat = blank_stat\<lparr>st_mode := 33216, st_uid := 1000, st_nlink := 1\<rparr>"

definition plan_kernel :: kernel where
  "plan_kernel = sample_kernel\<lparr>k_openat2_beneath := (\<lambda>attempt fd path flags mode. Inr (if path = ''make'' then 7 else if path = ''sh'' then 8 else 5))\<rparr>"

definition plan_fstat :: "descriptor \<Rightarrow> stat_result syscall" where
  "plan_fstat d = Inr (if d = 7 \<or> d = 8 then program_stat else private_stat)"

definition plan_fstatat :: "descriptor \<Rightarrow> string \<Rightarrow> stat_result syscall" where
  "plan_fstatat d n = (if n = ''make'' \<or> n = ''sh'' then Inr program_stat else Inl ENOENT)"

definition plan_host :: host where
  "plan_host = blank_host\<lparr>h_kernel := plan_kernel, h_fstat := plan_fstat, h_fstat_again := plan_fstat, h_fstatat := plan_fstatat,
     h_fstatat_again := plan_fstatat, h_readlink_fd := (\<lambda>d. Inr (if d = 8 then ''/w/sh'' else ''/w/make'')),
     h_read := (\<lambda>d n. Inr (if d = 8 then [] else ''#!/w/sh''))\<rparr>"

definition plan_anchors :: "anchor list" where
  "plan_anchors = [\<lparr>an_fd = 1, an_root = ''/w''\<rparr>, \<lparr>an_fd = 2, an_root = ''/s''\<rparr>, \<lparr>an_fd = 4, an_root = ''/h''\<rparr>]"

definition plan_options :: command_build_options where
  "plan_options = \<lparr>bo_workspace = ''/w'', bo_anchor_set = Some plan_anchors, bo_trusted_home = ''/h'', bo_discover_host_user_tools = False,
     bo_startup_path = None, bo_shell = [], bo_ava_authority_roots = [''/a''],
     bo_environment = \<lparr>eo_profile_id = ''p'', eo_user = ''u'', eo_logname = ''u'', eo_home = ''/s'', eo_xdg_config_home = ''/s'',
       eo_xdg_cache_home = ''/s'', eo_xdg_data_home = ''/s'', eo_xdg_state_home = ''/s'', eo_tmpdir = ''/s''\<rparr>,
     bo_workspace_script_recipes = [], bo_limits = default_limits\<rparr>"

definition plan_intent :: command_intent where
  "plan_intent = \<lparr>ci_lane = StructuredArgv, ci_argv = [''/w/make''], ci_cwd = None, ci_source_text = []\<rparr>"

abbreviation directory_at :: "string \<Rightarrow> path_metadata" where
  "directory_at p \<equiv> metadata_from p private_stat private_stat []"

abbreviation program_at :: "string \<Rightarrow> path_metadata" where
  "program_at p \<equiv> metadata_from p program_stat program_stat []"

section \<open>Inspections\<close>

lemma plan_host_simps [simp]:
  "h_kernel plan_host = plan_kernel" "h_fstat plan_host = plan_fstat" "h_fstat_again plan_host = plan_fstat" "h_fstatat plan_host = plan_fstatat"
  "h_fstatat_again plan_host = plan_fstatat" "h_readlink_fd plan_host d = Inr (if d = 8 then ''/w/sh'' else ''/w/make'')"
  "h_read plan_host d n = Inr (if d = 8 then [] else ''#!/w/sh'')"
  "h_euid plan_host = 1000" "h_symlink_found plan_host p = Inr False" "h_getenv_path plan_host = None"
  by (simp_all add: plan_host_def blank_host_def)

lemma stat_simps [simp]:
  "S_ISDIR (st_mode private_stat)" "\<not> S_ISREG (st_mode private_stat)" "\<not> S_ISLNK (st_mode private_stat)" "st_uid private_stat = 1000"
  "group_or_other_bits (st_mode private_stat) = 0" "directory_mode_is_safe h (st_mode private_stat) u g f" "st_nlink private_stat = 2"
  "S_ISREG (st_mode program_stat)" "\<not> S_ISDIR (st_mode program_stat)" "\<not> S_ISLNK (st_mode program_stat)" "st_uid program_stat = 1000"
  "mode_is_safe (st_mode program_stat)" "any_execute_bit (st_mode program_stat)" "st_nlink program_stat = 1"
  by (simp_all add: private_stat_def program_stat_def blank_stat_def S_ISDIR_def S_ISREG_def S_ISLNK_def group_or_other_bits_def
        directory_mode_is_safe_def S_IWOTH_def S_IWGRP_def mode_is_safe_def any_execute_bit_def)

lemma linked_plan_host: "linked_host plan_host"
  by (simp add: linked_host_def plan_fstat_def)

lemma anchored_paths:
  "find_anchor plan_kernel plan_anchors ''/w'' = Inr \<lparr>ar_anchor = \<lparr>an_fd = 1, an_root = ''/w''\<rparr>, ar_relative = []\<rparr>"
  "find_anchor plan_kernel plan_anchors ''/s'' = Inr \<lparr>ar_anchor = \<lparr>an_fd = 2, an_root = ''/s''\<rparr>, ar_relative = []\<rparr>"
  "find_anchor plan_kernel plan_anchors ''/h'' = Inr \<lparr>ar_anchor = \<lparr>an_fd = 4, an_root = ''/h''\<rparr>, ar_relative = []\<rparr>"
  "find_anchor plan_kernel plan_anchors ''/w/make'' = Inr \<lparr>ar_anchor = \<lparr>an_fd = 1, an_root = ''/w''\<rparr>, ar_relative = ''make''\<rparr>"
  "find_anchor plan_kernel plan_anchors ''/w/sh'' = Inr \<lparr>ar_anchor = \<lparr>an_fd = 1, an_root = ''/w''\<rparr>, ar_relative = ''sh''\<rparr>"
  "find_anchor plan_kernel plan_anchors ''/w/.venv/bin'' = Inr \<lparr>ar_anchor = \<lparr>an_fd = 1, an_root = ''/w''\<rparr>, ar_relative = ''.venv/bin''\<rparr>"
  "find_anchor plan_kernel plan_anchors ''/w/node_modules/.bin''
     = Inr \<lparr>ar_anchor = \<lparr>an_fd = 1, an_root = ''/w''\<rparr>, ar_relative = ''node_modules/.bin''\<rparr>"
  by code_simp+

lemma kernel_opens: "open_beneath plan_kernel fd p f m = Inr (if p = ''make'' then 7 else if p = ''sh'' then 8 else 5)"
  by (simp add: open_beneath_def plan_kernel_def sample_kernel_def upt_rec)

lemma opened_paths:
  "\<exists>opened. open_readable plan_kernel plan_anchors ''/w'' (node_flags n) 0 = io_return opened \<and> ao_fd opened = 5"
  "\<exists>opened. open_readable plan_kernel plan_anchors ''/s'' (node_flags n) 0 = io_return opened \<and> ao_fd opened = 5"
  "\<exists>opened. open_readable plan_kernel plan_anchors ''/h'' (node_flags n) 0 = io_return opened \<and> ao_fd opened = 5"
  "\<exists>opened. open_readable plan_kernel plan_anchors ''/w/make'' (node_flags n) 0 = io_return opened \<and> ao_fd opened = 7"
  "\<exists>opened. open_readable plan_kernel plan_anchors ''/w/sh'' (node_flags n) 0 = io_return opened \<and> ao_fd opened = 8"
  by (simp_all add: open_readable_def node_flags_def anchored_paths kernel_opens)

lemma normalized_paths:
  "normalized_absolute ''/w'' l = Inr ''/w''" "normalized_absolute ''/s'' l = Inr ''/s''" "normalized_absolute ''/h'' l = Inr ''/h''"
  "normalized_absolute ''/a'' l = Inr ''/a''" "normalized_absolute ''/w/make'' l = Inr ''/w/make''"
  "normalized_absolute ''/w/sh'' l = Inr ''/w/sh''"
  "normalized_absolute ''/w/.venv/bin'' l = Inr ''/w/.venv/bin''"
  "normalized_absolute ''/w/node_modules/.bin'' l = Inr ''/w/node_modules/.bin''"
  unfolding io_inversion by code_simp+

lemma inspected_directory:
  assumes "p \<in> {''/w'', ''/s'', ''/h''}" "expected \<noteq> RegularNode"
  shows "inspect_path_metadata plan_host p expected reject label (Some plan_anchors) = io_return (directory_at p)"
proof -
  obtain a where a: "find_anchor plan_kernel plan_anchors p = Inr \<lparr>ar_anchor = a, ar_relative = []\<rparr>" "an_fd a \<notin> {7, 8}"
    using assms(1) by (auto simp: anchored_paths)
  obtain opened where o: "open_readable plan_kernel plan_anchors p (node_flags expected) 0 = io_return opened" "ao_fd opened = 5"
    using assms(1) opened_paths(1-3) [of expected] by blast
  have n: "normalized_absolute p label = Inr p" using assms(1) by (auto simp: normalized_paths)
  show ?thesis
    using assms(2) a(2)
    by (simp add: inspect_path_metadata_def n a(1) o plan_fstat_def io_bind_def anchored_final_status_def unchanged_during_inspection_def
          same_identity_def Let_def)
qed

lemma program_opened:
  assumes "p \<in> {''/w/make'', ''/w/sh''}"
  obtains opened where "open_readable plan_kernel plan_anchors p (node_flags expected) 0 = io_return opened"
    "ao_fd opened = (if p = ''/w/sh'' then 8 else 7)"
  using assms opened_paths(4,5) [of expected] by auto

lemma inspected_program:
  assumes "p \<in> {''/w/make'', ''/w/sh''}" "expected \<noteq> DirectoryNode"
  shows "inspect_path_metadata plan_host p expected reject label (Some plan_anchors) = io_return (program_at p)"
proof -
  obtain opened where o: "open_readable plan_kernel plan_anchors p (node_flags expected) 0 = io_return opened"
    "ao_fd opened = (if p = ''/w/sh'' then 8 else 7)"
    using assms(1) by (rule program_opened)
  have n: "parent_path ''make'' = []" "path_filename ''make'' = ''make''" "parent_path ''sh'' = []" "path_filename ''sh'' = ''sh''" by code_simp+
  obtain rel where f: "find_anchor plan_kernel plan_anchors p = Inr \<lparr>ar_anchor = \<lparr>an_fd = 1, an_root = ''/w''\<rparr>, ar_relative = rel\<rparr>"
    "rel \<in> {''make'', ''sh''}" "parent_path rel = []" "path_filename rel = rel"
    using assms(1) by (auto simp: anchored_paths n)
  have "normalized_absolute p label = Inr p" using assms(1) by (auto simp: normalized_paths)
  moreover have "rel \<noteq> []" "rel \<noteq> ''.''" using f(2) by auto
  ultimately show ?thesis
    using assms(2) f(2)
    by (simp add: inspect_path_metadata_def f(1,3,4) o plan_fstat_def plan_fstatat_def io_bind_def
          anchored_final_status_def unchanged_during_inspection_def same_identity_def Let_def)
qed

lemma program_sealed:
  assumes "p \<in> {''/w/make'', ''/w/sh''}"
  shows "executable_metadata plan_host p plan_anchors = io_return (program_at p)"
proof -
  obtain opened where o: "open_readable plan_kernel plan_anchors p (node_flags AnyNode) 0 = io_return opened"
    "ao_fd opened = (if p = ''/w/sh'' then 8 else 7)"
    using assms by (rule program_opened)
  have n: "lexically_normal ''/w/make'' = ''/w/make''" "\<not> ends_with ''/w/make'' '' (deleted)''"
    "lexically_normal ''/w/sh'' = ''/w/sh''" "\<not> ends_with ''/w/sh'' '' (deleted)''" by code_simp+
  have l: "descriptor_executable_path plan_host (ao_fd opened) p = Inr p"
    using assms by (auto simp: descriptor_executable_path_def descriptor_physical_path_checked_def n o)
  show ?thesis
    using assms
    by (simp add: executable_metadata_def inspected_program o(1) l plan_fstat_def opened_matches_def validate_safe_executable_def owner_is_safe_def
          both_valid_def validate_safe_final_symlink_identity_def io_bind_def Let_def) (auto simp: o(2) metadata_from_def)
qed

lemma no_candidates:
  "add_optional_candidate plan_host plan_anchors ''/w/.venv/bin'' WorkspaceVenv es = io_return es"
  "add_optional_candidate plan_host plan_anchors ''/w/node_modules/.bin'' WorkspaceNodeModules es = io_return es"
proof -
  have p: "parent_path ''.venv/bin'' = ''.venv''" "path_filename ''.venv/bin'' = ''bin''" "parent_path ''node_modules/.bin'' = ''node_modules''"
    "path_filename ''node_modules/.bin'' = ''.bin''" "is_absolute ''/w/.venv/bin''" "is_absolute ''/w/node_modules/.bin''"
    "\<not> has_forbidden_path_byte ''/w/.venv/bin''" "\<not> has_forbidden_path_byte ''/w/node_modules/.bin''" by code_simp+
  have "\<exists>e. inspect_path_metadata plan_host ''/w/.venv/bin'' DirectoryNode r l (Some plan_anchors) = io_fail e"
    "\<exists>e. inspect_path_metadata plan_host ''/w/node_modules/.bin'' DirectoryNode r l (Some plan_anchors) = io_fail e" for r l
    by (simp_all add: inspect_path_metadata_def normalized_paths anchored_paths p kernel_opens plan_fstatat_def io_bind_def anchored_final_status_def Let_def)
  then obtain e1 e2 where e: "inspect_path_metadata plan_host ''/w/.venv/bin'' DirectoryNode True ''PATH entry'' (Some plan_anchors) = io_fail e1"
    "inspect_path_metadata plan_host ''/w/node_modules/.bin'' DirectoryNode True ''PATH entry'' (Some plan_anchors) = io_fail e2" by blast
  show "add_optional_candidate plan_host plan_anchors ''/w/.venv/bin'' WorkspaceVenv es = io_return es"
    "add_optional_candidate plan_host plan_anchors ''/w/node_modules/.bin'' WorkspaceNodeModules es = io_return es"
    by (simp_all add: add_optional_candidate_def safe_path_directory_def p e io_bind_def Let_def)
qed

section \<open>The sealed context\<close>

lemma plan_paths:
  "is_within ''/a'' ''/w'' = False" "is_within ''/w'' ''/a'' = False" "is_within ''/h'' ''/w'' = False" "overlaps_path ''/s'' ''/w'' = False"
  "overlaps_path ''/s'' ''/h'' = False" "path_append (path_append ''/w'' ''.venv'') ''bin'' = ''/w/.venv/bin''"
  "path_append (path_append ''/w'' ''node_modules'') ''.bin'' = ''/w/node_modules/.bin''" "launch_workspace_root plan_anchors = ''/w''"
  "path_eq ''/s'' ''/w'' = False" "is_absolute ''/w/make''" "is_absolute ''/w''" "is_absolute ''/s''" "is_absolute ''/h''"
  "lexically_normal ''/w/make'' = ''/w/make''" "lexically_normal ''/w'' = ''/w''" "lexically_normal ''/h'' = ''/h''"
  "paths_overlap ''/w/make'' ''/a'' = False" "paths_overlap ''/w/sh'' ''/a'' = False" "\<not> has_forbidden_path_byte ''/w''" "\<not> has_forbidden_path_byte ''/s''"
  by code_simp+

lemma directories_valid:
  "validate_safe_directory plan_host (directory_at p) c a l = Inr ()" "validate_synthetic_environment_directory plan_host (directory_at p) l = Inr ()"
  by (simp_all add: validate_safe_directory_def validate_synthetic_environment_directory_def owner_is_safe_def both_valid_def
        validate_safe_final_symlink_def validate_safe_final_symlink_identity_def) (simp_all add: metadata_from_def)

definition plan_context :: sealed_command_context where
  "plan_context = \<lparr>sc_workspace = ''/w'', sc_cwd = ''/w'', sc_workspace_metadata = directory_at ''/w'', sc_cwd_metadata = directory_at ''/w'',
     sc_trusted_home_metadata = directory_at ''/h'', sc_ava_authority_roots = [''/a''], sc_ava_authority_root_metadata = [],
     sc_synthetic_environment_roots = \<lparr>root_home = directory_at ''/s'', root_xdg_config_home = directory_at ''/s'',
       root_xdg_cache_home = directory_at ''/s'', root_xdg_data_home = directory_at ''/s'', root_xdg_state_home = directory_at ''/s'',
       root_tmpdir = directory_at ''/s''\<rparr>,
     sc_path_entries = []\<rparr>"

lemma limit_simps [simp]:
  "max_path_bytes default_limits = 16384" "max_path_entries default_limits = 64" "max_argument_bytes default_limits = 4096"
  "max_shebang_bytes default_limits = 512" "max_shebang_depth default_limits = 4" "max_argv_entries default_limits = 128"
  "max_request_bytes default_limits = 16384"
  by (simp_all add: default_limits_def)

lemma limits_valid: "validate_limits default_limits = Inr ()"
  by (simp add: validate_limits_def invalid_limit_def default_limits_def)

lemma plan_context_discovered: "discover_command_context plan_host plan_intent plan_options = io_return plan_context"
  by (simp add: discover_command_context_def plan_options_def plan_intent_def limits_valid normalized_paths plan_paths inspected_directory
        directories_valid capture_cwd_def capture_synthetic_roots_def capture_synthetic_root_def anchored_paths discover_path_def
        startup_path_entries_def no_candidates entries_disjoint_def plan_context_def io_bind_def Let_def)

section \<open>The sealed plan\<close>

lemma directory_fresh:
  assumes "p \<in> {''/w'', ''/s'', ''/h''}"
  shows "path_metadata_is_fresh plan_host (directory_at p) (Some plan_anchors) = io_return True"
  using assms
  by (simp add: path_metadata_is_fresh_def path_metadata_is_fresh_with_ancestors_def inspected_directory [OF assms] ancestors_fresh_for_def
        metadata_equal_def io_bind_def)

lemma home_fresh: "trusted_home_metadata_is_fresh plan_host (directory_at ''/h'') (Some plan_anchors) = io_return True"
  by (simp add: trusted_home_metadata_is_fresh_def inspected_directory directories_valid trusted_home_directory_identity_is_fresh_def io_bind_def)

lemma environment_made:
  "\<exists>env. environment_make plan_host (bo_environment plan_options) [] ''/w'' (directory_at ''/h'') (sc_synthetic_environment_roots plan_context)
     default_limits (Some plan_anchors) = io_return env"
proof -
  have c: "safe_profile_id ''p''" "\<not> has_c0_or_del ''u''" by code_simp+
  show ?thesis
    by (simp add: environment_make_def limits_valid plan_paths c plan_options_def home_fresh plan_context_def root_list_def
          validate_sealed_environment_root_def directory_fresh io_bind_def Let_def del: has_c0_or_del.simps)
qed

definition plan_program :: resolved_executable where
  "plan_program = \<lparr>re_executable = program_at ''/w/make'', re_origin = WorkspaceOrigin,
     re_shebang_interpreters = [linked (program_at ''/w/sh'') [] False], re_shebang_fully_resolved = True\<rparr>"

lemma plan_program_simps [simp]:
  "re_executable plan_program = program_at ''/w/make''" "re_origin plan_program = WorkspaceOrigin"
  "re_shebang_interpreters plan_program = [linked (program_at ''/w/sh'') [] False]"
  "re_shebang_fully_resolved plan_program"
  by (simp_all add: plan_program_def)

lemma program_shebang:
  "shebang_interpreter_path plan_host (program_at ''/w/make'') default_limits plan_anchors
     = io_return (Some \<lparr>sp_interpreter_path = ''/w/sh'', sp_argument = [], sp_is_env = False\<rparr>)"
  "shebang_interpreter_path plan_host (program_at ''/w/sh'') default_limits plan_anchors = io_return None"
proof -
  have none: "parse_shebang_line n c [] = Inr None" for n c by (simp add: parse_shebang_line_def starts_with_def)
  have line: "starts_with ''#!/w/sh'' ''#!''" "str_find [CHR 0x0A] ''#!/w/sh'' = None" "dropWhile is_separator ''/w/sh'' = ''/w/sh''"
    "takeWhile (\<lambda>ch. \<not> is_separator ch) ''/w/sh'' = ''/w/sh''" "dropWhile (\<lambda>ch. \<not> is_separator ch) ''/w/sh'' = []"
    "\<not> has_c0_or_del ''/w/sh''" "is_absolute ''/w/sh''" by code_simp+
  have parse: "parse_shebang_line 256 c ''#!/w/sh'' = Inr (Some \<lparr>sp_interpreter_path = ''/w/sh'', sp_argument = [], sp_is_env = False\<rparr>)" for c
    by (simp add: parse_shebang_line_def line Let_def del: has_c0_or_del.simps dropWhile.simps takeWhile.simps)
  obtain opened where o: "open_readable plan_kernel plan_anchors ''/w/make'' (node_flags AnyNode) 0 = io_return opened" "ao_fd opened = 7"
    using opened_paths(4) [of AnyNode] by blast
  then show "shebang_interpreter_path plan_host (program_at ''/w/make'') default_limits plan_anchors
      = io_return (Some \<lparr>sp_interpreter_path = ''/w/sh'', sp_argument = [], sp_is_env = False\<rparr>)"
    by (simp add: shebang_interpreter_path_def plan_fstat_def opened_matches_def parse io_bind_def Let_def)
      (simp add: metadata_from_def)
  obtain opened where o: "open_readable plan_kernel plan_anchors ''/w/sh'' (node_flags AnyNode) 0 = io_return opened" "ao_fd opened = 8"
    using opened_paths(5) [of AnyNode] by blast
  then show "shebang_interpreter_path plan_host (program_at ''/w/sh'') default_limits plan_anchors = io_return None"
    by (simp add: shebang_interpreter_path_def plan_fstat_def opened_matches_def none io_bind_def Let_def) (simp add: metadata_from_def)
qed

lemma program_chain:
  "inspect_shebang_chain plan_host (program_at ''/w/make'') default_limits [] plan_anchors
     = io_return ([linked (program_at ''/w/sh'') [] False], True)"
proof -
  have "\<not> path_eq ''/w/sh'' ''/w/make''" by code_simp
  then show ?thesis
    by (simp add: inspect_shebang_chain_def shebang_chain_loop.simps program_shebang program_sealed linked_def io_bind_def)
qed

lemma program_resolved:
  "resolve_executable plan_host [''/w/make''] [] ''/w'' ''/w'' ''/h'' default_limits (Some plan_anchors) = io_return plan_program"
proof -
  have w: "is_within ''/w/make'' ''/w''" "is_within ''/w/sh'' ''/w''" by code_simp+
  show ?thesis
    by (simp add: resolve_executable_def program_sealed plan_paths program_chain executable_origin_def w plan_program_def linked_def join_origin_def
          io_bind_def)
qed

definition make_classification :: command_classification where
  "make_classification =
     apply_executable_origin_invariants (standard_classification MakeFamily Make [''/w/make''] [] True False) plan_program"

lemma make_classification_simps [simp]:
  "cc_level make_classification = Standard" "cc_family make_classification = MakeFamily"
  "cc_recipe make_classification = Some \<lparr>rd_recipe = Make, rd_canonical_argv = [''/w/make''], rd_path_arguments = []\<rparr>"
  "executes_mutable_project_code (cc_capabilities make_classification)" "requires_containment (cc_capabilities make_classification)"
  "cc_max_interactive_scope make_classification = WorkspaceScope"
  by (simp_all add: make_classification_def standard_classification_def apply_executable_origin_invariants_def)

lemma program_classified:
  "classify_command plan_host [''/w/make''] plan_program ''/w'' ''/w'' [] (Some plan_anchors) = Some make_classification"
proof -
  have n: "path_filename ''/w/make'' = ''make''" "locale_lower_copy ''make'' = ''make''"
    "classify_destructive_or_privileged ''make'' [''/w/make''] = None" "\<not> is_inline_interpreter ''make'' [''/w/make'']"
    "classify_sensitive ''make'' [''/w/make''] = None" by code_simp+
  have c: "classification_name plan_program = ''make''"
    by (simp add: classification_name_def n Let_def)
  show ?thesis
    by (simp add: classify_command_def c n classify_standard_def make_classification_def canonical_recipe_argv_def Let_def)
qed

lemma option_simps [simp]:
  "bo_limits plan_options = default_limits" "bo_anchor_set plan_options = Some plan_anchors" "bo_trusted_home plan_options = ''/h''"
  "bo_workspace_script_recipes plan_options = []" "ci_lane plan_intent = StructuredArgv" "ci_argv plan_intent = [''/w/make'']"
  "sc_path_entries plan_context = []" "sc_cwd plan_context = ''/w''" "sc_workspace plan_context = ''/w''"
  "sc_trusted_home_metadata plan_context = directory_at ''/h''" "sc_ava_authority_roots plan_context = [''/a'']"
  "sc_workspace_metadata plan_context = directory_at ''/w''" "sc_cwd_metadata plan_context = directory_at ''/w''"
  "sc_ava_authority_root_metadata plan_context = []"
  by (simp_all add: plan_options_def plan_intent_def plan_context_def)

text \<open>The plan of the run, and its environment.\<close>

lemma plan_sealed:
  "\<exists>p env. seal_command_plan plan_host plan_intent plan_options = io_return p
     \<and> environment_make plan_host (bo_environment plan_options) [] ''/w'' (directory_at ''/h'') (sc_synthetic_environment_roots plan_context)
         default_limits (Some plan_anchors) = io_return env
     \<and> p = sealed_plan plan_intent plan_options plan_context env DirectArgv [''/w/make''] [] plan_program make_classification"
proof -
  obtain env where env: "environment_make plan_host (bo_environment plan_options) [] ''/w'' (directory_at ''/h'')
      (sc_synthetic_environment_roots plan_context) default_limits (Some plan_anchors) = io_return env"
    using environment_made by blast
  have "\<not> has_c0_or_del ''/w/make''" by code_simp
  then have v: "validate_structured_argv [''/w/make''] default_limits = Inr ()"
    by (simp add: validate_structured_argv_def limits_valid exceeds_limit_def del: has_c0_or_del.simps)
  have a: "\<not> executable_overlaps_authority plan_program [''/a'']"
    by (simp add: executable_overlaps_authority_def metadata_overlaps_authority_def plan_paths linked_def)
  have "seal_command_plan plan_host plan_intent plan_options
      = io_return (sealed_plan plan_intent plan_options plan_context env DirectArgv [''/w/make''] [] plan_program make_classification)"
    by (simp add: seal_command_plan_def seal_direct_def plan_context_discovered v limits_valid env program_resolved program_classified a io_bind_def)
  with env show ?thesis by blast
qed

definition sample_sealed :: command_plan where
  "sample_sealed = (case seal_command_plan plan_host plan_intent plan_options of Some (Inr p) \<Rightarrow> p | _ \<Rightarrow> undefined)"

lemma sample_sealed: "seal_command_plan plan_host plan_intent plan_options = io_return sample_sealed"
  using plan_sealed by (auto simp: sample_sealed_def)

lemma sample_sealedE:
  obtains env where
    "environment_make plan_host (bo_environment plan_options) [] ''/w'' (directory_at ''/h'') (sc_synthetic_environment_roots plan_context)
       default_limits (Some plan_anchors) = io_return env"
    "sample_sealed = sealed_plan plan_intent plan_options plan_context env DirectArgv [''/w/make''] [] plan_program make_classification"
  using plan_sealed sample_sealed by auto

lemma sealed_plan_simps [simp]:
  "cp_workspace (sealed_plan i opts c env d a t e k) = sc_workspace c" "cp_cwd (sealed_plan i opts c env d a t e k) = sc_cwd c"
  "cp_workspace_metadata (sealed_plan i opts c env d a t e k) = sc_workspace_metadata c"
  "cp_cwd_metadata (sealed_plan i opts c env d a t e k) = sc_cwd_metadata c" "cp_anchor_set (sealed_plan i opts c env d a t e k) = bo_anchor_set opts"
  "cp_trusted_home_metadata (sealed_plan i opts c env d a t e k) = sc_trusted_home_metadata c"
  "cp_ava_authority_roots (sealed_plan i opts c env d a t e k) = sc_ava_authority_roots c"
  "cp_ava_authority_root_metadata (sealed_plan i opts c env d a t e k) = sc_ava_authority_root_metadata c"
  "cp_synthetic_environment_roots (sealed_plan i opts c env d a t e k) = sc_synthetic_environment_roots c"
  "cp_path_entries (sealed_plan i opts c env d a t e k) = sc_path_entries c" "cp_plan_argv (sealed_plan i opts c env d a t e k) = a"
  "cp_resolved_executable (sealed_plan i opts c env d a t e k) = Some e" "cp_classification (sealed_plan i opts c env d a t e k) = k"
  "cp_environment_profile_id (sealed_plan i opts c env d a t e k) = env_profile_id env"
  "cp_environment_digest (sealed_plan i opts c env d a t e k) = env_digest env"
  by (simp_all add: sealed_plan_def Let_def)

section \<open>Witnesses\<close>

theorem sealed_plan_isolated_witness:
  "seal_command_plan plan_host plan_intent plan_options = io_return sample_sealed \<and> inside ''/w'' (cp_cwd sample_sealed)
   \<and> apart ''/a'' (cp_workspace sample_sealed)"
proof -
  obtain env where m: "sample_sealed = sealed_plan plan_intent plan_options plan_context env DirectArgv [''/w/make''] [] plan_program make_classification"
    by (rule sample_sealedE)
  show ?thesis using sealed_plan_isolated [OF sample_sealed] sample_sealed by (simp add: m)
qed

lemma metadata_equal_refl [simp]: "metadata_equal md md"
  by (simp add: metadata_equal_def ancestor_equal_def list_all2_refl)

theorem prepared_environment_exact_witness:
  "\<exists>env. prepare_command plan_host plan_host plan_intent plan_options = io_return (sample_sealed, env)
     \<and> map fst (env_entries env) = [''LANG'', ''LC_ALL'', ''LC_CTYPE'', ''TZ'', ''USER'', ''LOGNAME'', ''PWD'', ''PATH'', ''HOME'',
         ''XDG_CONFIG_HOME'', ''XDG_CACHE_HOME'', ''XDG_DATA_HOME'', ''XDG_STATE_HOME'', ''TMPDIR'']"
proof -
  obtain env where m: "environment_make plan_host (bo_environment plan_options) [] ''/w'' (directory_at ''/h'')
      (sc_synthetic_environment_roots plan_context) default_limits (Some plan_anchors) = io_return env"
    "sample_sealed = sealed_plan plan_intent plan_options plan_context env DirectArgv [''/w/make''] [] plan_program make_classification"
    by (rule sample_sealedE)
  have "env_roots env = sc_synthetic_environment_roots plan_context" using environment_make_entries [OF m(1)] by simp
  then have "prepare_command plan_host plan_host plan_intent plan_options = io_return (sample_sealed, env)"
    by (simp add: prepare_command_def sample_sealed io_bind_def m validate_environment_matches_plan_def roots_equal_def)
  with prepared_environment_exact [OF this] show ?thesis by (simp add: environment_entries_def)
qed

theorem fresh_plan_unchanged_witness:
  "plan_is_fresh plan_host sample_sealed = io_return True \<and> still_the_path plan_host (Some plan_anchors) (directory_at ''/w'')"
proof -
  obtain env where m: "sample_sealed = sealed_plan plan_intent plan_options plan_context env DirectArgv [''/w/make''] [] plan_program make_classification"
    by (rule sample_sealedE)
  have "\<not> is_within ''/w/make'' ''/h''" "\<not> is_within ''/w/sh'' ''/h''" by code_simp+
  then have exe: "fresh_user_tool_or_strict_executable plan_host (program_at p) (directory_at ''/h'') (Some plan_anchors) = io_return True"
    if "p \<in> {''/w/make'', ''/w/sh''}" for p
    using that by (auto simp: fresh_user_tool_or_strict_executable_def is_sealed_user_tool_path_def executable_metadata_is_fresh_def
      executable_metadata_is_fresh_with_ancestors_def program_sealed ancestors_fresh_for_def metadata_equal_def io_bind_def)
  have sep: "\<not> paths_overlap ''/s'' ''/w''" "\<not> paths_overlap ''/s'' ''/h''" by code_simp+
  have "plan_is_fresh plan_host sample_sealed = io_return True"
    by (simp add: plan_is_fresh_def m and_fresh_def io_bind_def linked_def exe directory_fresh home_fresh
          authority_root_absent_def synthetic_root_fresh_def plan_context_def root_list_def sep Let_def)
  with fresh_plan_unchanged [OF this] show ?thesis by (simp add: m(1))
qed

theorem shebang_chain_bounded_witness:
  "inspect_shebang_chain plan_host (program_at ''/w/make'') default_limits [] plan_anchors
     = io_return ([linked (program_at ''/w/sh'') [] False], True)
   \<and> length [linked (program_at ''/w/sh'') [] False] \<le> max_shebang_depth default_limits + 1"
  using shebang_chain_bounded [OF program_chain] program_chain by blast

theorem sealed_plan_fingerprinted_witness:
  "seal_command_plan plan_host plan_intent plan_options = io_return sample_sealed \<and> linked_host plan_host \<and> plan_ok sample_sealed"
  using sealed_plan_fingerprinted [OF sample_sealed linked_plan_host] sample_sealed linked_plan_host by blast

end
