(* ===== verification/Permission.thy ===== *)
theory Permission
  imports Command_Plan
begin

text \<open>
  The permission policy: \<^verbatim>\<open>permissions/permission.h\<close> and the decisions of \<^verbatim>\<open>permissions/permission.cpp\<close>.
  The theory holds the names of actions, risks and operations, the guidance a user may attach
  to an answer, the path policy (secret files, workspace containment, planning documents), the
  legacy command classifier and \<^verbatim>\<open>decide\<close>.

  Whether a path is a link, what a link says and what opens beneath the workspace are answers
  of the operating system: the record \<open>permission_host\<close>, on top of the kernel of \<open>Anchors\<close>.
\<close>

section \<open>Names\<close>

datatype permission_action = Allow | Ask | Deny

datatype permission_risk = LowRisk | MediumRisk | HighRisk | CriticalRisk

datatype containment_status =
  NotRequired | Unavailable | Available | ActiveContainment | UnverifiedExecutor

datatype operation =
    ReadFile | SearchFiles | EditFile | RunCommand | NetworkFetch | NetworkSearch | LspServerLaunch | LspQuery
  | SkillLoad | TaskRun | PluginExecute | PluginToolCall | PluginCommandRun | PluginUiPresent | PluginEventObserve
  | McpServerLaunch | McpServerConnect | McpToolCall | McpResourceRead

datatype permission_resolution = ResolveAllow | ResolveAllowSessionGrant | ResolveDeny | ResolveCancel

fun action_to_string :: "permission_action \<Rightarrow> string" where
  "action_to_string Allow = ''allow''"
| "action_to_string Ask = ''ask''"
| "action_to_string Deny = ''deny''"

fun resolution_to_string :: "permission_resolution \<Rightarrow> string" where
  "resolution_to_string ResolveAllow = ''allow''"
| "resolution_to_string ResolveAllowSessionGrant = ''allow''"
| "resolution_to_string ResolveDeny = ''deny''"
| "resolution_to_string ResolveCancel = ''cancel''"

fun containment_to_string :: "containment_status \<Rightarrow> string" where
  "containment_to_string NotRequired = ''not_required''"
| "containment_to_string Unavailable = ''unavailable''"
| "containment_to_string Available = ''available''"
| "containment_to_string ActiveContainment = ''active''"
| "containment_to_string UnverifiedExecutor = ''unverified_delegated_executor''"

fun risk_to_string :: "permission_risk \<Rightarrow> string" where
  "risk_to_string LowRisk = ''low''"
| "risk_to_string MediumRisk = ''medium''"
| "risk_to_string HighRisk = ''high''"
| "risk_to_string CriticalRisk = ''critical''"

fun operation_to_string :: "operation \<Rightarrow> string" where
  "operation_to_string ReadFile = ''read''"
| "operation_to_string SearchFiles = ''search''"
| "operation_to_string EditFile = ''edit''"
| "operation_to_string RunCommand = ''bash''"
| "operation_to_string NetworkFetch = ''network.fetch''"
| "operation_to_string NetworkSearch = ''network.search''"
| "operation_to_string LspServerLaunch = ''lsp.server.launch''"
| "operation_to_string LspQuery = ''lsp.query''"
| "operation_to_string SkillLoad = ''skill''"
| "operation_to_string TaskRun = ''task''"
| "operation_to_string PluginExecute = ''plugin.execute''"
| "operation_to_string PluginToolCall = ''plugin.tool.call''"
| "operation_to_string PluginCommandRun = ''plugin.command.run''"
| "operation_to_string PluginUiPresent = ''plugin.ui.present''"
| "operation_to_string PluginEventObserve = ''plugin.event.observe''"
| "operation_to_string McpServerLaunch = ''mcp.server.launch''"
| "operation_to_string McpServerConnect = ''mcp.server.connect''"
| "operation_to_string McpToolCall = ''mcp.tool.call''"
| "operation_to_string McpResourceRead = ''mcp.resource.read''"

definition parse_permission_action :: "string \<Rightarrow> permission_action option" where
  "parse_permission_action v =
     (if v = ''allow'' then Some Allow
      else if v = ''ask'' then Some Ask
      else if v = ''deny'' then Some Deny
      else None)"

definition parse_operation :: "string \<Rightarrow> operation option" where
  "parse_operation v =
     (if v = ''read'' then Some ReadFile
      else if v = ''search'' then Some SearchFiles
      else if v = ''edit'' then Some EditFile
      else if v = ''bash'' then Some RunCommand
      else if v = ''network.fetch'' then Some NetworkFetch
      else if v = ''network.search'' then Some NetworkSearch
      else if v = ''lsp.server.launch'' then Some LspServerLaunch
      else if v = ''lsp.query'' then Some LspQuery
      else if v = ''skill'' then Some SkillLoad
      else if v = ''task'' then Some TaskRun
      else if v = ''plugin.execute'' then Some PluginExecute
      else if v = ''plugin.tool.call'' then Some PluginToolCall
      else if v = ''plugin.command.run'' then Some PluginCommandRun
      else if v = ''plugin.ui.present'' then Some PluginUiPresent
      else if v = ''plugin.event.observe'' then Some PluginEventObserve
      else if v = ''mcp.server.launch'' then Some McpServerLaunch
      else if v = ''mcp.server.connect'' then Some McpServerConnect
      else if v = ''mcp.tool.call'' then Some McpToolCall
      else if v = ''mcp.resource.read'' then Some McpResourceRead
      else None)"

section \<open>Guidance attached to an answer\<close>

abbreviation (input) kMaxPermissionUserGuidanceBytes :: nat where
  "kMaxPermissionUserGuidanceBytes \<equiv> 2048"

definition validated_permission_user_guidance :: "string \<Rightarrow> string option" where
  "validated_permission_user_guidance v =
     (if v = [] \<or> length v > kMaxPermissionUserGuidanceBytes \<or> has_c0_or_del v \<or> \<not> is_valid_utf8 v then None else Some v)"

definition guidance_space :: "char \<Rightarrow> bool" where
  "guidance_space c \<longleftrightarrow> c = CHR '' '' \<or> c = CHR 0x09 \<or> c = CHR 0x0A \<or> c = CHR 0x0D"

text \<open>The second trimming loop never removes the first byte.\<close>

definition trim_back_but_first :: "string \<Rightarrow> string" where
  "trim_back_but_first s = (case s of [] \<Rightarrow> [] | c # r \<Rightarrow> c # drop_back_while guidance_space r)"

definition guidance_member :: "string \<Rightarrow> string" where
  "guidance_member g = dquote # ''provider_user_guidance'' @ [dquote, CHR '':'', dquote] @ escape g @ [dquote, CHR ''}'']"

definition with_provider_user_guidance :: "string \<Rightarrow> string \<Rightarrow> string" where
  "with_provider_user_guidance content guidance =
     (case validated_permission_user_guidance guidance of
        None \<Rightarrow> content
      | Some validated \<Rightarrow>
          let valid = is_valid_object content;
              trimmed = (if valid then drop_back_while guidance_space content else content) in
          if valid \<and> length trimmed \<ge> 2 \<and> last trimmed = CHR ''}'' then
            let body = trim_back_but_first (butlast trimmed);
                empty_object = (length body = 1) in
            (if empty_object then body else body @ '','') @ guidance_member validated
          else
            (if trimmed \<noteq> [] \<and> last trimmed \<noteq> CHR 0x0A then trimmed @ [CHR 0x0A] else trimmed)
              @ ''[ava:provider_user_guidance] '' @ validated)"

section \<open>Command lines of the legacy classifier\<close>

definition lowercase :: "string \<Rightarrow> string" where
  "lowercase v = map tolower v"

definition contains_any :: "string \<Rightarrow> string list \<Rightarrow> bool" where
  "contains_any v needles \<longleftrightarrow> list_ex (\<lambda>needle. str_find needle v \<noteq> None) needles"

definition equals_any :: "string \<Rightarrow> string list \<Rightarrow> bool" where
  "equals_any v candidates \<longleftrightarrow> list_ex (\<lambda>candidate. v = candidate) candidates"

definition is_line_metacharacter :: "char \<Rightarrow> bool" where
  "is_line_metacharacter c \<longleftrightarrow> c \<in> set '';&|<>`$()''"

record line_state =
  ls_argv :: "string list"
  ls_current :: string
  ls_quote :: "char option"
  ls_escaping :: bool

fun parse_line_loop :: "line_state \<Rightarrow> string \<Rightarrow> string + line_state" where
  "parse_line_loop st [] = Inr st"
| "parse_line_loop st (ch # r) =
     (if byte ch < 0x20 \<or> byte ch = 0x7F then Inl ''command contains a forbidden control byte''
      else if ls_escaping st then parse_line_loop (st\<lparr>ls_current := ls_current st @ [ch], ls_escaping := False\<rparr>) r
      else if ch = bslash then parse_line_loop (st\<lparr>ls_escaping := True\<rparr>) r
      else if ls_quote st \<noteq> None then
        (if ls_quote st = Some ch then parse_line_loop (st\<lparr>ls_quote := None\<rparr>) r
         else parse_line_loop (st\<lparr>ls_current := ls_current st @ [ch]\<rparr>) r)
      else if ch = squote \<or> ch = dquote then parse_line_loop (st\<lparr>ls_quote := Some ch\<rparr>) r
      else if is_line_metacharacter ch then Inl ''shell metacharacters are not supported by the command tool''
      else if isspace ch then
        (if ls_current st \<noteq> [] then parse_line_loop (st\<lparr>ls_argv := ls_argv st @ [ls_current st], ls_current := []\<rparr>) r
         else parse_line_loop st r)
      else parse_line_loop (st\<lparr>ls_current := ls_current st @ [ch]\<rparr>) r)"

text \<open>\<open>Inl\<close> is a parse that is not ok, with its reason; \<open>Inr\<close> an ok parse with its words.\<close>

definition parse_command_argv :: "string \<Rightarrow> string + string list" where
  "parse_command_argv command =
     (case parse_line_loop \<lparr>ls_argv = [], ls_current = [], ls_quote = None, ls_escaping = False\<rparr> command of
        Inl reason \<Rightarrow> Inl reason
      | Inr st \<Rightarrow>
          if ls_escaping st \<or> ls_quote st \<noteq> None then Inl ''unterminated command escape or quote''
          else
            let argv = (if ls_current st \<noteq> [] then ls_argv st @ [ls_current st] else ls_argv st) in
            if argv = [] then Inl ''empty command'' else Inr argv)"

definition lowercase_argv :: "string list \<Rightarrow> string list" where
  "lowercase_argv argv = map lowercase argv"

section \<open>Path policy\<close>

record permission_host =
  ph_kernel :: kernel
  ph_logical_cwd :: string
  ph_is_symlink :: "string \<Rightarrow> bool"
  ph_read_symlink :: "string \<Rightarrow> string syscall"
  ph_open_directory :: "string \<Rightarrow> descriptor syscall"

definition path_only :: open_flags where
  "path_only = \<lparr>o_rdonly = True, o_directory = False, o_creat = False, o_nofollow = False\<rparr>"

lemma path_parts_render:
  assumes "\<forall>w \<in> set ws. good_name w"
  shows "path_parts (render_path absolute ws False) = (if absolute then [''/''] else []) @ ws"
proof (cases "ws = []")
  case True
  then show ?thesis by (cases absolute) (simp_all add: path_parts_def trailing_separator_def render_path_def is_absolute_def)
next
  case False
  show ?thesis
  proof (cases absolute)
    case True
    with False assms show ?thesis by (simp add: path_parts_def)
  next
    case no: False
    with False show ?thesis using hd_render_relative(2) [OF assms False, of False] by simp
  qed
qed

lemma parent_path_parts:
  assumes "path_names p \<noteq> []"
  shows "path_parts (parent_path p) = butlast (path_parts p)"
proof -
  have good: "\<forall>w \<in> set (path_names p). good_name w" by (simp add: path_names_good)
  then have "\<forall>w \<in> set (butlast (path_names p)). good_name w" by (meson in_set_butlastD)
  then show ?thesis
    using assms good by (simp add: parent_path_def path_parts_render) (simp add: path_parts_def butlast_append)
qed

lemma parent_path_shorter:
  assumes "\<not> path_eq (parent_path p) p"
  shows "length (path_parts (parent_path p)) < length (path_parts p)"
proof -
  have names: "path_names p \<noteq> []" using assms by (auto simp: parent_path_def)
  then have "path_parts p \<noteq> []" by (simp add: path_parts_def)
  with names show ?thesis by (simp add: parent_path_parts)
qed

text \<open>A missing target is judged by its nearest existing parent.\<close>

function target_beneath :: "kernel \<Rightarrow> descriptor \<Rightarrow> string \<Rightarrow> bool" where
  "target_beneath k workspace_fd relative =
     (case open_beneath k workspace_fd relative path_only 0 of
        Inr target_fd \<Rightarrow> True
      | Inl errno \<Rightarrow>
          if errno \<noteq> ENOENT \<and> errno \<noteq> ENOTDIR then False
          else
            let parent = parent_path relative in
            if parent = [] \<or> path_eq parent relative then True
            else target_beneath k workspace_fd parent)"
  by pat_completeness auto
termination
  by (relation "measure (\<lambda>(k, fd, r). length (path_parts r))") (auto simp: parent_path_shorter)

declare target_beneath.simps [simp del]

definition is_within_workspace :: "permission_host \<Rightarrow> string \<Rightarrow> string \<Rightarrow> bool" where
  "is_within_workspace h workspace_dir target_path =
     (if target_path = [] then True
      else
        let workspace = normalized_absolute_path (ph_logical_cwd h) workspace_dir;
            target = normalized_absolute_path (ph_logical_cwd h) target_path in
        if path_eq target workspace then True
        else
          let relative = lexically_relative target workspace in
          if relative = [] \<or> hd (path_parts relative) = ''..'' then False
          else if ph_is_symlink h target then
            (case ph_read_symlink h target of
               Inl link_error \<Rightarrow> False
             | Inr link \<Rightarrow>
                 let destination = lexically_normal (if \<not> is_absolute link then path_append (parent_path target) link else link) in
                 if path_eq destination workspace then True
                 else
                   let destination_relative = lexically_relative destination workspace in
                   destination_relative \<noteq> [] \<and> hd (path_parts destination_relative) \<noteq> ''..'')
          else
            (case ph_open_directory h workspace of
               Inl errno \<Rightarrow> False
             | Inr workspace_fd \<Rightarrow> target_beneath (ph_kernel h) workspace_fd relative))"

definition policy_path :: "permission_host \<Rightarrow> string \<Rightarrow> string" where
  "policy_path h p = normalized_absolute_path (ph_logical_cwd h) p"

fun secret_component :: "bool \<Rightarrow> string list \<Rightarrow> bool" where
  "secret_component previous_is_config [] = False"
| "secret_component previous_is_config (part # parts) =
     (let component = lowercase part in
      if equals_any component [''.ssh'', ''.aws'', ''.gnupg''] \<or> (previous_is_config \<and> component = ''gcloud'') then True
      else secret_component (component = ''.config'') parts)"

definition is_secret_path :: "string \<Rightarrow> bool" where
  "is_secret_path p =
     (if secret_component False (path_parts (lexically_normal p)) then True
      else
        let filename = lowercase (path_filename p) in
        if filename = ''.env'' \<or> starts_with filename ''.env.'' then filename \<noteq> ''.env.example''
        else if equals_any filename [''.npmrc'', ''.netrc'', ''.pypirc'', ''.gem/credentials'', ''.dockerconfigjson'',
                                     ''credentials.json'', ''auth.json'', ''config.json''] then
          let full = lowercase (lexically_normal p) in
          filename \<noteq> ''config.json'' \<or> contains_any full [''/.docker/'', bslash # ''.docker'' @ [bslash]]
        else
          let full = lowercase p in
          contains_any full [''id_rsa'', ''id_ed25519'', ''id_ecdsa'', ''id_dsa'', ''/.ssh/'', bslash # ''.ssh'' @ [bslash],
                             ''/.aws/'', bslash # ''.aws'' @ [bslash], ''/.gnupg/'', bslash # ''.gnupg'' @ [bslash],
                             ''credentials'', ''secret'', ''token''])"

definition is_markdown_path :: "string \<Rightarrow> bool" where
  "is_markdown_path p \<longleftrightarrow> lowercase (path_extension p) = ''.md''"

definition is_planning_markdown :: "string \<Rightarrow> bool" where
  "is_planning_markdown p =
     (let normalized = lowercase (lexically_normal p) in
      is_markdown_path p \<and>
      (str_find ''docs/'' normalized \<noteq> None \<or> str_find ''plan'' normalized \<noteq> None \<or> str_find ''version'' normalized \<noteq> None))"

section \<open>The legacy command classifier\<close>

definition is_safe_relative_path_arg :: "string \<Rightarrow> bool" where
  "is_safe_relative_path_arg v =
     (if v = [] \<or> starts_with v ''-'' then True
      else if is_absolute v then False
      else if list_ex (\<lambda>part. part = ''..'') (path_parts (lexically_normal v)) then False
      else \<not> is_secret_path v)"

definition is_path_carrying_option :: "string \<Rightarrow> bool" where
  "is_path_carrying_option v =
     (let lower = lowercase v in
      if equals_any lower [''-o'', ''--output'', ''--git-dir'', ''--work-tree'', ''--exec-path'', ''--config-env''] then True
      else starts_with lower ''--output='' \<or> starts_with lower ''--git-dir='' \<or> starts_with lower ''--work-tree='' \<or>
        starts_with lower ''--exec-path='' \<or> starts_with lower ''--config-env='')"

definition has_unsafe_path_arg :: "string list \<Rightarrow> nat \<Rightarrow> bool" where
  "has_unsafe_path_arg argv start \<longleftrightarrow>
     list_ex (\<lambda>a. is_path_carrying_option a \<or> \<not> is_safe_relative_path_arg a) (drop start argv)"

definition is_dangerous_cmake_arg :: "string \<Rightarrow> bool" where
  "is_dangerous_cmake_arg v \<longleftrightarrow> v = ''-e'' \<or> v = ''-p'' \<or> v = ''--install'' \<or> v = ''--open''"

fun simple_number_loop :: "bool \<Rightarrow> bool \<Rightarrow> string \<Rightarrow> bool" where
  "simple_number_loop saw_digit saw_dot [] = saw_digit"
| "simple_number_loop saw_digit saw_dot (ch # r) =
     (if isdigit ch then simple_number_loop True saw_dot r
      else if ch = CHR ''.'' \<and> \<not> saw_dot then simple_number_loop saw_digit True r
      else False)"

definition is_simple_number :: "string \<Rightarrow> bool" where
  "is_simple_number v = (if v = [] then False else simple_number_loop False False v)"

record permission_decision =
  pd_action :: permission_action
  pd_reason :: string
  pd_risk :: permission_risk

definition decision :: "permission_action \<Rightarrow> string \<Rightarrow> permission_risk \<Rightarrow> permission_decision" where
  "decision a reason risk = \<lparr>pd_action = a, pd_reason = reason, pd_risk = risk\<rparr>"

lemma decision_action [simp]: "pd_action (decision a r k) = a"
  by (simp add: decision_def)

definition is_repository_controlled_build_or_test_command :: "string \<Rightarrow> bool" where
  "is_repository_controlled_build_or_test_command command =
     (case parse_command_argv command of
        Inl reason \<Rightarrow> False
      | Inr words \<Rightarrow>
          let argv = lowercase_argv words;
              executable = lowercase (path_filename (hd argv)) in
          if executable = ''ctest'' then True
          else executable = ''cmake'' \<and>
            list_ex (\<lambda>a. a = ''--build'' \<or> starts_with a ''--build='' \<or> a = ''--build-and-test'' \<or> a = ''--workflow'') argv)"

definition kDestructivePatterns :: "string list" where
  "kDestructivePatterns = [''rm -rf'', ''rm -fr'', ''mkfs'', '':(){'', ''chmod -r 777 /'', ''chown -r '', ''> /dev/'']"

definition kScriptExecutables :: "string list" where
  "kScriptExecutables = [''bash'', ''sh'', ''zsh'', ''fish'', ''python'', ''python3'', ''node'', ''perl'', ''ruby'', ''php'', ''lua'',
     ''make'', ''ninja'', ''npm'', ''pnpm'', ''yarn'', ''bun'']"

definition kExternalPatterns :: "string list" where
  "kExternalPatterns = [''git push'', ''git reset --hard'', ''git clean'', ''npm publish'', ''pnpm publish'', ''yarn publish'', ''deploy'',
     ''terraform apply'', ''kubectl delete'', ''sudo '']"

definition read_only_decision :: permission_decision where
  "read_only_decision = decision Allow ''command is read-only or local verification'' LowRisk"

definition classify_read_only :: "string list \<Rightarrow> permission_decision" where
  "classify_read_only words =
     (let argv = lowercase_argv words; executable = hd argv in
      if executable = ''rg'' \<and> list_ex (\<lambda>a. a = ''--pre'' \<or> starts_with a ''--pre='') argv then
        decision Deny ''rg preprocessors can execute arbitrary commands'' HighRisk
      else if executable = ''rg'' \<and> \<not> has_unsafe_path_arg words 1 then read_only_decision
      else if executable = ''ls'' \<and> \<not> has_unsafe_path_arg words 1 then read_only_decision
      else if executable = ''pwd'' \<and> (length argv = 1 \<or> (length argv = 2 \<and> (argv ! 1 = ''-p'' \<or> argv ! 1 = ''-l''))) then
        read_only_decision
      else if executable = ''sleep'' \<and> length argv = 2 \<and> is_simple_number (argv ! 1) then read_only_decision
      else if executable = ''printenv'' \<and> length argv = 2 \<and> (argv ! 1 = ''pwd'' \<or> argv ! 1 = ''path'' \<or> argv ! 1 = ''home'') then
        read_only_decision
      else decision Ask ''command risk is unknown'' MediumRisk)"

definition classify_command_line :: "string \<Rightarrow> permission_decision" where
  "classify_command_line command =
     (case parse_command_argv command of
        Inl reason \<Rightarrow> decision Deny reason HighRisk
      | Inr words \<Rightarrow>
          let argv = lowercase_argv words; executable = hd argv; v = lowercase command in
          if contains_any v kDestructivePatterns then decision Deny ''command matches a destructive pattern'' CriticalRisk
          else if equals_any executable kScriptExecutables then decision Deny ''command can execute arbitrary scripts'' HighRisk
          else if contains_any v kExternalPatterns then
            decision Ask ''command can change external or destructive state'' HighRisk
          else if executable = ''git'' \<and> length argv \<ge> 2 \<and> (argv ! 1 = ''status'' \<or> argv ! 1 = ''diff'' \<or> argv ! 1 = ''log'') then
            (if \<not> has_unsafe_path_arg words 2 then read_only_decision
             else decision Ask ''git command includes unsafe path or output options'' MediumRisk)
          else if executable = ''cmake'' \<and> list_ex is_dangerous_cmake_arg argv then
            decision Deny ''cmake script/file helpers are not allowed'' HighRisk
          else if is_repository_controlled_build_or_test_command command then
            decision Ask ''repository build or test execution requires explicit approval'' HighRisk
          else classify_read_only words)"

section \<open>Sealed commands\<close>

record containment_info =
  ci_available :: bool
  ci_profile_id :: string
  ci_network_allowed :: bool

record command_permission_metadata =
  cm_level :: command_level
  cm_family :: command_family
  cm_fingerprint :: string
  cm_execution_domain :: command_execution_domain
  cm_resolved_executable :: string
  cm_executable_origin :: executable_origin
  cm_cwd :: string
  cm_executes_mutable_project_code :: bool
  cm_containment_available :: bool
  cm_containment_status :: containment_status
  cm_containment_profile_id :: string
  cm_containment_network_allowed :: bool
  cm_backend_maximum_scope :: interactive_scope
  cm_recipe_payload_version :: string
  cm_global_recipe_key :: string
  cm_workspace_recipe_key :: string
  cm_recipe_display :: string
  cm_effective_allowed_scopes :: "interactive_scope list"
  cm_environment_profile_id :: string
  cm_environment_digest :: string
  cm_executor_identity_verified :: bool

definition decide_metadata :: "command_permission_metadata \<Rightarrow> permission_decision" where
  "decide_metadata m =
     (if \<not> cm_executor_identity_verified m \<or> cm_containment_status m = UnverifiedExecutor then
        decision Ask ''delegated command executor identity and environment are unverified'' CriticalRisk
      else if cm_containment_status m = Unavailable then
        decision Ask ''sealed command requires containment, but containment is unavailable; explicit one-shot approval will run it uncontained'' CriticalRisk
      else if cm_level m = Standard \<and> \<not> cm_executes_mutable_project_code m then
        decision Allow ''sealed command is a standard inspection recipe'' LowRisk
      else
        let needs_containment = (cm_executes_mutable_project_code m \<or> cm_containment_status m = Unavailable) in
        if needs_containment \<and> \<not> cm_containment_available m \<and> cm_containment_status m \<noteq> NotRequired then
          decision Ask ''sealed command executes mutable project code; containment is unavailable and the command will run uncontained after explicit one-shot approval'' CriticalRisk
        else if cm_level m = Standard then
          (if cm_containment_available m then
             decision Allow ''sealed command executes mutable project code under verified development containment'' MediumRisk
           else decision Ask ''sealed command executes mutable project code; containment is unavailable'' HighRisk)
        else if cm_level m = Sensitive then decision Ask ''sealed command has sensitive capabilities'' HighRisk
        else decision Ask ''sealed command is critical'' CriticalRisk)"

section \<open>Requests\<close>

record permission_request =
  rq_operation :: operation
  rq_mode :: mode
  rq_workspace_dir :: string
  rq_target_path :: string
  rq_command :: string
  rq_command_metadata :: "command_permission_metadata option"

fun default_allow_risk :: "operation \<Rightarrow> permission_risk" where
  "default_allow_risk ReadFile = LowRisk"
| "default_allow_risk SearchFiles = LowRisk"
| "default_allow_risk LspQuery = LowRisk"
| "default_allow_risk _ = MediumRisk"

definition decide_operation :: "permission_request \<Rightarrow> permission_decision" where
  "decide_operation r =
     (case rq_operation r of
        RunCommand \<Rightarrow>
          (case rq_command_metadata r of Some m \<Rightarrow> decide_metadata m | None \<Rightarrow> classify_command_line (rq_command r))
      | NetworkFetch \<Rightarrow> decision Ask ''network fetch requires explicit approval'' MediumRisk
      | NetworkSearch \<Rightarrow> decision Ask ''network search requires explicit approval'' MediumRisk
      | LspServerLaunch \<Rightarrow> decision Ask ''LSP server launch requires explicit approval'' HighRisk
      | SkillLoad \<Rightarrow> decision Ask ''skill loading requires explicit approval'' MediumRisk
      | TaskRun \<Rightarrow> decision Allow ''subagent task launch is allowed and audited'' MediumRisk
      | PluginExecute \<Rightarrow> decision Ask ''plugin subprocess execution requires explicit approval'' HighRisk
      | PluginToolCall \<Rightarrow> decision Ask ''plugin tool calls require explicit approval'' HighRisk
      | PluginCommandRun \<Rightarrow> decision Ask ''plugin commands require explicit approval'' HighRisk
      | PluginUiPresent \<Rightarrow> decision Ask ''plugin UI presentation requires explicit approval'' HighRisk
      | PluginEventObserve \<Rightarrow> decision Ask ''plugin event observation requires explicit approval'' MediumRisk
      | McpServerLaunch \<Rightarrow> decision Ask ''MCP server launch requires explicit approval'' HighRisk
      | McpServerConnect \<Rightarrow> decision Ask ''MCP server connection requires explicit approval'' HighRisk
      | McpToolCall \<Rightarrow> decision Ask ''MCP tool calls require explicit approval'' HighRisk
      | McpResourceRead \<Rightarrow> decision Ask ''MCP resource reads require explicit approval'' MediumRisk
      | _ \<Rightarrow> decision Allow ''allowed by default workspace policy'' (default_allow_risk (rq_operation r)))"

definition decide :: "permission_host \<Rightarrow> permission_request \<Rightarrow> permission_decision" where
  "decide h r =
     (let checked_path = policy_path h (rq_target_path r) in
      if (rq_operation r = ReadFile \<or> rq_operation r = EditFile \<or> rq_operation r = LspQuery) \<and> is_secret_path checked_path then
        decision Deny ''target looks like a secret file'' CriticalRisk
      else if \<not> is_within_workspace h (rq_workspace_dir r) (rq_target_path r) then
        decision Ask ''target is outside the workspace'' HighRisk
      else if rq_operation r = EditFile \<and> rq_mode r = Plan \<and> \<not> is_planning_markdown checked_path then
        decision Deny ''plan mode can only edit planning markdown'' HighRisk
      else decide_operation r)"

end
