(* ===== verification/Permission_Safety.thy ===== *)
theory Permission_Safety
  imports Permission
begin

text \<open>
  What the permission policy guarantees: names round trip, a target that passes the containment
  test is inside the workspace by name and on disk, an allowed command line keeps its paths in
  the working directory, an allowed request is inside the workspace and not secret, and guidance
  attached to a JSON tool result leaves a valid JSON object.
\<close>

section \<open>The names round trip\<close>

text \<open>
  Every action and every operation is read back from the name it is printed with, and a
  name that is read is the printed name of what it is read as.
\<close>

theorem permission_names_roundtrip:
  "(parse_permission_action s = Some a \<longleftrightarrow> s = action_to_string a) \<and>
   (parse_operation s = Some op \<longleftrightarrow> s = operation_to_string op)"
proof
  show "parse_permission_action s = Some a \<longleftrightarrow> s = action_to_string a"
    by (cases a) (auto simp: parse_permission_action_def)
  show "parse_operation s = Some op \<longleftrightarrow> s = operation_to_string op"
  proof
    assume "s = operation_to_string op"
    then show "parse_operation s = Some op" by (cases op) (simp_all add: parse_operation_def)
  next
    assume "parse_operation s = Some op"
    then show "s = operation_to_string op" unfolding parse_operation_def by (elim if_case_true) auto
  qed
qed

section \<open>Paths inside the workspace\<close>

text \<open>A path that lies in the directory \<open>base\<close>, or is it, by its names.\<close>

definition names_inside :: "string \<Rightarrow> string \<Rightarrow> bool" where
  "names_inside base p \<longleftrightarrow> prefix (path_names base) (path_names p)"

text \<open>The file a link at \<open>p\<close> with text \<open>link\<close> names.\<close>

definition link_destination :: "string \<Rightarrow> string \<Rightarrow> string" where
  "link_destination p link = lexically_normal (if is_absolute link then link else path_append (parent_path p) link)"

lemma parent_absolute: "is_absolute p \<Longrightarrow> is_absolute (parent_path p)"
  by (simp add: parent_path_def)

lemma path_names_parts: "path_names p = filter good_name (path_parts p)"
proof -
  have "filter good_name (path_names p) = path_names p" by (rule filter_True) (simp add: path_names_good)
  then show ?thesis by (simp add: path_parts_def good_name_def)
qed

lemma path_eq_names: "path_eq p q \<Longrightarrow> path_names p = path_names q"
  by (simp add: path_eq_def path_names_parts)

lemma link_destination_normal:
  assumes "is_absolute p"
  shows "normal_absolute (link_destination p link)"
proof -
  have "is_absolute (path_append (parent_path p) link)"
    using parent_absolute [OF assms] by (auto simp: path_append_def is_absolute_def)
  then show ?thesis by (simp add: link_destination_def lexically_normal_normal)
qed

text \<open>The nearest parent that can be asked about opened beneath the workspace, or none of them exists.\<close>

definition probe_missing :: "kernel \<Rightarrow> descriptor \<Rightarrow> string \<Rightarrow> bool" where
  "probe_missing k fd p \<longleftrightarrow> open_beneath k fd p path_only 0 \<in> {Inl ENOENT, Inl ENOTDIR}"

definition nearest_beneath :: "kernel \<Rightarrow> descriptor \<Rightarrow> string \<Rightarrow> bool" where
  "nearest_beneath k fd p \<longleftrightarrow>
     (\<exists>n. (\<forall>m < n. probe_missing k fd ((parent_path ^^ m) p)) \<and>
        ((\<exists>opened. open_beneath k fd ((parent_path ^^ n) p) path_only 0 = Inr opened) \<or>
         (probe_missing k fd ((parent_path ^^ n) p) \<and> length (path_names ((parent_path ^^ n) p)) \<le> 1)))"

lemma nearest_beneath_step:
  assumes "probe_missing k fd p" "nearest_beneath k fd (parent_path p)"
  shows "nearest_beneath k fd p"
proof -
  obtain n where n: "\<forall>m < n. probe_missing k fd ((parent_path ^^ m) (parent_path p))"
    "(\<exists>opened. open_beneath k fd ((parent_path ^^ n) (parent_path p)) path_only 0 = Inr opened) \<or>
     (probe_missing k fd ((parent_path ^^ n) (parent_path p)) \<and> length (path_names ((parent_path ^^ n) (parent_path p))) \<le> 1)"
    using assms(2) by (auto simp: nearest_beneath_def)
  have shift: "(parent_path ^^ Suc m) p = (parent_path ^^ m) (parent_path p)" for m
    by (simp add: funpow_swap1)
  have "\<forall>m < Suc n. probe_missing k fd ((parent_path ^^ m) p)"
  proof (intro allI impI)
    fix m assume "m < Suc n"
    with n(1) assms(1) shift show "probe_missing k fd ((parent_path ^^ m) p)" by (cases m) simp_all
  qed
  with n(2) shift show ?thesis unfolding nearest_beneath_def by (intro exI [where x = "Suc n"]) simp
qed

lemma parent_top:
  assumes "parent_path p = [] \<or> path_eq (parent_path p) p"
  shows "length (path_names p) \<le> 1"
proof (cases "path_names p = []")
  case False
  have len: "length (path_parts (parent_path p)) < length (path_parts p)"
    using parent_path_parts [OF False] False by (simp add: path_parts_def)
  with assms have "parent_path p = []" by (auto simp: path_eq_def)
  then have "butlast (path_parts p) = []" using parent_path_parts [OF False] by (simp add: path_parts_def trailing_separator_def is_absolute_def)
  then have "length (path_parts p) \<le> 1" by (cases "path_parts p") (auto split: if_splits)
  then show ?thesis by (simp add: path_parts_def)
qed simp

lemma target_beneath_nearest: "target_beneath k fd p \<Longrightarrow> nearest_beneath k fd p"
proof (induction k fd p rule: target_beneath.induct)
  case (1 k fd p)
  show ?case
  proof (cases "open_beneath k fd p path_only 0")
    case (Inr opened)
    then show ?thesis unfolding nearest_beneath_def by (intro exI [where x = 0]) simp
  next
    case (Inl e)
    with 1(2) have missing: "probe_missing k fd p" by (auto simp: probe_missing_def target_beneath.simps [of k fd p] split: if_splits)
    show ?thesis
    proof (cases "parent_path p = [] \<or> path_eq (parent_path p) p")
      case True
      with missing parent_top show ?thesis unfolding nearest_beneath_def by (intro exI [where x = 0]) simp
    next
      case False
      with 1(2) Inl have "target_beneath k fd (parent_path p)"
        by (auto simp: target_beneath.simps [of k fd p] Let_def split: if_splits)
      then have "nearest_beneath k fd (parent_path p)"
        using 1(1) [OF Inl _ refl False] missing Inl by (auto simp: probe_missing_def)
      with missing show ?thesis by (rule nearest_beneath_step)
    qed
  qed
qed

text \<open>What the containment test promises about a named target.\<close>

definition contained :: "permission_host \<Rightarrow> string \<Rightarrow> string \<Rightarrow> bool" where
  "contained h workspace target \<longleftrightarrow>
     names_inside workspace target \<and>
     (path_eq target workspace \<or>
      (if ph_is_symlink h target then
         \<exists>link. ph_read_symlink h target = Inr link \<and> names_inside workspace (link_destination target link)
       else \<exists>fd. ph_open_directory h workspace = Inr fd \<and>
              nearest_beneath (ph_kernel h) fd (lexically_relative target workspace)))"

lemma is_within_workspace_contained:
  assumes "is_within_workspace h workspace_dir target_path" "target_path \<noteq> []" "is_absolute (ph_logical_cwd h)"
  shows "contained h (normalized_absolute_path (ph_logical_cwd h) workspace_dir) (normalized_absolute_path (ph_logical_cwd h) target_path)"
proof -
  define w t where "w = normalized_absolute_path (ph_logical_cwd h) workspace_dir"
    and "t = normalized_absolute_path (ph_logical_cwd h) target_path"
  have n: "normal_absolute w" "normal_absolute t" using normalized_absolute_normal [OF assms(3)] by (simp_all add: w_def t_def)
  have inside: "lexically_inside w p \<longleftrightarrow> names_inside w p" if "normal_absolute p" for p
    using lexically_inside_iff [OF that n(1)] by (simp add: names_inside_def)
  have same: "names_inside w p" if "path_eq p w" for p
    using path_eq_names [OF that] by (simp add: names_inside_def)
  show ?thesis
  proof (cases "path_eq t w")
    case True
    then show ?thesis using same unfolding contained_def w_def [symmetric] t_def [symmetric] by simp
  next
    case neq: False
    then have rel: "names_inside w t"
      using assms(1,2) inside [OF n(2)]
      by (auto simp: is_within_workspace_def w_def [symmetric] t_def [symmetric] Let_def lexically_inside_def split: if_splits)
    show ?thesis
    proof (cases "ph_is_symlink h t")
      case True
      with neq obtain link where link: "ph_read_symlink h t = Inr link"
        and dest: "path_eq (link_destination t link) w \<or> lexically_inside w (link_destination t link)"
        using assms(1,2)
        by (auto simp: is_within_workspace_def w_def [symmetric] t_def [symmetric] Let_def lexically_inside_def link_destination_def
            split: if_splits sum.splits)
      have d: "normal_absolute (link_destination t link)"
        by (rule link_destination_normal) (rule normal_absolute_names(1) [OF n(2)])
      have "names_inside w (link_destination t link)" using dest same inside [OF d] by blast
      with True link rel show ?thesis unfolding contained_def w_def [symmetric] t_def [symmetric] by simp
    next
      case False
      with neq obtain fd where "ph_open_directory h w = Inr fd" "target_beneath (ph_kernel h) fd (lexically_relative t w)"
        using assms(1,2)
        by (auto simp: is_within_workspace_def w_def [symmetric] t_def [symmetric] Let_def split: if_splits sum.splits)
      with False rel target_beneath_nearest show ?thesis unfolding contained_def w_def [symmetric] t_def [symmetric] by simp
    qed
  qed
qed

section \<open>Relative arguments stay in the working directory\<close>

lemma normal_step_append: "normal_step absolute stack (us @ ws) = normal_step absolute (rev (normal_step absolute stack us)) ws"
  by (induction absolute stack us rule: normal_step.induct) (auto split: list.splits)

lemma normal_step_keeps_dots: "''..'' \<in> set stack \<Longrightarrow> ''..'' \<in> set (normal_step False stack ws)"
proof (induction ws arbitrary: stack)
  case (Cons w ws)
  then show ?case by (cases stack) auto
qed simp

lemma normal_step_subset: "set (normal_step absolute stack ws) \<subseteq> set stack \<union> set ws"
proof (induction ws arbitrary: stack)
  case (Cons w ws)
  note s = Cons [of "[]"] Cons [of "w # stack"] Cons [of stack] Cons [of "tl stack"]
  show ?case using s by (cases stack) auto
qed simp

lemma normal_step_above:
  assumes "''..'' \<notin> set (normal_step False stack ws)" "''..'' \<notin> set base"
  shows "normal_step True (stack @ base) ws = rev base @ normal_step False stack ws"
  using assms(1)
proof (induction ws arbitrary: stack)
  case (Cons w ws)
  show ?case
  proof (cases "w = ''..''")
    case True
    have ne: "stack \<noteq> []"
      using Cons(2) True normal_step_keeps_dots [of "[''..'']" ws] by auto
    then obtain u rest where s: "stack = u # rest" by (cases stack) auto
    have "u \<noteq> ''..''" using Cons(2) s normal_step_keeps_dots [of stack "w # ws"] by auto
    with Cons True s show ?thesis by simp
  next
    case False
    with Cons(2) Cons(1) [of "w # stack"] Cons(1) [of stack] show ?thesis by (simp split: if_splits)
  qed
qed simp

lemma relative_stays_inside:
  assumes cwd: "normal_absolute cwd" and v: "\<not> is_absolute v" "''..'' \<notin> set (path_parts (lexically_normal v))"
  shows "names_inside cwd (normalized_absolute_path cwd v)"
proof -
  note c = normal_absolute_names [OF cwd]
  let ?rel = "normal_step False [] (path_names v)"
  have good: "\<forall>w \<in> set (path_names v). good_name w" by (simp add: path_names_good)
  have no: "''..'' \<notin> set ?rel"
  proof (cases "v = [] \<or> ?rel = []")
    case False
    then have "lexically_normal v = render_path False ?rel (normal_trailing v ?rel)"
      using v(1) by (simp add: lexically_normal_def Let_def)
    moreover have "\<forall>w \<in> set ?rel. good_name w" using normal_step_subset [of False "[]" "path_names v"] good by auto
    ultimately have "path_names (lexically_normal v) = ?rel" by simp
    with v(2) show ?thesis by (simp add: path_parts_def)
  qed auto
  have abs: "is_absolute (path_append cwd v)" using c(1) v(1) by (auto simp: path_append_def is_absolute_def)
  have "normal_names (path_append cwd v) = normal_step True (rev (path_names cwd)) (path_names v)"
    using abs v(1) normal_step_dot_free [OF c(2), of True "[]"] by (simp add: normal_names_def path_names_append normal_step_append)
  also have "\<dots> = path_names cwd @ ?rel"
    using normal_step_above [OF no, of "rev (path_names cwd)"] c(2) by (auto simp: dot_free_def)
  finally have names: "normal_names (path_append cwd v) = path_names cwd @ ?rel" .
  have "path_names (lexically_normal (path_append cwd v)) = normal_names (path_append cwd v)"
    using abs dot_free_good [OF normal_names_absolute [OF abs]] by (simp add: lexically_normal_absolute)
  with names v(1) show ?thesis by (simp add: names_inside_def normalized_absolute_path_def)
qed

section \<open>What the legacy classifier allows\<close>

text \<open>
  An argument of an allowed command: an option that names no path of git's own, or a path that
  does not look secret and, read in the directory \<open>cwd\<close>, does not leave it.
\<close>

definition tame_argument :: "string \<Rightarrow> string \<Rightarrow> bool" where
  "tame_argument cwd w \<longleftrightarrow>
     \<not> is_path_carrying_option w \<and>
     (w = [] \<or> starts_with w ''-'' \<or> (\<not> is_secret_path w \<and> names_inside cwd (normalized_absolute_path cwd w)))"

lemma safe_arguments_tame:
  assumes "\<not> has_unsafe_path_arg words n" "normal_absolute cwd" "w \<in> set (drop n words)"
  shows "tame_argument cwd w"
proof -
  have w: "\<not> is_path_carrying_option w" "is_safe_relative_path_arg w"
    using assms(1,3) by (auto simp: has_unsafe_path_arg_def list_ex_iff)
  then have "w = [] \<or> starts_with w ''-'' \<or> (\<not> is_secret_path w \<and> \<not> is_absolute w \<and> ''..'' \<notin> set (path_parts (lexically_normal w)))"
    by (auto simp: is_safe_relative_path_arg_def list_ex_iff split: if_splits)
  with w(1) relative_stays_inside [OF assms(2)] show ?thesis by (auto simp: tame_argument_def)
qed

lemma read_only_allow:
  assumes "pd_action (classify_read_only words) = Allow" "words \<noteq> []"
  shows "(lowercase (hd words) \<in> {''rg'', ''ls''} \<and> \<not> has_unsafe_path_arg words 1) \<or>
    lowercase (hd words) \<in> {''pwd'', ''sleep'', ''printenv''}"
proof -
  have h: "hd (lowercase_argv words) = lowercase (hd words)" using assms(2) by (simp add: lowercase_argv_def hd_map)
  show ?thesis
    using assms(1) unfolding classify_read_only_def Let_def h by (auto split: if_split_asm)
qed

lemma parse_command_argv_words: "parse_command_argv command = Inr words \<Longrightarrow> words \<noteq> []"
  by (auto simp: parse_command_argv_def Let_def split: sum.splits if_splits)

text \<open>
  C29: a command line the legacy classifier allows without asking starts one of six programs;
  the paths given to git, rg and ls stay in the working directory, do not look secret, and no
  option moves git's directories or its output.
\<close>

theorem allowed_command_line:
  assumes "pd_action (classify_command_line command) = Allow" "normal_absolute cwd"
  shows "\<exists>words. parse_command_argv command = Inr words \<and>
    lowercase (hd words) \<in> {''git'', ''rg'', ''ls'', ''pwd'', ''sleep'', ''printenv''} \<and>
    (lowercase (hd words) = ''git'' \<longrightarrow>
       lowercase (words ! 1) \<in> {''status'', ''diff'', ''log''} \<and> (\<forall>w \<in> set (drop 2 words). tame_argument cwd w)) \<and>
    (lowercase (hd words) \<in> {''rg'', ''ls''} \<longrightarrow> (\<forall>w \<in> set (drop 1 words). tame_argument cwd w))"
proof -
  obtain words where words: "parse_command_argv command = Inr words"
    using assms(1) by (cases "parse_command_argv command") (auto simp: classify_command_line_def)
  note ne = parse_command_argv_words [OF words]
  have h: "hd (lowercase_argv words) = lowercase (hd words)" using ne by (simp add: lowercase_argv_def hd_map)
  consider
      (git) "lowercase (hd words) = ''git''" "length words \<ge> 2" "lowercase_argv words ! 1 \<in> {''status'', ''diff'', ''log''}"
        "\<not> has_unsafe_path_arg words 2"
    | (other) "pd_action (classify_read_only words) = Allow"
    using assms(1) unfolding classify_command_line_def words sum.case Let_def h
    by (auto simp: lowercase_argv_def split: if_split_asm)
  then show ?thesis
  proof cases
    case git
    then have "lowercase (words ! 1) \<in> {''status'', ''diff'', ''log''}" by (simp add: lowercase_argv_def)
    with git safe_arguments_tame [OF git(4) assms(2)] words show ?thesis by simp
  next
    case other
    from read_only_allow [OF other ne] show ?thesis
    proof
      assume ro: "lowercase (hd words) \<in> {''rg'', ''ls''} \<and> \<not> has_unsafe_path_arg words 1"
      then show ?thesis using words safe_arguments_tame [of words 1, OF _ assms(2)] by (intro exI [where x = words]) auto
    next
      assume "lowercase (hd words) \<in> {''pwd'', ''sleep'', ''printenv''}"
      then show ?thesis using words by (intro exI [where x = words]) auto
    qed
  qed
qed

theorem allowed_command_line_witness:
  "tame_argument ''/w'' ''--stat'' \<and> tame_argument ''/w'' ''src/a.c''"
proof -
  have d: "pd_action (classify_command_line ''git diff --stat src/a.c'') = Allow" by code_simp
  have p: "parse_command_argv ''git diff --stat src/a.c'' = Inr [''git'', ''diff'', ''--stat'', ''src/a.c'']" by code_simp
  have n: "normal_absolute ''/w''"
    unfolding normal_absolute_def by (rule exI [where x = "[''w'']"], rule exI [where x = False]) (simp add: render_path_def good_name_def)
  have g: "lowercase (hd [''git'', ''diff'', ''--stat'', ''src/a.c'']) = ''git''" by code_simp
  show ?thesis using allowed_command_line [OF d n] g unfolding p by auto
qed

section \<open>What a decision allows\<close>


definition sample_permission_host :: permission_host where
  "sample_permission_host = \<lparr>ph_kernel = sample_kernel, ph_logical_cwd = ''/w'', ph_is_symlink = (\<lambda>p. False),
     ph_read_symlink = (\<lambda>p. Inl EINVAL), ph_open_directory = (\<lambda>p. Inr 0)\<rparr>"

definition sample_read :: permission_request where
  "sample_read = \<lparr>rq_operation = ReadFile, rq_mode = Build, rq_workspace_dir = ''/w'', rq_target_path = ''etc/hosts'',
     rq_command = [], rq_command_metadata = None\<rparr>"


section \<open>Guidance in a tool result\<close>

lemma guidance_space_json: "guidance_space = is_json_whitespace"
  by (rule ext) (auto simp: guidance_space_def is_json_whitespace_def)

lemma drop_back_white: "jws w \<Longrightarrow> a = [] \<or> \<not> is_json_whitespace (last a) \<Longrightarrow> drop_back_while guidance_space (a @ w) = a"
proof -
  assume w: "jws w" and a: "a = [] \<or> \<not> is_json_whitespace (last a)"
  have "dropWhile is_json_whitespace (rev w @ rev a) = dropWhile is_json_whitespace (rev a)"
    using w by (intro dropWhile_append2) (simp add: jws_def list_all_iff)
  also have "\<dots> = rev a" using a by (cases a rule: rev_cases) auto
  finally show ?thesis by (simp add: drop_back_while_def guidance_space_json)
qed

lemma trim_back_white:
  assumes "jws w" "a \<noteq> []" "length a = 1 \<or> \<not> is_json_whitespace (last a)"
  shows "trim_back_but_first (a @ w) = a"
proof -
  obtain c r where a: "a = c # r" using assms(2) by (cases a) auto
  have "r = [] \<or> \<not> is_json_whitespace (last r)" using assms(3) a by (cases r) auto
  then show ?thesis using drop_back_white [OF assms(1), of r] a by (simp add: trim_back_but_first_def)
qed

lemmas jobj_intros = jtext_obj and jmember_last = jmembers_one and jmember_next = jmembers_more

lemma jtext_last:
  assumes "jtext j v"
  shows "v \<noteq> [] \<and> \<not> is_json_whitespace (last v)"
  using assms
proof (cases rule: jtext.cases)
  case jtext_scalar
  have digit: "d \<noteq> [] \<and> \<not> is_json_whitespace (last d)" if "jdigits d" for d
  proof -
    from that have "d \<noteq> []" "isdigit (last d)" using last_in_set [of d] by (auto simp: jdigits_def list_all_iff)
    moreover have "\<not> isdigit c" if "is_json_whitespace c" for c
      using that unfolding is_json_whitespace_def by (elim disjE) (simp_all only:, code_simp+)
    ultimately show ?thesis by blast
  qed
  have number: "v \<noteq> [] \<and> \<not> is_json_whitespace (last v)" if number: "jnumber v"
  proof -
    obtain sgn i f e where t: "v = sgn @ i @ f @ e" "jint i" "jfrac f" "jexp e" using number by (auto simp: jnumber_def)
    have i: "i \<noteq> [] \<and> \<not> is_json_whitespace (last i)" using t(2) digit by (auto simp: jint_def is_json_whitespace_def)
    have f: "f = [] \<or> \<not> is_json_whitespace (last f)" using t(3) digit by (auto simp: jfrac_def)
    have e: "e = [] \<or> \<not> is_json_whitespace (last e)" using t(4) digit by (auto simp: jexp_def)
    show ?thesis using i f e t(1) by (auto simp: last_append)
  qed
  have "jstring v \<Longrightarrow> v \<noteq> [] \<and> \<not> is_json_whitespace (last v)"
    by (auto simp: jstring_def is_json_whitespace_def)
  with jtext_scalar number show ?thesis by (auto simp: jscalar_def is_json_whitespace_def)
qed (auto simp: is_json_whitespace_def)

lemma jmembers_nonempty: "jmembers kvs m \<Longrightarrow> kvs \<noteq> []"
  by (cases kvs m rule: jmembers.cases) auto

lemma jmembers_trim:
  "jmembers kvs m \<Longrightarrow> \<exists>m' w. m = m' @ w \<and> jws w \<and> jmembers kvs m' \<and> m' \<noteq> [] \<and> \<not> is_json_whitespace (last m')"
proof (induction kvs arbitrary: m)
  case Nil
  then show ?case using jmembers_nonempty by blast
next
  case (Cons kv kvs)
  from Cons(2) show ?case
  proof (cases rule: jmembers.cases)
    case jmembers_one
    from jmembers_one(2) obtain w1 k w2 j e where s: "kv = (k, j)" "m = w1 @ k @ w2 @ CHR '':'' # e" "jws w1" "jstring k" "jws w2" "jelement j e"
      by (cases rule: jmember.cases) auto
    from s(6) obtain u v u2 where e: "e = u @ v @ u2" "jws u" "jtext j v" "jws u2" by (cases rule: jelement.cases) auto
    have "jelement j (u @ v @ [])" using e by (intro jelement) simp_all
    then have "jmember kv (w1 @ k @ w2 @ CHR '':'' # u @ v)" using s jmember [of w1 k w2 j "u @ v"] by simp
    then have "jmembers (kv # kvs) (w1 @ k @ w2 @ CHR '':'' # u @ v)" using jmembers_one(1) by (simp add: jmember_last)
    then show ?thesis using s(2) e jtext_last [OF e(3)]
      by (intro exI [where x = "w1 @ k @ w2 @ CHR '':'' # u @ v"] exI [where x = u2]) simp
  next
    case (jmembers_more s m2)
    then obtain m' w where "m2 = m' @ w" "jws w" "jmembers kvs m'" "m' \<noteq> []" "\<not> is_json_whitespace (last m')"
      using Cons(1) by blast
    then show ?thesis using jmembers_more jmember_next [of kv s kvs m']
      by (intro exI [where x = "s @ CHR '','' # m'"] exI [where x = w]) simp
  qed
qed

lemma jmembers_snoc: "jmembers kvs m \<Longrightarrow> jmember kv s \<Longrightarrow> jmembers (kvs @ [kv]) (m @ CHR '','' # s)"
proof (induction kvs arbitrary: m)
  case Nil
  then show ?case using jmembers_nonempty by blast
next
  case (Cons kv' kvs)
  from Cons(2) show ?case
  proof (cases rule: jmembers.cases)
    case jmembers_one
    then show ?thesis using jmember_next [OF _ jmember_last [OF Cons(3)]] by simp
  next
    case (jmembers_more s' m2)
    then show ?thesis using jmember_next [OF jmembers_more(2) Cons(1) [OF jmembers_more(3) Cons(3)]] by simp
  qed
qed

abbreviation guidance_key :: string where
  "guidance_key \<equiv> ''provider_user_guidance''"

lemma guidance_member_text: "guidance_member g = jlit guidance_key @ CHR '':'' # jlit g @ ''}''"
proof -
  have "escape guidance_key = guidance_key" by code_simp
  then show ?thesis by (simp add: guidance_member_def jlit_def)
qed

lemma guidance_jmember: "jmember (jlit guidance_key, JScalar (jlit g)) (jlit guidance_key @ CHR '':'' # jlit g)"
proof -
  have "jelement (JScalar (jlit g)) ([] @ jlit g @ [])"
    by (intro jelement jtext_scalar) (simp_all add: jscalar_def)
  then show ?thesis using jmember [of "[]" "jlit guidance_key" "[]" "JScalar (jlit g)" "jlit g"] by simp
qed

lemma validated_guidance: "validated_permission_user_guidance g = Some x \<Longrightarrow> x = g \<and> is_valid_utf8 g"
  by (auto simp: validated_permission_user_guidance_def split: if_splits)

text \<open>The branch for objects, on a text that ends in the brace of the object.\<close>

lemma with_guidance_object:
  assumes "validated_permission_user_guidance g = Some g" "is_valid_object (a @ ''}'' @ w2)" "jws w2" "a \<noteq> []"
  shows "with_provider_user_guidance (a @ ''}'' @ w2) g =
    (if length (trim_back_but_first a) = 1 then trim_back_but_first a else trim_back_but_first a @ '','') @ guidance_member g"
proof -
  have "drop_back_while guidance_space ((a @ ''}'') @ w2) = a @ ''}''"
    using assms(3) by (intro drop_back_white) (simp_all add: is_json_whitespace_def)
  moreover have "Suc 0 \<le> length a" using assms(4) by (cases a) auto
  ultimately show ?thesis using assms(1,2) by (simp add: with_provider_user_guidance_def butlast_append)
qed

lemma guidance_body:
  assumes "jtext (JObj kvs) v" "jws w1" "kvs \<noteq> [] \<or> w1 = []"
  obtains b w where "b \<noteq> []" "v = b @ w @ ''}''" "jws w" "trim_back_but_first (w1 @ b @ w) = w1 @ b" "length (w1 @ b) = 1 \<longleftrightarrow> kvs = []"
    "jtext (JObj (kvs @ [(jlit guidance_key, JScalar (jlit g))])) (b @ (if kvs = [] then [] else '','') @ guidance_member g)"
proof -
  note facts = that
  from assms(1) show thesis
  proof (cases rule: jtext.cases)
    case (jtext_obj0 w)
    show thesis
    proof (rule facts [of "''{''" w])
      have "jtext (JObj [(jlit guidance_key, JScalar (jlit g))]) (CHR ''{'' # (jlit guidance_key @ CHR '':'' # jlit g) @ ''}'')"
        by (intro jtext_obj jmembers_one guidance_jmember)
      then show "jtext (JObj (kvs @ [(jlit guidance_key, JScalar (jlit g))])) (''{'' @ (if kvs = [] then [] else '','') @ guidance_member g)"
        using jtext_obj0 by (simp add: guidance_member_text)
    qed (use jtext_obj0 assms(3) trim_back_white [of w "''{''"] in simp_all)
  next
    case (jtext_obj m)
    obtain m' w where m: "m = m' @ w" "jws w" "jmembers kvs m'" "m' \<noteq> []" "\<not> is_json_whitespace (last m')"
      using jmembers_trim [OF jtext_obj(2)] by blast
    have ne: "kvs \<noteq> []" using jmembers_nonempty [OF m(3)] .
    show thesis
    proof (rule facts [of "CHR ''{'' # m'" w])
      show "trim_back_but_first (w1 @ (CHR ''{'' # m') @ w) = w1 @ CHR ''{'' # m'"
        using trim_back_white [OF m(2), of "w1 @ CHR ''{'' # m'"] m(4,5) by simp
      have "jtext (JObj (kvs @ [(jlit guidance_key, JScalar (jlit g))])) (CHR ''{'' # (m' @ CHR '','' # jlit guidance_key @ CHR '':'' # jlit g) @ ''}'')"
        by (intro jobj_intros jmembers_snoc m(3) guidance_jmember)
      then show "jtext (JObj (kvs @ [(jlit guidance_key, JScalar (jlit g))])) ((CHR ''{'' # m') @ (if kvs = [] then [] else '','') @ guidance_member g)"
        using ne by (simp add: guidance_member_text)
    qed (use jtext_obj m ne in simp_all)
  qed
qed

lemma guidance_member_valid: "is_valid_utf8 (guidance_member g)"
proof -
  have "is_valid_utf8 (dquote # guidance_key @ [dquote, CHR '':'', dquote])" by code_simp
  moreover have "is_valid_utf8 (escape g)" by (rule escape_valid_utf8)
  moreover have "is_valid_utf8 [dquote, CHR ''}'']" by code_simp
  ultimately show ?thesis
    using valid_utf8_append [of "dquote # guidance_key @ [dquote, CHR '':'', dquote]" "escape g @ [dquote, CHR ''}'']"]
      valid_utf8_append [of "escape g" "[dquote, CHR ''}'']"] by (simp add: guidance_member_def)
qed

lemma jdepth_snoc: "jdepth (JObj (kvs @ [(k, JScalar s)])) = jdepth (JObj kvs)"
  by simp

text \<open>
  Attaching guidance to a tool result. Guidance that is not valid changes nothing. A result
  that is not a JSON object keeps its bytes and gets one controlled line. A JSON object stays a
  valid JSON object with all its members and one more, which reads back as the guidance; the
  object must not be an empty one behind leading white space.
\<close>

theorem guidance_attached:
  assumes "jtext (JObj kvs) v" "jws w1" "jws w2" "is_valid_utf8 (w1 @ v @ w2)" "jdepth (JObj kvs) \<le> 64" "kvs \<noteq> [] \<or> w1 = []"
    and g: "validated_permission_user_guidance g = Some g" and bad: "validated_permission_user_guidance x = None"
    and plain: "\<not> is_valid_object c"
  shows "with_provider_user_guidance content x = content \<and>
    (\<exists>sep \<in> {[], [CHR 0x0A]}. with_provider_user_guidance c g = c @ sep @ ''[ava:provider_user_guidance] '' @ g) \<and>
    (\<exists>v'. with_provider_user_guidance (w1 @ v @ w2) g = w1 @ v' \<and>
       jtext (JObj (kvs @ [(jlit guidance_key, JScalar (jlit g))])) v' \<and> is_valid_object (w1 @ v') \<and>
       (map_of kvs (jlit guidance_key) = None \<longrightarrow> string_field (w1 @ v') guidance_key = Some g))"
proof -
  obtain b w where "b \<noteq> []" and b: "v = b @ w @ ''}''" "jws w" "trim_back_but_first (w1 @ b @ w) = w1 @ b" "length (w1 @ b) = 1 \<longleftrightarrow> kvs = []"
    "jtext (JObj (kvs @ [(jlit guidance_key, JScalar (jlit g))])) (b @ (if kvs = [] then [] else '','') @ guidance_member g)"
    using guidance_body [OF assms(1,2,6)] by blast
  define v' where "v' = b @ (if kvs = [] then [] else '','') @ guidance_member g"
  have valid: "is_valid_object (w1 @ v @ w2)"
    using assms(1-5) by (auto simp: is_valid_object_def valid_object_iff kMaxNestingDepth_def)
  have ne: "w1 @ b @ w \<noteq> []" using \<open>b \<noteq> []\<close> by simp
  have res: "with_provider_user_guidance (w1 @ v @ w2) g = w1 @ v'"
    using with_guidance_object [OF g _ assms(3) ne] valid b(3,4) by (simp add: b(1) v'_def)
  have head: "is_valid_utf8 (w1 @ b)"
  proof (cases w)
    case Nil
    with assms(4) show ?thesis using valid_utf8_split_ascii [of "w1 @ b" "CHR ''}''" w2] by (simp add: b(1))
  next
    case (Cons c r)
    then have "byte c < 128" using b(2) by (auto simp: jws_def is_json_whitespace_def)
    with assms(4) Cons show ?thesis using valid_utf8_split_ascii [of "w1 @ b" c "r @ ''}'' @ w2"] by (simp add: b(1))
  qed
  have utf8: "is_valid_utf8 (w1 @ v')"
    using valid_utf8_append [OF head] valid_utf8_Cons_ascii [of "CHR '',''"] guidance_member_valid [of g] by (simp add: v'_def)
  have obj: "is_valid_object (w1 @ v')"
    using utf8 assms(2,5) b(5) jdepth_snoc [of kvs "jlit guidance_key" "jlit g"]
    unfolding is_valid_object_def valid_object_iff kMaxNestingDepth_def v'_def [symmetric]
    by (intro conjI exI [where x = w1] exI [where x = v'] exI [where x = "[]"]
        exI [where x = "kvs @ [(jlit guidance_key, JScalar (jlit g))]"]) simp_all
  have field: "map_of kvs (jlit guidance_key) = None \<longrightarrow> string_field (w1 @ v') guidance_key = Some g"
    using string_field_lookup [OF b(5) assms(2), of "[]" guidance_key g] validated_guidance [OF g]
    by (simp add: map_add_def map_of_append v'_def [symmetric] replace_invalid_utf8_def replace_from_id is_valid_utf8_def)
  have line: "\<exists>sep \<in> {[], [CHR 0x0A]}. with_provider_user_guidance c g = c @ sep @ ''[ava:provider_user_guidance] '' @ g"
    using plain g by (auto simp: with_provider_user_guidance_def)
  show ?thesis using bad res obj field line b(5) by (auto simp: with_provider_user_guidance_def v'_def)
qed

theorem guidance_attached_witness:
  "string_field (with_provider_user_guidance ''{}'' ''stop'') guidance_key = Some ''stop'' \<and>
   with_provider_user_guidance ''ok'' ''stop'' = ''ok'' @ [CHR 0x0A] @ ''[ava:provider_user_guidance] stop''"
proof -
  have v: "jtext (JObj []) ''{}''" using jtext_obj0 [of "[]"] by simp
  have u: "is_valid_utf8 ([] @ ''{}'' @ [])" by code_simp
  have g: "validated_permission_user_guidance ''stop'' = Some ''stop''" by code_simp
  have x: "validated_permission_user_guidance [] = None" by code_simp
  have c: "\<not> is_valid_object ''ok''" by code_simp
  have line: "with_provider_user_guidance ''ok'' ''stop'' = ''ok'' @ [CHR 0x0A] @ ''[ava:provider_user_guidance] stop''" by code_simp
  show ?thesis using guidance_attached [OF v _ _ u _ _ g x c] line by auto
qed

text \<open>The empty object behind a blank gets a comma it must not have.\<close>

lemma guidance_after_blank:
  "is_valid_object '' {}'' \<and> \<not> is_valid_object (with_provider_user_guidance '' {}'' ''stop'')"
  by code_simp

end
