(* ===== verification/Permission_Recipe.thy ===== *)
theory Permission_Recipe
  imports Plan_Example Permission_Safety
begin

text \<open>
  Approval of sealed commands: the part of \<^verbatim>\<open>permissions/permission.cpp\<close> that turns a sealed plan
  into the metadata a permission decision, a prompt and a reusable grant work on. A plan that
  may be granted again gets two recipe keys, hashes of a framed payload of the recipe.
\<close>

section \<open>Recipe arguments\<close>

text \<open>\<^verbatim>\<open>generic_string\<close>: single separators.\<close>

definition generic_string :: "string \<Rightarrow> string" where
  "generic_string p = render_path (is_absolute p) (path_names p) (trailing_separator p)"

definition recipe_path_is_within :: "string \<Rightarrow> string \<Rightarrow> bool" where
  "recipe_path_is_within root candidate =
     (let relative = lexically_relative candidate root; relative_text = generic_string relative in
      relative \<noteq> [] \<and> \<not> path_eq relative ''..'' \<and> \<not> starts_with relative_text ''../'')"

record recipe_argument =
  ra_kind :: string
  ra_value :: string
  ra_display :: string

definition make_recipe_argument :: "string \<Rightarrow> string \<Rightarrow> recipe_argument" where
  "make_recipe_argument v workspace =
     (if \<not> is_absolute v then \<lparr>ra_kind = ''literal'', ra_value = v, ra_display = v\<rparr>
      else
        let normalized = lexically_normal v; normalized_workspace = lexically_normal workspace in
        if \<not> recipe_path_is_within normalized_workspace normalized then
          \<lparr>ra_kind = ''literal'', ra_value = generic_string normalized, ra_display = generic_string normalized\<rparr>
        else
          let relative0 = generic_string (lexically_relative normalized normalized_workspace);
              relative = (if relative0 = ''.'' then [] else relative0) in
          \<lparr>ra_kind = ''workspace_path'', ra_value = relative,
           ra_display = ''workspace:'' @ (if relative = [] then ''.'' else relative)\<rparr>)"

definition kCredentialOptions :: "string list" where
  "kCredentialOptions = [''--user'', ''--proxy-user'', ''--header'', ''--proxy-header'', ''--cookie'', ''--oauth2-bearer'', ''--aws-sigv4'',
     ''--cert'', ''--key'', ''--pass'', ''--cacert'', ''--form-string'', ''--http-user'', ''--http-password'', ''--http-header'',
     ''--proxy-password'', ''--token'', ''--secret'', ''--password'', ''--api-key'', ''--api_key'', ''--apikey'', ''--authorization'',
     ''--auth'', ''--credential'', ''--bearer'', ''--signature'']"

definition option_name :: "string \<Rightarrow> string" where
  "option_name lower = (case str_find ''='' lower of Some eq \<Rightarrow> take eq lower | None \<Rightarrow> lower)"

definition is_credential_bearing_long_option :: "string \<Rightarrow> bool" where
  "is_credential_bearing_long_option lower \<longleftrightarrow> option_name lower \<in> set kCredentialOptions"

definition short_option_has :: "string \<Rightarrow> string \<Rightarrow> bool" where
  "short_option_has letters a =
     (if length a < 2 \<or> a ! 0 \<noteq> CHR ''-'' \<or> a ! 1 = CHR ''-'' then False
      else list_ex (\<lambda>c. c \<in> set letters) (drop 1 a))"

definition is_credential_bearing_short_option :: "string \<Rightarrow> bool" where
  "is_credential_bearing_short_option a = short_option_has ''uHbEU'' a"

definition kCredentialPatterns :: "string list" where
  "kCredentialPatterns = [''token='', ''secret='', ''password='', ''passwd='', ''api_key='', ''apikey='', ''api-key='', ''access_token='',
     ''authorization='', ''auth='', ''credential='', ''bearer='', ''signature='', ''key='', ''sig='', ''cookie='', ''session='', ''sessionid='']"

definition contains_secret_like_argument :: "string \<Rightarrow> bool" where
  "contains_secret_like_argument v =
     (let lower = lowercase v in
      if (case str_find ''://'' lower of
            None \<Rightarrow> False
          | Some scheme \<Rightarrow> str_find_from ''@'' lower (scheme + 3) \<noteq> None \<or> str_find_from ''?'' lower (scheme + 3) \<noteq> None)
      then True
      else list_ex (\<lambda>pattern. str_find pattern lower \<noteq> None) kCredentialPatterns)"

definition kPayloadOptions :: "string list" where
  "kPayloadOptions = [''--data'', ''--data-ascii'', ''--data-binary'', ''--data-raw'', ''--data-urlencode'', ''--json'', ''--form'',
     ''--form-string'', ''--url-query'', ''--config'', ''--post-data'', ''--post-file'', ''--body-data'', ''--body-file'', ''--header'']"

definition is_payload_bearing_long_option :: "string \<Rightarrow> bool" where
  "is_payload_bearing_long_option lower \<longleftrightarrow> option_name lower \<in> set kPayloadOptions"

definition is_payload_bearing_short_option :: "string \<Rightarrow> bool" where
  "is_payload_bearing_short_option a = short_option_has ''dFK'' a"

definition secret_like_argument :: "string \<Rightarrow> bool" where
  "secret_like_argument a \<longleftrightarrow>
     (let lower = lowercase a in
      is_credential_bearing_long_option lower \<or> is_credential_bearing_short_option a \<or> is_payload_bearing_long_option lower \<or>
      is_payload_bearing_short_option a \<or> contains_secret_like_argument a)"

definition contains_secret_like_arguments :: "string list \<Rightarrow> bool" where
  "contains_secret_like_arguments argv \<longleftrightarrow> list_ex secret_like_argument argv"

section \<open>Recipe keys\<close>

record stable_recipe_identity =
  sr_global_key :: string
  sr_workspace_key :: string
  sr_display :: string

definition kPayloadVersion :: string where
  "kPayloadVersion = ''ava-command-recipe-payload-v1''"

text \<open>The recipe's name and its argument list; none for a plan that has no stable recipe.\<close>

definition recipe_source :: "command_plan \<Rightarrow> (string \<times> string list \<times> resolved_executable) option" where
  "recipe_source plan =
     (let classification = cp_classification plan in
      (case cp_resolved_executable plan of
         None \<Rightarrow> None
       | Some executable \<Rightarrow>
           if cp_execution_domain plan \<noteq> DirectArgv \<or> (cc_level classification \<noteq> Standard \<and> cc_level classification \<noteq> Sensitive) then None
           else
             (case cc_recipe classification of
                Some recipe \<Rightarrow> Some (recipe_to_string (rd_recipe recipe), rd_canonical_argv recipe, executable)
              | None \<Rightarrow>
                  (case cp_plan_argv plan of
                     [] \<Rightarrow> None
                   | _ # arguments \<Rightarrow>
                       Some (''sensitive-'' @ family_to_string (cc_family classification),
                             generic_string (canonical_path (re_executable executable)) # arguments, executable)))))"

definition append_recipe_argument :: "recipe_argument \<Rightarrow> sha256_builder \<Rightarrow> sha256_builder" where
  "append_recipe_argument a b = append_field (ra_value a) (append_field (ra_kind a) b)"

definition append_payload ::
  "command_plan \<Rightarrow> containment_info \<Rightarrow> string \<Rightarrow> resolved_executable \<Rightarrow> recipe_argument list \<Rightarrow> bool \<Rightarrow> sha256_builder" where
  "append_payload plan containment recipe_name executable arguments include_workspace =
     (let b0 = append_field (family_to_string (cc_family (cp_classification plan))) (append_field recipe_name (append_field kPayloadVersion []));
          b1 = append_field (origin_to_string (re_origin executable))
                 (append_field (generic_string (canonical_path (re_executable executable))) b0);
          b2 = append_field (if ci_profile_id containment = [] then ''not-required'' else ci_profile_id containment)
                 (append_field (cp_environment_profile_id plan) b1);
          b3 = append_field (if ci_network_allowed containment then ''network-allowed'' else ''network-blocked'') b2;
          b4 = append_all append_recipe_argument arguments (append_number (length arguments) b3) in
      if include_workspace then append_field (generic_string (lexically_normal (cp_workspace plan))) b4 else b4)"

definition recipe_display :: "command_plan \<Rightarrow> string \<Rightarrow> recipe_argument list \<Rightarrow> string" where
  "recipe_display plan recipe_name arguments =
     recipe_name @ '' ('' @ family_to_string (cc_family (cp_classification plan)) @ '')'' @
     (if length arguments > 1 then
        '':'' @ concat (map (\<lambda>a. '' '' @ (if cc_recipe (cp_classification plan) \<noteq> None then ra_display a
                                            else ra_kind a @ ''='' @ ra_display a)) (drop 1 arguments))
      else [])"

definition make_stable_recipe_identity :: "command_plan \<Rightarrow> containment_info \<Rightarrow> stable_recipe_identity option" where
  "make_stable_recipe_identity plan containment =
     (case recipe_source plan of
        None \<Rightarrow> None
      | Some (recipe_name, argv, executable) \<Rightarrow>
          if argv = [] \<or> contains_secret_like_arguments argv then None
          else
            let normalized_argv = map (\<lambda>v. make_recipe_argument v (cp_workspace plan)) argv in
            Some \<lparr>sr_global_key = ''sha256:ava-command-recipe-v1:'' @
                     builder_hex (append_payload plan containment recipe_name executable normalized_argv False),
                  sr_workspace_key = ''sha256:ava-command-workspace-recipe-v1:'' @
                     builder_hex (append_payload plan containment recipe_name executable normalized_argv True),
                  sr_display = recipe_display plan recipe_name normalized_argv\<rparr>)"

section \<open>Metadata of a sealed plan\<close>

definition effective_scopes :: "command_permission_metadata \<Rightarrow> interactive_scope list" where
  "effective_scopes m =
     (if cm_global_recipe_key m \<noteq> [] \<and> cm_workspace_recipe_key m \<noteq> [] \<and> cm_executor_identity_verified m \<and>
         cm_containment_status m \<noteq> Unavailable \<and> cm_containment_status m \<noteq> UnverifiedExecutor \<and>
         (cm_level m = Standard \<or> cm_level m = Sensitive)
      then
        [Once]
          @ (if cm_backend_maximum_scope m = SessionScope \<or> cm_backend_maximum_scope m = WorkspaceScope then [SessionScope] else [])
          @ (if cm_backend_maximum_scope m = WorkspaceScope then [WorkspaceScope] else [])
      else [Once])"

definition initial_metadata :: "command_plan \<Rightarrow> containment_info \<Rightarrow> bool \<Rightarrow> command_permission_metadata" where
  "initial_metadata plan containment unverified =
     (let classification = cp_classification plan; capabilities = cc_capabilities classification in
      \<lparr>cm_level = cc_level classification, cm_family = cc_family classification, cm_fingerprint = cp_fingerprint plan,
       cm_execution_domain = cp_execution_domain plan,
       cm_resolved_executable = (case cp_resolved_executable plan of Some e \<Rightarrow> requested_path (re_executable e) | None \<Rightarrow> []),
       cm_executable_origin = (case cp_resolved_executable plan of Some e \<Rightarrow> re_origin e | None \<Rightarrow> SystemOrigin),
       cm_cwd = cp_cwd plan, cm_executes_mutable_project_code = executes_mutable_project_code capabilities,
       cm_containment_available = ci_available containment,
       cm_containment_status =
         (if requires_containment capabilities \<or> executes_mutable_project_code capabilities \<or> cc_level classification = Sensitive
          then (if ci_available containment then Available else Unavailable) else NotRequired),
       cm_containment_profile_id = ci_profile_id containment, cm_containment_network_allowed = ci_network_allowed containment,
       cm_backend_maximum_scope = cc_max_interactive_scope classification, cm_recipe_payload_version = [], cm_global_recipe_key = [],
       cm_workspace_recipe_key = [], cm_recipe_display = [], cm_effective_allowed_scopes = [],
       cm_environment_profile_id = cp_environment_profile_id plan, cm_environment_digest = cp_environment_digest plan,
       cm_executor_identity_verified = (\<not> unverified)\<rparr>)"

definition downgrade_uncontained :: "bool \<Rightarrow> command_permission_metadata \<Rightarrow> command_permission_metadata" where
  "downgrade_uncontained unverified m =
     (if \<not> unverified \<and> cm_containment_status m = Unavailable then m\<lparr>cm_level := Critical, cm_backend_maximum_scope := Once\<rparr> else m)"

definition downgrade_unverified :: "bool \<Rightarrow> command_permission_metadata \<Rightarrow> command_permission_metadata" where
  "downgrade_unverified unverified m =
     (if unverified then
        m\<lparr>cm_level := Critical, cm_family := UnverifiedDelegatedExecutor, cm_containment_available := False,
          cm_containment_status := UnverifiedExecutor, cm_backend_maximum_scope := Once\<rparr>
      else m)"

definition mint_recipe_keys :: "command_plan \<Rightarrow> containment_info \<Rightarrow> command_permission_metadata \<Rightarrow> command_permission_metadata" where
  "mint_recipe_keys plan containment m =
     (let capabilities = cc_capabilities (cp_classification plan);
          containment_required = (requires_containment capabilities \<or> executes_mutable_project_code capabilities) in
      if cm_executor_identity_verified m \<and> cm_level m \<noteq> Critical \<and> cm_containment_status m \<noteq> Unavailable \<and>
         (\<not> containment_required \<or> cm_containment_status m = Available \<or> cm_containment_status m = NotRequired)
      then
        (case make_stable_recipe_identity plan containment of
           None \<Rightarrow> m
         | Some identity \<Rightarrow>
             m\<lparr>cm_recipe_payload_version := ''ava-command-recipe-payload-v1'', cm_global_recipe_key := sr_global_key identity,
               cm_workspace_recipe_key := sr_workspace_key identity, cm_recipe_display := sr_display identity\<rparr>)
      else m)"

definition command_permission_metadata :: "command_plan \<Rightarrow> containment_info \<Rightarrow> bool \<Rightarrow> command_permission_metadata" where
  "command_permission_metadata plan containment unverified_delegated_executor =
     (let m0 = initial_metadata plan containment unverified_delegated_executor;
          m1 = downgrade_uncontained unverified_delegated_executor m0;
          m2 = downgrade_unverified unverified_delegated_executor m1;
          m3 = mint_recipe_keys plan containment m2 in
      m3\<lparr>cm_effective_allowed_scopes := effective_scopes m3\<rparr>)"

definition no_containment_info :: containment_info where
  "no_containment_info = \<lparr>ci_available = False, ci_profile_id = [], ci_network_allowed = False\<rparr>"

definition uncontained_permission_metadata :: "command_plan \<Rightarrow> bool \<Rightarrow> command_permission_metadata" where
  "uncontained_permission_metadata plan unverified_delegated_executor =
     command_permission_metadata plan no_containment_info unverified_delegated_executor"

section \<open>Reusable grants\<close>

definition command_permission_allows_reusable_grant :: "command_permission_metadata \<Rightarrow> bool" where
  "command_permission_allows_reusable_grant m =
     (if \<not> cm_executor_identity_verified m \<or> cm_containment_status m = Unavailable \<or> cm_containment_status m = UnverifiedExecutor \<or>
         cm_level m = Critical \<or> cm_backend_maximum_scope m = Once \<or> cm_global_recipe_key m = [] \<or> cm_workspace_recipe_key m = [] then False
      else if (cm_executes_mutable_project_code m \<or> cm_containment_status m = Available) \<and> cm_containment_status m \<noteq> Available then False
      else SessionScope \<in> set (cm_effective_allowed_scopes m) \<or> WorkspaceScope \<in> set (cm_effective_allowed_scopes m))"

definition command_prompt_allows_persistent_allow :: "command_permission_metadata option \<Rightarrow> bool" where
  "command_prompt_allows_persistent_allow metadata =
     (case metadata of
        None \<Rightarrow> True
      | Some m \<Rightarrow> command_permission_allows_reusable_grant m \<and> WorkspaceScope \<in> set (cm_effective_allowed_scopes m))"

section \<open>What is approved without asking\<close>

lemma raw_shell_level: "cc_level (classify_raw_shell e) = Critical"
  by (simp add: classify_raw_shell_def apply_executable_origin_invariants_def)

text \<open>A plan that is not critical was classified from its own argument list and executable.\<close>

lemma sealed_directE:
  assumes "seal_command_plan h intent options = io_return p" "cc_level (cp_classification p) \<noteq> Critical"
  obtains e cwd workspace recipes anchors where "cp_resolved_executable p = Some e" "cp_execution_domain p = DirectArgv"
    "classify_command h (cp_plan_argv p) e cwd workspace recipes anchors = Some (cp_classification p)"
proof -
  note facts = that
  from assms(1) obtain c env where
    "(if ci_lane intent = RawShellLane then seal_raw_shell h intent options c env else seal_direct h intent options c env) = io_return p"
    unfolding seal_command_plan_def by (auto simp: io_inversion split del: if_split)
  moreover have "\<not> seal_raw_shell h intent options c env = io_return p"
    using assms(2) raw_shell_level unfolding seal_raw_shell_def by (auto simp: io_inversion)
  ultimately have "seal_direct h intent options c env = io_return p" by (auto split: if_splits)
  then obtain e k where k: "classify_command h (ci_argv intent) e (sc_cwd c) (sc_workspace c) (bo_workspace_script_recipes options)
      (bo_anchor_set options) = Some k" "p = sealed_plan intent options c env DirectArgv (ci_argv intent) [] e k"
    unfolding seal_direct_def by (auto simp: io_inversion)
  have "cp_execution_domain p = DirectArgv" by (simp add: k(2) sealed_plan_def Let_def)
  then show thesis using k by (intro facts [of e]) simp_all
qed

lemma decide_metadata_allow:
  assumes "pd_action (decide_metadata m) = Allow"
  shows "cm_executor_identity_verified m \<and> cm_containment_status m \<notin> {Unavailable, UnverifiedExecutor} \<and> cm_level m = Standard \<and>
    (cm_executes_mutable_project_code m \<longrightarrow> cm_containment_available m)"
  using assms by (auto simp: decide_metadata_def Let_def split: if_splits)

text \<open>The fields of the metadata that the decisions read.\<close>

lemma minted_fields [simp]:
  "cm_level (mint_recipe_keys p ci m) = cm_level m" "cm_containment_status (mint_recipe_keys p ci m) = cm_containment_status m"
  "cm_executor_identity_verified (mint_recipe_keys p ci m) = cm_executor_identity_verified m"
  "cm_executes_mutable_project_code (mint_recipe_keys p ci m) = cm_executes_mutable_project_code m"
  "cm_containment_available (mint_recipe_keys p ci m) = cm_containment_available m"
  "cm_backend_maximum_scope (mint_recipe_keys p ci m) = cm_backend_maximum_scope m"
  by (simp_all add: mint_recipe_keys_def Let_def split: option.split)

definition containment_needed :: "command_plan \<Rightarrow> bool" where
  "containment_needed p \<longleftrightarrow> requires_containment (cc_capabilities (cp_classification p)) \<or>
     executes_mutable_project_code (cc_capabilities (cp_classification p)) \<or> cc_level (cp_classification p) = Sensitive"

lemma metadata_fields_of_plan:
  "cm_executor_identity_verified (command_permission_metadata p ci u) \<longleftrightarrow> \<not> u"
  "\<not> u \<Longrightarrow> cm_containment_status (command_permission_metadata p ci u) =
     (if containment_needed p then (if ci_available ci then Available else Unavailable) else NotRequired)"
  "\<not> u \<Longrightarrow> cm_level (command_permission_metadata p ci u) =
     (if containment_needed p \<and> \<not> ci_available ci then Critical else cc_level (cp_classification p))"
  "\<not> u \<Longrightarrow> cm_containment_available (command_permission_metadata p ci u) = ci_available ci"
  "\<not> u \<Longrightarrow> cm_backend_maximum_scope (command_permission_metadata p ci u) =
     (if containment_needed p \<and> \<not> ci_available ci then Once else cc_max_interactive_scope (cp_classification p))"
  by (auto simp: command_permission_metadata_def downgrade_unverified_def downgrade_uncontained_def initial_metadata_def containment_needed_def Let_def)

text \<open>
  C2: a sealed command that is approved without asking is a direct argument list of a standard
  recipe, started by a verified executor; it runs contained, unless it is \<^verbatim>\<open>pwd\<close> or \<^verbatim>\<open>ls\<close> alone, from a
  system executable whose interpreters are resolved.
\<close>

theorem allowed_sealed_command:
  assumes "seal_command_plan h intent options = io_return p"
    "pd_action (decide_metadata (command_permission_metadata p ci unverified)) = Allow"
  shows "\<not> unverified \<and> cp_execution_domain p = DirectArgv \<and> cc_level (cp_classification p) = Standard \<and> cc_recipe (cp_classification p) \<noteq> None \<and>
    (\<exists>e. cp_resolved_executable p = Some e \<and>
       (ci_available ci \<or>
        re_origin e = SystemOrigin \<and> re_shebang_fully_resolved e \<and> length (cp_plan_argv p) = 1 \<and> classification_name e \<in> {''pwd'', ''ls''}))"
proof -
  note m = decide_metadata_allow [OF assms(2)]
  have u: "\<not> unverified" using m by (simp add: metadata_fields_of_plan(1))
  have available: "containment_needed p \<Longrightarrow> ci_available ci"
    using m by (auto simp: metadata_fields_of_plan(2) [OF u] split: if_splits)
  have level: "cc_level (cp_classification p) = Standard"
    using m available by (auto simp: metadata_fields_of_plan(3) [OF u] split: if_splits)
  then have "cc_level (cp_classification p) \<noteq> Critical" by simp
  then obtain e cwd workspace recipes anchors where e: "cp_resolved_executable p = Some e" "cp_execution_domain p = DirectArgv"
      "classify_command h (cp_plan_argv p) e cwd workspace recipes anchors = Some (cp_classification p)"
    by (rule sealed_directE [OF assms(1)])
  have "classification_ok e (cp_classification p)" by (rule classify_command_ok [OF e(3)])
  then have recipe: "cc_recipe (cp_classification p) \<noteq> None" using level by (simp add: classification_ok_def)
  show ?thesis
  proof (cases "requires_containment (cc_capabilities (cp_classification p))")
    case True
    then have "ci_available ci" using available by (simp add: containment_needed_def)
    with u e level recipe show ?thesis by blast
  next
    case False
    show ?thesis using uncontained_standard [OF e(3) level False] u e(1,2) level recipe by blast
  qed
qed

section \<open>What may be granted again\<close>

lemma grant_fields:
  assumes "command_permission_allows_reusable_grant m"
  shows "cm_executor_identity_verified m" "cm_containment_status m \<notin> {Unavailable, UnverifiedExecutor}" "cm_level m \<noteq> Critical"
    "cm_backend_maximum_scope m \<noteq> Once" "cm_global_recipe_key m \<noteq> []" "cm_workspace_recipe_key m \<noteq> []"
    "cm_executes_mutable_project_code m \<longrightarrow> cm_containment_status m = Available"
  using assms by (auto simp: command_permission_allows_reusable_grant_def split: if_splits)

lemma metadata_keys:
  assumes "cm_global_recipe_key (command_permission_metadata p ci u) \<noteq> []"
  shows "\<exists>identity. make_stable_recipe_identity p ci = Some identity \<and>
    cm_global_recipe_key (command_permission_metadata p ci u) = sr_global_key identity \<and>
    cm_workspace_recipe_key (command_permission_metadata p ci u) = sr_workspace_key identity"
  using assms
  by (auto simp: command_permission_metadata_def Let_def mint_recipe_keys_def downgrade_unverified_def downgrade_uncontained_def initial_metadata_def
      split: if_splits option.splits)

lemma identity_source:
  assumes "make_stable_recipe_identity p ci = Some identity"
  obtains name argv e where "recipe_source p = Some (name, argv, e)" "\<not> contains_secret_like_arguments argv"
  using assms by (auto simp: make_stable_recipe_identity_def split: option.splits if_splits)

lemma recipe_source_direct:
  "recipe_source p = Some (name, argv, e) \<Longrightarrow> cp_execution_domain p = DirectArgv \<and>
   (case cc_recipe (cp_classification p) of
      Some r \<Rightarrow> argv = rd_canonical_argv r
    | None \<Rightarrow> argv = generic_string (canonical_path (re_executable e)) # tl (cp_plan_argv p))"
  by (auto simp: recipe_source_def Let_def split: option.splits if_splits list.splits)

lemma reusable_grant_facts:
  assumes "command_permission_allows_reusable_grant (command_permission_metadata p ci unverified)"
  shows "\<not> unverified \<and> cp_execution_domain p = DirectArgv \<and> cc_level (cp_classification p) \<noteq> Critical \<and>
    (containment_needed p \<longrightarrow> ci_available ci) \<and>
    (\<exists>name argv e. recipe_source p = Some (name, argv, e) \<and> (\<forall>a \<in> set argv. \<not> secret_like_argument a)) \<and>
    (command_prompt_allows_persistent_allow (Some (command_permission_metadata p ci unverified)) \<longrightarrow>
       cc_max_interactive_scope (cp_classification p) = WorkspaceScope)"
proof -
  note m = grant_fields [OF assms]
  have u: "\<not> unverified" using m(1) by (simp add: metadata_fields_of_plan(1))
  have available: "containment_needed p \<longrightarrow> ci_available ci"
    using m(2) by (auto simp: metadata_fields_of_plan(2) [OF u] split: if_splits)
  have level: "cc_level (cp_classification p) \<noteq> Critical"
    using m(3) available by (auto simp: metadata_fields_of_plan(3) [OF u] split: if_splits)
  obtain identity where "make_stable_recipe_identity p ci = Some identity" using metadata_keys [OF m(5)] by blast
  then obtain name argv e where s: "recipe_source p = Some (name, argv, e)" "\<not> contains_secret_like_arguments argv"
    by (rule identity_source)
  have scope: "cm_backend_maximum_scope (command_permission_metadata p ci unverified) = WorkspaceScope"
    if "WorkspaceScope \<in> set (cm_effective_allowed_scopes (command_permission_metadata p ci unverified))"
    using that by (auto simp: command_permission_metadata_def Let_def effective_scopes_def split: if_splits)
  have "cc_max_interactive_scope (cp_classification p) = WorkspaceScope"
    if "command_prompt_allows_persistent_allow (Some (command_permission_metadata p ci unverified))"
    using that scope available by (auto simp: command_prompt_allows_persistent_allow_def metadata_fields_of_plan(5) [OF u] split: if_splits)
  then show ?thesis
    using u available level s recipe_source_direct [OF s(1)]
    by (auto simp: contains_secret_like_arguments_def list_ex_iff)
qed

text \<open>
  C11: an approval that may be stored and reused is of a direct command of the standard or
  sensitive level with a verified executor and, where containment is called for, with
  containment; no argument that goes into the stored recipe looks like a credential or a
  payload; and it may be stored for the workspace only if the classification goes that far.
\<close>

theorem reusable_grant_sound:
  assumes "command_permission_allows_reusable_grant (command_permission_metadata p ci unverified)"
  shows "\<not> unverified \<and> cp_execution_domain p = DirectArgv \<and> cc_level (cp_classification p) \<noteq> Critical \<and>
    (containment_needed p \<longrightarrow> ci_available ci) \<and>
    (\<exists>name argv e. recipe_source p = Some (name, argv, e) \<and> (\<forall>a \<in> set argv. \<not> secret_like_argument a)) \<and>
    (command_prompt_allows_persistent_allow (Some (command_permission_metadata p ci unverified)) \<longrightarrow>
       cc_max_interactive_scope (cp_classification p) = WorkspaceScope)"
  by (rule reusable_grant_facts [OF assms])

theorem allowed_sealed_command_witness:
  "pd_action (decide_metadata (command_permission_metadata sample_sealed \<lparr>ci_available = True, ci_profile_id = ''dev'', ci_network_allowed = False\<rparr> False)) = Allow
   \<and> cp_execution_domain sample_sealed = DirectArgv"
proof -
  let ?ci = "\<lparr>ci_available = True, ci_profile_id = ''dev'', ci_network_allowed = False\<rparr>"
  obtain env where m: "sample_sealed = sealed_plan plan_intent plan_options plan_context env DirectArgv [''/w/make''] [] plan_program make_classification"
    by (rule sample_sealedE)
  have "pd_action (decide_metadata (command_permission_metadata sample_sealed ?ci False)) = Allow"
    by (simp add: decide_metadata_def metadata_fields_of_plan containment_needed_def m)
  with allowed_sealed_command [OF sample_sealed this] show ?thesis by blast
qed

theorem reusable_grant_sound_witness:
  "command_permission_allows_reusable_grant (command_permission_metadata sample_sealed \<lparr>ci_available = True, ci_profile_id = ''dev'', ci_network_allowed = False\<rparr> False)
   \<and> (\<exists>name argv e. recipe_source sample_sealed = Some (name, argv, e) \<and> \<not> contains_secret_like_arguments argv)"
proof -
  let ?ci = "\<lparr>ci_available = True, ci_profile_id = ''dev'', ci_network_allowed = False\<rparr>"
  obtain env where m: "sample_sealed = sealed_plan plan_intent plan_options plan_context env DirectArgv [''/w/make''] [] plan_program make_classification"
    by (rule sample_sealedE)
  have d: "cp_execution_domain sample_sealed = DirectArgv" by (simp add: m sealed_plan_def Let_def)
  have s: "\<not> contains_secret_like_arguments [''/w/make'']" by code_simp
  have i: "\<exists>i. make_stable_recipe_identity sample_sealed ?ci = Some i \<and> sr_global_key i \<noteq> [] \<and> sr_workspace_key i \<noteq> []"
    using d by (simp add: make_stable_recipe_identity_def recipe_source_def m s Let_def)
  then have "command_permission_allows_reusable_grant (command_permission_metadata sample_sealed ?ci False)"
    by (auto simp: command_permission_allows_reusable_grant_def command_permission_metadata_def Let_def mint_recipe_keys_def downgrade_unverified_def
        downgrade_uncontained_def initial_metadata_def effective_scopes_def m)
  with reusable_grant_sound [OF this] show ?thesis by (auto simp: contains_secret_like_arguments_def list_ex_iff)
qed

section \<open>What a recipe key binds\<close>

definition argument_fields :: "recipe_argument \<Rightarrow> string list" where
  "argument_fields a = [ra_kind a, ra_value a]"

interpretation argument_code: field_code argument_fields "\<lambda>a. (ra_kind a, ra_value a)" "\<lambda>_. True"
  by unfold_locales (auto simp: argument_fields_def)

lemma append_recipe_argument_bytes: "append_recipe_argument a b = b @ fields_bytes (argument_fields a)"
  by (simp add: append_recipe_argument_def argument_fields_def appended)

definition network_field :: "bool \<Rightarrow> string" where
  "network_field allowed = (if allowed then ''network-allowed'' else ''network-blocked'')"

lemma network_field_inject [simp]: "network_field a = network_field b \<longleftrightarrow> a = b"
  by (simp add: network_field_def)

definition profile_field :: "containment_info \<Rightarrow> string" where
  "profile_field ci = (if ci_profile_id ci = [] then ''not-required'' else ci_profile_id ci)"

definition workspace_field :: "command_plan \<Rightarrow> string" where
  "workspace_field p = generic_string (lexically_normal (cp_workspace p))"

definition payload_fields :: "command_plan \<Rightarrow> containment_info \<Rightarrow> string \<Rightarrow> resolved_executable \<Rightarrow> recipe_argument list \<Rightarrow> string list \<Rightarrow> string list" where
  "payload_fields p ci name e arguments rest =
     [kPayloadVersion, name, family_to_string (cc_family (cp_classification p)), generic_string (canonical_path (re_executable e)),
      origin_to_string (re_origin e), cp_environment_profile_id p, profile_field ci, network_field (ci_network_allowed ci)]
     @ argument_code.counted arguments @ rest"

lemma append_payload_bytes:
  "append_payload p ci name e arguments w = fields_bytes (payload_fields p ci name e arguments (if w then [workspace_field p] else []))"
  by (simp add: append_payload_def payload_fields_def Let_def appended argument_code.counted_def append_all_bytes [OF append_recipe_argument_bytes]
      profile_field_def network_field_def workspace_field_def)

text \<open>The recipe of a plan: what its key is about.\<close>

definition recipe_content :: "command_plan \<Rightarrow> containment_info \<Rightarrow> string \<Rightarrow> resolved_executable \<Rightarrow> recipe_argument list
    \<Rightarrow> string \<times> command_family \<times> string \<times> executable_origin \<times> string \<times> string \<times> bool \<times> (string \<times> string) list" where
  "recipe_content p ci name e arguments =
     (name, cc_family (cp_classification p), generic_string (canonical_path (re_executable e)), re_origin e, cp_environment_profile_id p,
      profile_field ci, ci_network_allowed ci, map (\<lambda>a. (ra_kind a, ra_value a)) arguments)"

lemma payload_fields_eq:
  "payload_fields p ci name e arguments rest = payload_fields q cj name' e' arguments' rest' \<longleftrightarrow>
   recipe_content p ci name e arguments = recipe_content q cj name' e' arguments' \<and> rest = rest'"
  using argument_code.counted_cancel [of arguments arguments' rest rest']
  by (auto simp: payload_fields_def recipe_content_def command_names list_all_iff)

lemma recipe_keys_bound:
  assumes "recipe_source p = Some (name, argv, e)" "make_stable_recipe_identity p ci = Some a"
    "recipe_source q = Some (name', argv', e')" "make_stable_recipe_identity q cj = Some b"
    "args = map (\<lambda>v. make_recipe_argument v (cp_workspace p)) argv" "args' = map (\<lambda>v. make_recipe_argument v (cp_workspace q)) argv'"
    "length (append_payload p ci name e args True) < 2 ^ 64"
  shows "(sr_workspace_key a = sr_workspace_key b \<longleftrightarrow>
      recipe_content p ci name e args = recipe_content q cj name' e' args' \<and> workspace_field p = workspace_field q
      \<or> append_payload p ci name e args True \<noteq> append_payload q cj name' e' args' True \<and>
        sha256_hex (append_payload p ci name e args True) = sha256_hex (append_payload q cj name' e' args' True)) \<and>
    (sr_global_key a = sr_global_key b \<longleftrightarrow>
      recipe_content p ci name e args = recipe_content q cj name' e' args'
      \<or> append_payload p ci name e args False \<noteq> append_payload q cj name' e' args' False \<and>
        sha256_hex (append_payload p ci name e args False) = sha256_hex (append_payload q cj name' e' args' False))"
proof -
  have key: "sr_workspace_key a = ''sha256:ava-command-workspace-recipe-v1:'' @ sha256_hex (append_payload p ci name e args True)"
    "sr_workspace_key b = ''sha256:ava-command-workspace-recipe-v1:'' @ sha256_hex (append_payload q cj name' e' args' True)"
    "sr_global_key a = ''sha256:ava-command-recipe-v1:'' @ sha256_hex (append_payload p ci name e args False)"
    "sr_global_key b = ''sha256:ava-command-recipe-v1:'' @ sha256_hex (append_payload q cj name' e' args' False)"
    using assms(1-6) by (auto simp: make_stable_recipe_identity_def builder_hex_def Let_def split: if_splits)
  have short: "length (append_payload p ci name e args False) < 2 ^ 64"
    using assms(7) by (simp add: append_payload_def append_field_def Let_def)
  have w: "append_payload p ci name e args True = append_payload q cj name' e' args' True \<longleftrightarrow>
      recipe_content p ci name e args = recipe_content q cj name' e' args' \<and> workspace_field p = workspace_field q"
    using fields_bytes_inject assms(7) payload_fields_eq [of p ci name e args "[workspace_field p]" q cj name' e' args' "[workspace_field q]"]
    unfolding append_payload_bytes by fastforce
  have g: "append_payload p ci name e args False = append_payload q cj name' e' args' False \<longleftrightarrow>
      recipe_content p ci name e args = recipe_content q cj name' e' args'"
    using fields_bytes_inject short payload_fields_eq [of p ci name e args "[]" q cj name' e' args' "[]"]
    unfolding append_payload_bytes by fastforce
  show ?thesis unfolding key using w g by auto
qed

text \<open>
  C12: a recipe key binds the recipe. Two plans have the same global key exactly when name,
  family, executable, origin, environment profile, containment profile, network permission and
  every argument with its kind agree, and the same workspace key when the workspace agrees too,
  unless the two hashed payloads are a collision of SHA-256. A literal argument that spells a
  workspace path is never taken for one.
\<close>

theorem recipe_key_binds:
  assumes "recipe_source p = Some (name, argv, e)" "make_stable_recipe_identity p ci = Some a"
    "recipe_source q = Some (name', argv', e')" "make_stable_recipe_identity q cj = Some b"
    "args = map (\<lambda>v. make_recipe_argument v (cp_workspace p)) argv" "args' = map (\<lambda>v. make_recipe_argument v (cp_workspace q)) argv'"
    "length (append_payload p ci name e args True) < 2 ^ 64"
  shows "(sr_workspace_key a = sr_workspace_key b \<longleftrightarrow>
      recipe_content p ci name e args = recipe_content q cj name' e' args' \<and> workspace_field p = workspace_field q
      \<or> append_payload p ci name e args True \<noteq> append_payload q cj name' e' args' True \<and>
        sha256_hex (append_payload p ci name e args True) = sha256_hex (append_payload q cj name' e' args' True)) \<and>
    (sr_global_key a = sr_global_key b \<longleftrightarrow>
      recipe_content p ci name e args = recipe_content q cj name' e' args'
      \<or> append_payload p ci name e args False \<noteq> append_payload q cj name' e' args' False \<and>
        sha256_hex (append_payload p ci name e args False) = sha256_hex (append_payload q cj name' e' args' False))"
  by (rule recipe_keys_bound [OF assms])

text \<open>The file \<^verbatim>\<open>foo\<close> of the workspace and the word \<^verbatim>\<open>workspace:foo\<close> are displayed alike and get different keys.\<close>

definition curl_plan :: "string \<Rightarrow> command_plan" where
  "curl_plan argument = (sample_plan (sample_ancestor True 1 0) [''curl'', argument])\<lparr>cp_resolved_executable := Some (system_executable ''/bin/curl'')\<rparr>"

lemma curl_plan_simps:
  "cp_workspace (curl_plan a) = ''/w''" "cp_execution_domain (curl_plan a) = DirectArgv" "cp_plan_argv (curl_plan a) = [''curl'', a]"
  "cp_resolved_executable (curl_plan a) = Some (system_executable ''/bin/curl'')" "cc_level (cp_classification (curl_plan a)) = Sensitive"
  "cc_recipe (cp_classification (curl_plan a)) = None" "cc_family (cp_classification (curl_plan a)) = UnknownWrapper"
  "cp_environment_profile_id (curl_plan a) = []"
  by (simp_all add: curl_plan_def sample_plan_def Let_def)

lemma curl_source:
  "recipe_source (curl_plan a) = Some (''sensitive-unknown_wrapper'', [''/bin/curl'', a], system_executable ''/bin/curl'')"
proof -
  have "generic_string (canonical_path (re_executable (system_executable ''/bin/curl''))) = ''/bin/curl''" by code_simp
  then show ?thesis by (simp add: recipe_source_def curl_plan_simps)
qed

definition curl_arguments :: "string \<Rightarrow> recipe_argument list" where
  "curl_arguments a = map (\<lambda>v. make_recipe_argument v (cp_workspace (curl_plan a))) [''/bin/curl'', a]"

theorem recipe_key_binds_witness:
  "ra_display (make_recipe_argument ''/w/foo'' ''/w'') = ra_display (make_recipe_argument ''workspace:foo'' ''/w'') \<and>
   append_payload (curl_plan ''/w/foo'') no_containment_info ''sensitive-unknown_wrapper'' (system_executable ''/bin/curl'')
       (curl_arguments ''/w/foo'') False \<noteq>
     append_payload (curl_plan ''workspace:foo'') no_containment_info ''sensitive-unknown_wrapper'' (system_executable ''/bin/curl'')
       (curl_arguments ''workspace:foo'') False"
proof -
  let ?e = "system_executable ''/bin/curl''"
  let ?n = "''sensitive-unknown_wrapper''"
  have foo: "make_recipe_argument ''/w/foo'' ''/w'' = \<lparr>ra_kind = ''workspace_path'', ra_value = ''foo'', ra_display = ''workspace:foo''\<rparr>"
    "make_recipe_argument ''workspace:foo'' ''/w'' = \<lparr>ra_kind = ''literal'', ra_value = ''workspace:foo'', ra_display = ''workspace:foo''\<rparr>"
    "make_recipe_argument ''/bin/curl'' ''/w'' = \<lparr>ra_kind = ''literal'', ra_value = ''/bin/curl'', ra_display = ''/bin/curl''\<rparr>"
    by code_simp+
  have secret: "\<not> contains_secret_like_arguments [''/bin/curl'', ''/w/foo'']"
    "\<not> contains_secret_like_arguments [''/bin/curl'', ''workspace:foo'']" by code_simp+
  obtain a b where ab: "make_stable_recipe_identity (curl_plan ''/w/foo'') no_containment_info = Some a"
    "make_stable_recipe_identity (curl_plan ''workspace:foo'') no_containment_info = Some b"
    by (simp add: make_stable_recipe_identity_def curl_source secret Let_def)
  have text_of: "generic_string (canonical_path (re_executable ?e)) = ''/bin/curl''" "generic_string (lexically_normal ''/w'') = ''/w''"
    "origin_to_string (re_origin ?e) = ''system''" "int_string 2 = ''2''"
    "generic_string ''/bin/curl'' = ''/bin/curl''" by code_simp+
  have short: "length (append_payload (curl_plan ''/w/foo'') no_containment_info ?n ?e (curl_arguments ''/w/foo'') True) < 2 ^ 64"
    by (simp add: append_payload_def append_field_def append_number_def append_all_def append_recipe_argument_def curl_arguments_def foo
        curl_plan_simps text_of kPayloadVersion_def no_containment_info_def Let_def)
  have differ: "recipe_content (curl_plan ''/w/foo'') no_containment_info ?n ?e (curl_arguments ''/w/foo'') \<noteq>
      recipe_content (curl_plan ''workspace:foo'') no_containment_info ?n ?e (curl_arguments ''workspace:foo'')"
    by (simp add: recipe_content_def curl_arguments_def curl_plan_simps foo)
  have keys: "sr_global_key a = ''sha256:ava-command-recipe-v1:'' @ sha256_hex (append_payload (curl_plan ''/w/foo'') no_containment_info ?n ?e (curl_arguments ''/w/foo'') False)"
    "sr_global_key b = ''sha256:ava-command-recipe-v1:'' @ sha256_hex (append_payload (curl_plan ''workspace:foo'') no_containment_info ?n ?e (curl_arguments ''workspace:foo'') False)"
    using ab by (auto simp: make_stable_recipe_identity_def curl_source secret Let_def curl_arguments_def builder_hex_def)
  show ?thesis
    using recipe_key_binds [OF curl_source ab(1) curl_source ab(2) curl_arguments_def curl_arguments_def short] differ keys foo by auto
qed

end
