(* ===== verification/Background_Jobs.thy ===== *)
theory Background_Jobs
  imports Core_Error Json_Fields "HOL-Library.List_Lexorder" "HOL-Library.Char_ord" "HOL-Library.Product_Lexorder"
begin

text \<open>
  The registry of background jobs: \<^verbatim>\<open>agent/background_job_registry.cpp\<close>. Any number of threads call it;
  every job runs on a thread of its own. The shared state is a record, every critical section of the
  registry's mutex is one function of it, and the threads' interleavings are the step relation \<open>job_step\<close>.

  Job records are shared (\<^verbatim>\<open>std::shared_ptr\<close>): the table maps an identifier to an index of an append-only
  heap, so a caller that still refers to a record after it left the table sees that record. A record's
  \<^verbatim>\<open>thread_mutex\<close> is held by \<^verbatim>\<open>start\<close> from before the record is published until the thread is installed,
  which is \<open>jr_starts\<close>. Time stamps, the values drawn for identifiers and the outcomes of workers and of
  thread creation are arguments of the operations.
\<close>

section \<open>Jobs\<close>

datatype job_state = JobRunning | JobCompleted | JobFailed | JobCanceled

fun job_state_to_string :: "job_state \<Rightarrow> string" where
  "job_state_to_string JobRunning = ''running''"
| "job_state_to_string JobCompleted = ''completed''"
| "job_state_to_string JobFailed = ''failed''"
| "job_state_to_string JobCanceled = ''canceled''"

record job_snapshot =
  js_job_id :: string
  js_title :: string
  js_description :: string
  js_subagent_type :: string
  js_child_session_id :: string
  js_child_session_path :: string
  js_state :: job_state
  js_created_at :: string
  js_completed_at :: "string option"
  js_cancel_requested :: bool
  js_final_text :: string
  js_description_truncated :: bool
  js_final_text_truncated :: bool
  js_stop_reason :: string
  js_error :: "string option"
  js_provider_iterations :: nat
  js_tool_calls :: nat
  js_tool_iterations :: nat
  js_timed_out :: bool

record job_start_options =
  so_job_id :: string
  so_title :: string
  so_description :: string
  so_subagent_type :: string
  so_child_session_id :: string
  so_child_session_path :: string

record job_completion =
  jc_state :: job_state
  jc_final_text :: string
  jc_stop_reason :: string
  jc_error :: "ava_error option"
  jc_provider_iterations :: nat
  jc_tool_calls :: nat
  jc_tool_iterations :: nat

record job_registry_options =
  max_running_jobs :: nat
  max_retained_finished_jobs :: nat
  max_description_bytes :: nat
  max_final_text_bytes :: nat

definition default_registry_options :: job_registry_options where
  "default_registry_options =
     \<lparr>max_running_jobs = 8, max_retained_finished_jobs = 64, max_description_bytes = 8 * 1024, max_final_text_bytes = 64 * 1024\<rparr>"

text \<open>The optional hook that runs before a thread is started, and what it did.\<close>

datatype preflight = NoPreflight | Passed | Refused ava_error | Threw string | ThrewUnknown

definition job_is_terminal :: "job_state \<Rightarrow> bool" where
  "job_is_terminal state \<longleftrightarrow> state = JobCompleted \<or> state = JobFailed \<or> state = JobCanceled"

definition job_not_found_error :: "string \<Rightarrow> ava_error" where
  "job_not_found_error job_id = with_context (make_error NotFound ''background job not found'') ''job_id'' job_id"

definition formatted_error :: "ava_error option \<Rightarrow> string option" where
  "formatted_error e = (case e of None \<Rightarrow> None | Some e \<Rightarrow> Some (format_error e))"

definition is_utf8_continuation_byte :: "char \<Rightarrow> bool" where
  "is_utf8_continuation_byte c \<longleftrightarrow> 0x80 \<le> byte c \<and> byte c < 0xC0"

fun truncated_size :: "string \<Rightarrow> nat \<Rightarrow> nat" where
  "truncated_size v 0 = 0"
| "truncated_size v (Suc n) = (if is_utf8_continuation_byte (v ! Suc n) then truncated_size v n else Suc n)"

definition truncate_to_bytes :: "string \<Rightarrow> nat \<Rightarrow> bool \<times> string" where
  "truncate_to_bytes v max_bytes = (if length v \<le> max_bytes then (False, v) else (True, take (truncated_size v max_bytes) v))"

text \<open>The stop token is read twice, for the state and for the reason.\<close>

definition worker_exception_completion :: "string \<Rightarrow> bool \<Rightarrow> bool \<Rightarrow> string \<Rightarrow> job_completion" where
  "worker_exception_completion job_id stop_requested stop_requested_later cause =
     \<lparr>jc_state = (if stop_requested then JobCanceled else JobFailed), jc_final_text = [],
      jc_stop_reason = (if stop_requested_later then ''canceled'' else ''failed''),
      jc_error = Some (with_context (with_context (make_error Unknown ''background job worker threw an exception'') ''job_id'' job_id) ''cause'' cause),
      jc_provider_iterations = 0, jc_tool_calls = 0, jc_tool_iterations = 0\<rparr>"

definition background_job_limit_error :: "nat \<Rightarrow> ava_error" where
  "background_job_limit_error n = with_context (make_error Tool ''background job limit reached'') ''max_running_jobs'' (decimal n)"

definition duplicate_job_id_error :: "string \<Rightarrow> ava_error" where
  "duplicate_job_id_error job_id = with_context (make_error Unknown ''failed to allocate a unique background job id'') ''job_id'' job_id"

definition missing_failure_error :: "string \<Rightarrow> ava_error" where
  "missing_failure_error job_id = with_context (make_error Unknown ''background job failed without an error'') ''job_id'' job_id"

definition or_default :: "string \<Rightarrow> string \<Rightarrow> string" where
  "or_default v d = (if v = [] then d else v)"

definition normalize_completion :: "string \<Rightarrow> job_completion \<Rightarrow> job_completion" where
  "normalize_completion job_id c =
     (if \<not> job_is_terminal (jc_state c) then
        \<lparr>jc_state = JobFailed, jc_final_text = [], jc_stop_reason = ''failed'',
         jc_error = Some (with_context (with_context (make_error Unknown ''background job completed with a non-terminal state'') ''job_id'' job_id)
                      ''state'' (job_state_to_string (jc_state c))),
         jc_provider_iterations = 0, jc_tool_calls = 0, jc_tool_iterations = 0\<rparr>
      else if jc_state c = JobCompleted then c\<lparr>jc_error := None, jc_stop_reason := or_default (jc_stop_reason c) ''completed''\<rparr>
      else if jc_state c = JobFailed then
        c\<lparr>jc_final_text := [], jc_stop_reason := or_default (jc_stop_reason c) ''failed'',
          jc_error := (case jc_error c of None \<Rightarrow> Some (missing_failure_error job_id) | Some e \<Rightarrow> Some e)\<rparr>
      else c\<lparr>jc_final_text := [], jc_error := None, jc_stop_reason := or_default (jc_stop_reason c) ''canceled''\<rparr>)"

section \<open>Identifiers\<close>

fun hex_number :: "nat \<Rightarrow> string" where
  "hex_number n = (if n < 16 then [hex_digits ! n] else hex_number (n div 16) @ [hex_digits ! (n mod 16)])"

declare hex_number.simps [simp del]

definition zero_padded :: "nat \<Rightarrow> string \<Rightarrow> string" where
  "zero_padded n v = replicate (n - length v) CHR ''0'' @ v"

text \<open>\<open>now\<close> is the clock's count and \<open>random\<close> the number drawn, both of 64 bits.\<close>

definition make_id :: "string \<Rightarrow> nat \<times> nat \<Rightarrow> string" where
  "make_id name draw = name @ ''_'' @ hex_number (fst draw) @ ''_'' @ zero_padded 16 (hex_number (snd draw))"

section \<open>The registry\<close>

datatype job_thread = NoThread | ThreadRunning | ThreadExited | ThreadJoined

record job_record =
  jb_snapshot :: job_snapshot
  jb_stop_published :: bool
  jb_stop_requested :: bool
  jb_thread :: job_thread
  jb_joined :: bool
  jb_joining :: bool

text \<open>A call of \<^verbatim>\<open>join_finished\<close> between its critical sections; the caller is the record whose worker calls, if any.\<close>

record join_call =
  jn_caller :: "nat option"
  jn_pending :: "nat list"
  jn_joined :: "string list"
  jn_skipped :: "string list"
  jn_count :: nat

record job_registry =
  jr_options :: job_registry_options
  jr_accepting :: bool
  jr_jobs :: "(string \<times> nat) list"
  jr_heap :: "job_record list"
  jr_starts :: "nat list"
  jr_stops :: "nat list"
  jr_joins :: "join_call list"
  jr_join_alls :: "(nat option \<times> nat list) list"

definition empty_registry :: "job_registry_options \<Rightarrow> job_registry" where
  "empty_registry options =
     \<lparr>jr_options = options, jr_accepting = True, jr_jobs = [], jr_heap = [], jr_starts = [], jr_stops = [], jr_joins = [], jr_join_alls = []\<rparr>"

abbreviation snap :: "job_registry \<Rightarrow> nat \<Rightarrow> job_snapshot" where
  "snap s r \<equiv> jb_snapshot (jr_heap s ! r)"

definition with_record :: "nat \<Rightarrow> (job_record \<Rightarrow> job_record) \<Rightarrow> job_registry \<Rightarrow> job_registry" where
  "with_record r f s = s\<lparr>jr_heap := (jr_heap s)[r := f (jr_heap s ! r)]\<rparr>"

definition with_snapshot :: "nat \<Rightarrow> (job_snapshot \<Rightarrow> job_snapshot) \<Rightarrow> job_registry \<Rightarrow> job_registry" where
  "with_snapshot r f s = with_record r (\<lambda>b. b\<lparr>jb_snapshot := f (jb_snapshot b)\<rparr>) s"

definition find_record_locked :: "string \<Rightarrow> job_registry \<Rightarrow> nat option" where
  "find_record_locked job_id s = map_of (jr_jobs s) job_id"

definition erase_job :: "string \<Rightarrow> job_registry \<Rightarrow> job_registry" where
  "erase_job job_id s = s\<lparr>jr_jobs := filter (\<lambda>(k, r). k \<noteq> job_id) (jr_jobs s)\<rparr>"

definition is_running :: "job_registry \<Rightarrow> string \<times> nat \<Rightarrow> bool" where
  "is_running s entry \<longleftrightarrow> js_state (snap s (snd entry)) = JobRunning"

definition running_job_count_locked :: "job_registry \<Rightarrow> nat" where
  "running_job_count_locked s = length (filter (is_running s) (jr_jobs s))"

section \<open>Starting a job\<close>

definition new_snapshot :: "job_registry_options \<Rightarrow> job_start_options \<Rightarrow> string \<Rightarrow> job_snapshot" where
  "new_snapshot options start now =
     (let (truncated, description) = truncate_to_bytes (so_description start) (max_description_bytes options) in
      \<lparr>js_job_id = so_job_id start, js_title = so_title start, js_description = description, js_subagent_type = so_subagent_type start,
       js_child_session_id = so_child_session_id start, js_child_session_path = so_child_session_path start, js_state = JobRunning,
       js_created_at = now, js_completed_at = None, js_cancel_requested = False, js_final_text = [], js_description_truncated = truncated,
       js_final_text_truncated = False, js_stop_reason = [], js_error = None, js_provider_iterations = 0, js_tool_calls = 0,
       js_tool_iterations = 0, js_timed_out = False\<rparr>)"

text \<open>One element of the last argument per attempt. The identifier of the new entry, or the last one tried.\<close>

fun allocate_id :: "(string \<times> nat) list \<Rightarrow> bool \<Rightarrow> string \<Rightarrow> string list \<Rightarrow> string + string" where
  "allocate_id jobs supplied current [] = Inl current"
| "allocate_id jobs supplied current (fresh # ids) =
     (let job_id = (if current = [] then fresh else current) in
      if job_id \<notin> fst ` set jobs then Inr job_id
      else if supplied then Inl job_id
      else allocate_id jobs supplied [] ids)"

definition generated_ids :: "(nat \<Rightarrow> nat \<times> nat) \<Rightarrow> string list" where
  "generated_ids draws = map (make_id ''job'' \<circ> draws) [0..<8]"

definition start_admit :: "(nat \<Rightarrow> nat \<times> nat) \<Rightarrow> job_snapshot \<Rightarrow> job_registry \<Rightarrow> ava_error + job_snapshot \<times> nat \<times> job_registry" where
  "start_admit draws snapshot s =
     (if \<not> jr_accepting s then Inl (make_error Tool ''background job registry is shutting down'')
      else if running_job_count_locked s \<ge> max_running_jobs (jr_options s) then Inl (background_job_limit_error (max_running_jobs (jr_options s)))
      else
        (case allocate_id (jr_jobs s) (js_job_id snapshot \<noteq> []) (js_job_id snapshot) (generated_ids draws) of
           Inl tried \<Rightarrow> Inl (duplicate_job_id_error tried)
         | Inr job_id \<Rightarrow>
             let sn = snapshot\<lparr>js_job_id := job_id\<rparr>; r = length (jr_heap s) in
             Inr (sn, r,
                  s\<lparr>jr_jobs := jr_jobs s @ [(job_id, r)],
                    jr_heap := jr_heap s @ [\<lparr>jb_snapshot = sn, jb_stop_published = False, jb_stop_requested = False, jb_thread = NoThread,
                                              jb_joined = False, jb_joining = False\<rparr>],
                    jr_starts := r # jr_starts s\<rparr>)))"

text \<open>\<^verbatim>\<open>start\<close> up to the admission of the record. It joins finished jobs after the first check.\<close>

definition start_request ::
  "bool \<Rightarrow> preflight \<Rightarrow> (nat \<Rightarrow> nat \<times> nat) \<Rightarrow> job_start_options \<Rightarrow> string \<Rightarrow> job_registry \<Rightarrow> ava_error + job_snapshot \<times> nat \<times> job_registry" where
  "start_request worker pre draws start now s =
     (if \<not> worker then Inl (make_error InvalidArgument ''background job worker is unavailable'')
      else
        (case pre of
           Refused e \<Rightarrow> Inl e
         | Threw cause \<Rightarrow> Inl (with_context (make_error Unknown ''failed to prepare background job thread'') ''cause'' cause)
         | ThrewUnknown \<Rightarrow> Inl (make_error Unknown ''failed to prepare background job thread'')
         | _ \<Rightarrow> start_admit draws (new_snapshot (jr_options s) start now) s))"

definition thread_started :: "nat \<Rightarrow> job_registry \<Rightarrow> job_registry" where
  "thread_started r s = with_record r (\<lambda>b. b\<lparr>jb_thread := ThreadRunning\<rparr>) s"

definition thread_failed :: "nat \<Rightarrow> bool \<Rightarrow> string \<Rightarrow> job_registry \<Rightarrow> ava_error \<times> job_registry" where
  "thread_failed r system_error cause s =
     (let job_id = js_job_id (snap s r) in
      (with_context (with_context (make_error Unknown (if system_error then ''failed to start background job thread'' else ''failed to start background job''))
         ''job_id'' job_id) ''cause'' cause,
       (erase_job job_id s)\<lparr>jr_starts := remove1 r (jr_starts s)\<rparr>))"

text \<open>The stop source becomes visible; a cancellation that came before is passed on by \<^verbatim>\<open>start\<close> itself.\<close>

definition start_publish :: "nat \<Rightarrow> job_registry \<Rightarrow> job_registry" where
  "start_publish r s =
     (with_record r (\<lambda>b. b\<lparr>jb_stop_published := True\<rparr>) s)
       \<lparr>jr_starts := remove1 r (jr_starts s), jr_stops := (if js_cancel_requested (snap s r) then [r] else []) @ jr_stops s\<rparr>"

section \<open>Completion\<close>

datatype worker_result = Returned job_completion | WorkerThrew string | WorkerThrewUnknown

fun worker_completion :: "string \<Rightarrow> bool \<Rightarrow> bool \<Rightarrow> worker_result \<Rightarrow> job_completion" where
  "worker_completion job_id stop later (Returned c) = c"
| "worker_completion job_id stop later (WorkerThrew cause) = worker_exception_completion job_id stop later cause"
| "worker_completion job_id stop later WorkerThrewUnknown = worker_exception_completion job_id stop later ''unknown exception''"

definition finished_snapshot :: "job_registry_options \<Rightarrow> job_completion \<Rightarrow> string \<Rightarrow> job_snapshot \<Rightarrow> job_snapshot" where
  "finished_snapshot options c now sn =
     (let (truncated, final_text) = truncate_to_bytes (jc_final_text c) (max_final_text_bytes options) in
      sn\<lparr>js_state := jc_state c, js_completed_at := Some now, js_final_text := final_text, js_final_text_truncated := truncated,
         js_stop_reason := jc_stop_reason c, js_error := formatted_error (jc_error c), js_provider_iterations := jc_provider_iterations c,
         js_tool_calls := jc_tool_calls c, js_tool_iterations := jc_tool_iterations c\<rparr>)"

definition job_complete :: "string \<Rightarrow> job_completion \<Rightarrow> string \<Rightarrow> job_registry \<Rightarrow> job_registry" where
  "job_complete job_id c now s =
     (case find_record_locked job_id s of
        None \<Rightarrow> s
      | Some r \<Rightarrow> with_snapshot r (finished_snapshot (jr_options s) (normalize_completion job_id c) now) s)"

text \<open>The thread of a job: the worker's result is recorded and the thread ends.\<close>

definition worker_exit :: "nat \<Rightarrow> worker_result \<Rightarrow> bool \<Rightarrow> bool \<Rightarrow> string \<Rightarrow> job_registry \<Rightarrow> job_registry" where
  "worker_exit r result stop later now s =
     (let job_id = js_job_id (snap s r) in
      with_record r (\<lambda>b. b\<lparr>jb_thread := ThreadExited\<rparr>) (job_complete job_id (worker_completion job_id stop later result) now s))"

section \<open>Queries and cancellation\<close>

definition list_snapshots :: "job_registry \<Rightarrow> job_snapshot list" where
  "list_snapshots s = sort_key (\<lambda>sn. (js_created_at sn, js_job_id sn)) (map (\<lambda>(k, r). snap s r) (jr_jobs s))"

definition job_snapshot_of :: "string \<Rightarrow> job_registry \<Rightarrow> ava_error + job_snapshot" where
  "job_snapshot_of job_id s =
     (case find_record_locked job_id s of None \<Rightarrow> Inl (job_not_found_error job_id) | Some r \<Rightarrow> Inr (snap s r))"

definition mark_cancel :: "job_snapshot \<Rightarrow> job_snapshot" where
  "mark_cancel sn = (if js_state sn = JobRunning then sn\<lparr>js_cancel_requested := True\<rparr> else sn)"

text \<open>
  The critical section of \<^verbatim>\<open>cancel\<close>. The stop is requested behind it, on the stop source that was
  published by then: \<open>jr_stops\<close> holds the requests that are still to be made.
\<close>

definition stop_source_of :: "job_registry \<Rightarrow> nat \<Rightarrow> nat list" where
  "stop_source_of s r = (if jb_stop_published (jr_heap s ! r) then [r] else [])"

definition job_cancel :: "string \<Rightarrow> job_registry \<Rightarrow> ava_error + job_snapshot \<times> job_registry" where
  "job_cancel job_id s =
     (case find_record_locked job_id s of
        None \<Rightarrow> Inl (job_not_found_error job_id)
      | Some r \<Rightarrow> let s2 = with_snapshot r mark_cancel s in Inr (snap s2 r, s2\<lparr>jr_stops := stop_source_of s r @ jr_stops s\<rparr>))"

definition request_stop :: "nat \<Rightarrow> job_registry \<Rightarrow> job_registry" where
  "request_stop r s = (with_record r (\<lambda>b. b\<lparr>jb_stop_requested := True\<rparr>) s)\<lparr>jr_stops := remove1 r (jr_stops s)\<rparr>"

definition request_stop_all :: "job_registry \<Rightarrow> job_registry" where
  "request_stop_all s =
     (fold (\<lambda>(k, r). with_snapshot r mark_cancel) (jr_jobs s) s)
       \<lparr>jr_stops := concat (map (\<lambda>(k, r). stop_source_of s r) (jr_jobs s)) @ jr_stops s\<rparr>"

text \<open>
  \<^verbatim>\<open>wait_snapshot\<close> reads the registry twice: at the call, and when the wait ends because the job is
  ready or the time is over.
\<close>

definition wait_ready :: "string \<Rightarrow> job_registry \<Rightarrow> bool" where
  "wait_ready job_id s = (case find_record_locked job_id s of None \<Rightarrow> True | Some r \<Rightarrow> job_is_terminal (js_state (snap s r)))"

definition wait_snapshot :: "string \<Rightarrow> job_registry \<Rightarrow> job_registry \<Rightarrow> ava_error + job_snapshot" where
  "wait_snapshot job_id s later =
     (case find_record_locked job_id s of
        None \<Rightarrow> Inl (job_not_found_error job_id)
      | Some r \<Rightarrow>
          if \<not> wait_ready job_id later then Inr ((snap later r)\<lparr>js_timed_out := True\<rparr>)
          else
            (case find_record_locked job_id later of
               None \<Rightarrow> Inl (job_not_found_error job_id)
             | Some r2 \<Rightarrow> Inr (snap later r2)))"

definition job_wait :: "string \<Rightarrow> job_registry \<Rightarrow> job_registry \<Rightarrow> ava_error + job_snapshot" where
  "job_wait job_id s later =
     (case wait_snapshot job_id s later of
        Inl e \<Rightarrow> Inl e
      | Inr sn \<Rightarrow>
          if js_timed_out sn then Inl (with_context (make_error Unknown ''timed out waiting for background job'') ''job_id'' job_id) else Inr sn)"

section \<open>Joining and pruning\<close>

definition joinable :: "job_registry \<Rightarrow> nat \<Rightarrow> bool" where
  "joinable s r \<longleftrightarrow> jb_thread (jr_heap s ! r) = ThreadRunning \<or> jb_thread (jr_heap s ! r) = ThreadExited"

text \<open>The records \<^verbatim>\<open>join_finished\<close> takes on, marked so that no other call takes them.\<close>

definition to_join :: "job_registry \<Rightarrow> string \<times> nat \<Rightarrow> bool" where
  "to_join s entry \<longleftrightarrow> (let b = jr_heap s ! snd entry in \<not> jb_joined b \<and> \<not> jb_joining b \<and> job_is_terminal (js_state (jb_snapshot b)))"

definition join_begin :: "nat option \<Rightarrow> job_registry \<Rightarrow> job_registry" where
  "join_begin caller s =
     (let records = map snd (filter (to_join s) (jr_jobs s)) in
      (fold (\<lambda>r. with_record r (\<lambda>b. b\<lparr>jb_joining := True\<rparr>)) records s)
        \<lparr>jr_joins := \<lparr>jn_caller = caller, jn_pending = records, jn_joined = [], jn_skipped = [], jn_count = 0\<rparr> # jr_joins s\<rparr>)"

text \<open>The wait for a record's \<^verbatim>\<open>thread_mutex\<close> and for the end of its thread is over; a thread does not join itself.\<close>

definition can_join :: "nat option \<Rightarrow> nat \<Rightarrow> job_registry \<Rightarrow> bool" where
  "can_join caller r s \<longleftrightarrow> r \<notin> set (jr_starts s) \<and> (jb_thread (jr_heap s ! r) = ThreadRunning \<longrightarrow> caller = Some r)"

definition join_thread :: "nat \<Rightarrow> job_registry \<Rightarrow> job_registry" where
  "join_thread r s = (if joinable s r then with_record r (\<lambda>b. b\<lparr>jb_thread := ThreadJoined\<rparr>) s else s)"

definition join_record :: "nat \<Rightarrow> join_call \<Rightarrow> job_registry \<Rightarrow> join_call \<times> job_registry" where
  "join_record r c s =
     (let job_id = js_job_id (snap s r); c2 = c\<lparr>jn_pending := tl (jn_pending c)\<rparr> in
      if joinable s r \<and> jn_caller c = Some r then (c2\<lparr>jn_skipped := jn_skipped c @ [job_id]\<rparr>, s)
      else (c2\<lparr>jn_joined := jn_joined c @ [job_id], jn_count := jn_count c + (if joinable s r then 1 else 0)\<rparr>, join_thread r s))"

definition mark_joined :: "string \<Rightarrow> job_registry \<Rightarrow> job_registry" where
  "mark_joined job_id s =
     (case find_record_locked job_id s of
        None \<Rightarrow> s
      | Some r \<Rightarrow>
          if job_is_terminal (js_state (snap s r)) then with_record r (\<lambda>b. b\<lparr>jb_joined := True, jb_joining := False\<rparr>) s else s)"

definition clear_joining :: "string \<Rightarrow> job_registry \<Rightarrow> job_registry" where
  "clear_joining job_id s =
     (case find_record_locked job_id s of None \<Rightarrow> s | Some r \<Rightarrow> with_record r (\<lambda>b. b\<lparr>jb_joining := False\<rparr>) s)"

definition is_retained :: "job_registry \<Rightarrow> string \<times> nat \<Rightarrow> bool" where
  "is_retained s entry \<longleftrightarrow> jb_joined (jr_heap s ! snd entry) \<and> job_is_terminal (js_state (snap s (snd entry)))"

definition completion_key :: "job_snapshot \<Rightarrow> string \<times> string" where
  "completion_key sn = (case js_completed_at sn of None \<Rightarrow> js_created_at sn | Some t \<Rightarrow> t, js_job_id sn)"

definition prune_retained_finished_jobs_locked :: "job_registry \<Rightarrow> job_registry" where
  "prune_retained_finished_jobs_locked s =
     (let retained = map (\<lambda>(k, r). snap s r) (filter (is_retained s) (jr_jobs s)) in
      if length retained \<le> max_retained_finished_jobs (jr_options s) then s
      else
        fold (\<lambda>sn. erase_job (js_job_id sn))
          (take (length retained - max_retained_finished_jobs (jr_options s)) (sort_key completion_key retained)) s)"

definition join_marks :: "join_call \<Rightarrow> job_registry \<Rightarrow> job_registry" where
  "join_marks c s = fold clear_joining (jn_skipped c) (fold mark_joined (jn_joined c) s)"

definition join_end :: "join_call \<Rightarrow> job_registry \<Rightarrow> job_registry" where
  "join_end c s = (if jn_joined c = [] \<and> jn_skipped c = [] then s else prune_retained_finished_jobs_locked (join_marks c s))"

section \<open>Shutdown\<close>

text \<open>\<^verbatim>\<open>shutdown\<close> closes the registry, requests all stops, joins every record with \<^verbatim>\<open>join_all\<close> and ends with \<^verbatim>\<open>join_finished\<close>.\<close>

definition close_registry :: "job_registry \<Rightarrow> job_registry" where
  "close_registry s = s\<lparr>jr_accepting := False\<rparr>"

definition join_all_begin :: "nat option \<Rightarrow> job_registry \<Rightarrow> job_registry" where
  "join_all_begin caller s = s\<lparr>jr_join_alls := (caller, map snd (jr_jobs s)) # jr_join_alls s\<rparr>"

definition join_all_record :: "nat option \<Rightarrow> nat \<Rightarrow> job_registry \<Rightarrow> job_registry" where
  "join_all_record caller r s = (if joinable s r \<and> caller \<noteq> Some r then join_thread r s else s)"

section \<open>Interleavings\<close>

inductive job_step :: "job_registry \<Rightarrow> job_registry \<Rightarrow> bool" where
  admit: "start_request worker pre draws start now s = Inr (sn, r, s') \<Longrightarrow> job_step s s'"
| spawn: "r \<in> set (jr_starts s) \<Longrightarrow> jb_thread (jr_heap s ! r) = NoThread \<Longrightarrow> job_step s (thread_started r s)"
| spawn_failed: "r \<in> set (jr_starts s) \<Longrightarrow> jb_thread (jr_heap s ! r) = NoThread \<Longrightarrow> job_step s (snd (thread_failed r system_error cause s))"
| publish: "r \<in> set (jr_starts s) \<Longrightarrow> jb_thread (jr_heap s ! r) \<noteq> NoThread \<Longrightarrow> job_step s (start_publish r s)"
| exit: "r < length (jr_heap s) \<Longrightarrow> jb_thread (jr_heap s ! r) = ThreadRunning \<Longrightarrow> (stop \<longrightarrow> later) \<Longrightarrow>
    (later \<longrightarrow> jb_stop_requested (jr_heap s ! r)) \<Longrightarrow> job_step s (worker_exit r result stop later now s)"
| cancel: "job_cancel job_id s = Inr (sn, s') \<Longrightarrow> job_step s s'"
| stop: "r \<in> set (jr_stops s) \<Longrightarrow> job_step s (request_stop r s)"
| stop_all: "job_step s (request_stop_all s)"
| close: "job_step s (close_registry s)"
| join_start: "job_step s (join_begin caller s)"
| join_next: "jr_joins s = xs @ c # ys \<Longrightarrow> jn_pending c = r # rs \<Longrightarrow> can_join (jn_caller c) r s \<Longrightarrow> join_record r c s = (c2, s2) \<Longrightarrow>
    job_step s (s2\<lparr>jr_joins := xs @ c2 # ys\<rparr>)"
| join_done: "jr_joins s = xs @ c # ys \<Longrightarrow> jn_pending c = [] \<Longrightarrow> job_step s (join_end c (s\<lparr>jr_joins := xs @ ys\<rparr>))"
| join_all_start: "\<not> jr_accepting s \<Longrightarrow> job_step s (join_all_begin caller s)"
| join_all_next: "jr_join_alls s = xs @ (caller, r # rs) # ys \<Longrightarrow> can_join caller r s \<Longrightarrow>
    job_step s ((join_all_record caller r s)\<lparr>jr_join_alls := xs @ (caller, rs) # ys\<rparr>)"
| join_all_done: "jr_join_alls s = xs @ (caller, []) # ys \<Longrightarrow> job_step s (s\<lparr>jr_join_alls := xs @ ys\<rparr>)"

inductive jobs_reachable :: "job_registry_options \<Rightarrow> job_registry \<Rightarrow> bool" for options where
  empty: "jobs_reachable options (empty_registry options)"
| step: "jobs_reachable options s \<Longrightarrow> job_step s s' \<Longrightarrow> jobs_reachable options s'"

section \<open>Effect of the operations\<close>

lemma with_record_simps [simp]:
  "jr_options (with_record r f s) = jr_options s" "jr_accepting (with_record r f s) = jr_accepting s" "jr_jobs (with_record r f s) = jr_jobs s"
  "jr_starts (with_record r f s) = jr_starts s" "jr_stops (with_record r f s) = jr_stops s" "jr_joins (with_record r f s) = jr_joins s"
  "jr_join_alls (with_record r f s) = jr_join_alls s" "length (jr_heap (with_record r f s)) = length (jr_heap s)"
  "(with_record r f s)\<lparr>jr_heap := h\<rparr> = s\<lparr>jr_heap := h\<rparr>"
  by (simp_all add: with_record_def)

lemma with_record_nth:
  "i < length (jr_heap s) \<Longrightarrow> jr_heap (with_record r f s) ! i = (if i = r then f (jr_heap s ! i) else jr_heap s ! i)"
  by (auto simp: with_record_def nth_list_update)

lemma with_snapshot_simps [simp]:
  "jr_options (with_snapshot r f s) = jr_options s" "jr_accepting (with_snapshot r f s) = jr_accepting s" "jr_jobs (with_snapshot r f s) = jr_jobs s"
  "jr_starts (with_snapshot r f s) = jr_starts s" "jr_stops (with_snapshot r f s) = jr_stops s" "jr_joins (with_snapshot r f s) = jr_joins s"
  "jr_join_alls (with_snapshot r f s) = jr_join_alls s" "length (jr_heap (with_snapshot r f s)) = length (jr_heap s)"
  by (simp_all add: with_snapshot_def)

lemma with_snapshot_nth:
  "i < length (jr_heap s) \<Longrightarrow>
    jr_heap (with_snapshot r f s) ! i = (if i = r then (jr_heap s ! i)\<lparr>jb_snapshot := f (snap s i)\<rparr> else jr_heap s ! i)"
  by (simp add: with_snapshot_def with_record_nth)

text \<open>A loop that updates the records of a list; the update does the same when applied twice.\<close>

lemma fold_with_record:
  assumes "\<And>b. f (f b) = f b"
  shows "\<exists>h. fold (\<lambda>r. with_record r f) rs s = s\<lparr>jr_heap := h\<rparr> \<and> length h = length (jr_heap s) \<and>
    (\<forall>i < length (jr_heap s). h ! i = (if i \<in> set rs then f (jr_heap s ! i) else jr_heap s ! i))"
proof (induction rs arbitrary: s)
  case Nil
  then show ?case by (intro exI [where x = "jr_heap s"]) simp
next
  case (Cons r rs)
  obtain h where h: "fold (\<lambda>r. with_record r f) rs (with_record r f s) = (with_record r f s)\<lparr>jr_heap := h\<rparr>" "length h = length (jr_heap s)"
    "\<forall>i < length (jr_heap s). h ! i = (if i \<in> set rs then f (jr_heap (with_record r f s) ! i) else jr_heap (with_record r f s) ! i)"
    using Cons [of "with_record r f s"] by auto
  then show ?case using assms by (intro exI [where x = h]) (auto simp: with_record_nth)
qed

lemma fold_fold_map: "fold (\<lambda>(k, r). g r) xs = fold g (map snd xs)"
  by (simp add: fold_map comp_def case_prod_beta')

lemma request_stop_all_heap:
  "\<exists>h. request_stop_all s = s\<lparr>jr_heap := h, jr_stops := concat (map (\<lambda>(k, r). stop_source_of s r) (jr_jobs s)) @ jr_stops s\<rparr> \<and>
    length h = length (jr_heap s) \<and>
    (\<forall>i < length (jr_heap s). h ! i = (if i \<in> snd ` set (jr_jobs s) then (jr_heap s ! i)\<lparr>jb_snapshot := mark_cancel (snap s i)\<rparr> else jr_heap s ! i))"
proof -
  have e: "(\<lambda>r. with_snapshot r mark_cancel) = (\<lambda>r. with_record r (\<lambda>b. b\<lparr>jb_snapshot := mark_cancel (jb_snapshot b)\<rparr>))"
    by (intro ext) (simp add: with_snapshot_def)
  obtain h where "fold (\<lambda>r. with_snapshot r mark_cancel) (map snd (jr_jobs s)) s = s\<lparr>jr_heap := h\<rparr>" "length h = length (jr_heap s)"
    "\<forall>i < length (jr_heap s). h ! i = (if i \<in> set (map snd (jr_jobs s)) then (jr_heap s ! i)\<lparr>jb_snapshot := mark_cancel (snap s i)\<rparr> else jr_heap s ! i)"
    using fold_with_record [of "\<lambda>b. b\<lparr>jb_snapshot := mark_cancel (jb_snapshot b)\<rparr>" "map snd (jr_jobs s)" s]
    by (auto simp: e mark_cancel_def)
  then show ?thesis unfolding request_stop_all_def by (intro exI [where x = h]) (simp add: fold_fold_map)
qed

lemma join_begin_heap:
  "\<exists>h records. join_begin caller s = s\<lparr>jr_heap := h,
       jr_joins := \<lparr>jn_caller = caller, jn_pending = records, jn_joined = [], jn_skipped = [], jn_count = 0\<rparr> # jr_joins s\<rparr> \<and>
    records = map snd (filter (to_join s) (jr_jobs s)) \<and> length h = length (jr_heap s) \<and>
    (\<forall>i < length (jr_heap s). h ! i = (if i \<in> set records then (jr_heap s ! i)\<lparr>jb_joining := True\<rparr> else jr_heap s ! i))"
proof -
  define records where "records = map snd (filter (to_join s) (jr_jobs s))"
  obtain h where "fold (\<lambda>r. with_record r (\<lambda>b. b\<lparr>jb_joining := True\<rparr>)) records s = s\<lparr>jr_heap := h\<rparr>" "length h = length (jr_heap s)"
    "\<forall>i < length (jr_heap s). h ! i = (if i \<in> set records then (jr_heap s ! i)\<lparr>jb_joining := True\<rparr> else jr_heap s ! i)"
    using fold_with_record [of "\<lambda>b. b\<lparr>jb_joining := True\<rparr>" records s] by auto
  then show ?thesis
    by (intro exI [where x = h] exI [where x = records]) (simp add: join_begin_def Let_def flip: records_def)
qed

text \<open>Erasing a list of identifiers.\<close>

lemma fold_erase:
  "fold (\<lambda>sn. erase_job (js_job_id sn)) sns s = s\<lparr>jr_jobs := filter (\<lambda>(k, r). k \<notin> js_job_id ` set sns) (jr_jobs s)\<rparr>"
proof (induction sns arbitrary: s)
  case Nil
  then show ?case by (simp add: case_prod_unfold)
next
  case (Cons sn sns)
  have "(\<lambda>x. fst x \<notin> js_job_id ` set sns \<and> fst x \<noteq> js_job_id sn) = (\<lambda>x. fst x \<notin> js_job_id ` set (sn # sns))" by auto
  then show ?case unfolding fold_simps comp_def Cons by (simp add: erase_job_def case_prod_unfold)
qed

definition table_ok :: "job_registry \<Rightarrow> bool" where
  "table_ok s \<longleftrightarrow> distinct (map fst (jr_jobs s)) \<and>
     (\<forall>(k, r) \<in> set (jr_jobs s). k \<noteq> [] \<and> r < length (jr_heap s) \<and> js_job_id (snap s r) = k)"

lemma table_okD:
  assumes "table_ok s"
  shows "distinct (map fst (jr_jobs s))" "(k, r) \<in> set (jr_jobs s) \<Longrightarrow> k \<noteq> []"
    "(k, r) \<in> set (jr_jobs s) \<Longrightarrow> r < length (jr_heap s)" "(k, r) \<in> set (jr_jobs s) \<Longrightarrow> js_job_id (snap s r) = k"
    "(k, r) \<in> set (jr_jobs s) \<Longrightarrow> (k, r2) \<in> set (jr_jobs s) \<Longrightarrow> r2 = r"
  using assms by (auto simp: table_ok_def dest: eq_key_imp_eq_value)

lemma table_ok_same: "table_ok s \<Longrightarrow> (k, r) \<in> set (jr_jobs s) \<Longrightarrow> (k2, r) \<in> set (jr_jobs s) \<Longrightarrow> k2 = k"
  using table_okD(4) by metis

lemma find_record_iff: "table_ok s \<Longrightarrow> find_record_locked k s = Some r \<longleftrightarrow> (k, r) \<in> set (jr_jobs s)"
  by (simp add: table_ok_def find_record_locked_def)

text \<open>What pruning removes, and that it leaves no more finished jobs than allowed.\<close>

definition retained_jobs :: "job_registry \<Rightarrow> (string \<times> nat) list" where
  "retained_jobs s = filter (is_retained s) (jr_jobs s)"

text \<open>The entries that pruning erases.\<close>

definition pruned_snapshots :: "job_registry \<Rightarrow> job_snapshot list" where
  "pruned_snapshots s =
     take (length (retained_jobs s) - max_retained_finished_jobs (jr_options s)) (sort_key completion_key (map (\<lambda>(k, r). snap s r) (retained_jobs s)))"

lemma prune_pruned:
  "prune_retained_finished_jobs_locked s = s\<lparr>jr_jobs := filter (\<lambda>(k, r). k \<notin> js_job_id ` set (pruned_snapshots s)) (jr_jobs s)\<rparr>"
  by (simp add: prune_retained_finished_jobs_locked_def fold_erase pruned_snapshots_def retained_jobs_def Let_def case_prod_unfold)

lemma pruned_retained:
  assumes "table_ok s" "(k, r) \<in> set (jr_jobs s)" "k \<in> js_job_id ` set (pruned_snapshots s)"
  shows "is_retained s (k, r)"
proof -
  obtain sn where sn: "sn \<in> set (pruned_snapshots s)" "js_job_id sn = k" using assms(3) by auto
  then obtain j i where i: "(j, i) \<in> set (jr_jobs s)" "is_retained s (j, i)" "sn = snap s i"
    unfolding pruned_snapshots_def retained_jobs_def by (auto dest!: in_set_takeD)
  have "j = k" using table_okD(4) [OF assms(1) i(1)] sn(2) i(3) by simp
  then show ?thesis using table_okD(5) [OF assms(1,2)] i(1,2) by (simp add: is_retained_def)
qed

lemma prune_jobs:
  assumes "table_ok s"
  shows "\<exists>K. prune_retained_finished_jobs_locked s = s\<lparr>jr_jobs := filter (\<lambda>(k, r). k \<notin> K) (jr_jobs s)\<rparr> \<and>
    (\<forall>(k, r) \<in> set (jr_jobs s). k \<in> K \<longrightarrow> is_retained s (k, r))"
  using pruned_retained [OF assms] prune_pruned by blast

end
