(* ===== verification/Permission_Rules.thy ===== *)
theory Permission_Rules
  imports Permission_Recipe Background_Jobs
begin

text \<open>
  Stored permission rules: \<^verbatim>\<open>permissions/permission_rules.cpp\<close>, \<^verbatim>\<open>permission_rule_matching.cpp\<close>, the path
  identities of \<^verbatim>\<open>permission_rule_path.cpp\<close> and the rule validation of \<^verbatim>\<open>permission_rule_codec.cpp\<close>.
  The user may store allows and denies; the resolver looks for a stored rule before it asks, the
  preflight looks for a stored deny before a request passes that needs no question.

  What the two rule files yield, a list of rules or an error, is an argument (\<open>loaded\<close>) of the
  matching; their text format and file handling are not modelled. \<^verbatim>\<open>::stat\<close> and the working
  directory are the host's.
\<close>

unbundle bit_operations_syntax

section \<open>Data\<close>

datatype permission_rule_scope = GlobalRule | WorkspaceRule

datatype permission_rule_mode = AnyMode | BuildMode | PlanMode

abbreviation (input) kCurrentPermissionRulesSchemaVersion :: int where
  "kCurrentPermissionRulesSchemaVersion \<equiv> 2"

abbreviation (input) kLegacyPermissionRulesSchemaVersion :: int where
  "kLegacyPermissionRulesSchemaVersion \<equiv> 1"

record permission_rule_store =
  prs_global_rules_file :: string
  prs_workspace_rules_file :: string
  prs_workspace_dir :: string

record persistent_permission_rule =
  pr_rule_id :: string
  pr_scope :: permission_rule_scope
  pr_workspace_dir :: string
  pr_action :: permission_action
  pr_operation :: operation
  pr_mode :: permission_rule_mode
  pr_tool_name :: string
  pr_target_path :: string
  pr_command :: string
  pr_command_recipe_key :: string
  pr_recipe_display :: string
  pr_critical_acknowledged :: bool
  pr_schema_version :: int
  pr_reason :: string
  pr_actor :: string
  pr_created_at :: string

record permission_rule_draft =
  dr_scope :: permission_rule_scope
  dr_action :: permission_action
  dr_operation :: operation
  dr_mode :: permission_rule_mode
  dr_tool_name :: string
  dr_target_path :: string
  dr_command :: string
  dr_command_recipe_key :: string
  dr_recipe_display :: string
  dr_critical_acknowledged :: bool
  dr_reason :: string
  dr_actor :: string

record permission_prompt =
  pp_permission_request_id :: string
  pp_tool_call_id :: string
  pp_operation :: operation
  pp_mode :: mode
  pp_workspace_dir :: string
  pp_target_path :: string
  pp_command :: string
  pp_tool_name :: string
  pp_reason :: string
  pp_risk :: permission_risk
  pp_diff_preview :: string
  pp_diff_truncated :: bool
  pp_command_metadata :: "command_permission_metadata option"

record permission_resolution_decision =
  rd_resolution :: permission_resolution
  rd_reason :: string
  rd_user_guidance :: string
  rd_resolution_source :: string
  rd_rule_id :: string
  rd_authoritative :: bool

definition resolution_decision :: "permission_resolution \<Rightarrow> string \<Rightarrow> permission_resolution_decision" where
  "resolution_decision r reason =
     \<lparr>rd_resolution = r, rd_reason = reason, rd_user_guidance = [], rd_resolution_source = [], rd_rule_id = [], rd_authoritative = False\<rparr>"

text \<open>The host of the rules: the working directory, \<^verbatim>\<open>::stat\<close> on a path, and \<^verbatim>\<open>std::strerror\<close>.\<close>

record rule_host =
  rh_cwd :: string
  rh_stat :: "string \<Rightarrow> file_id syscall"
  rh_strerror :: "errno \<Rightarrow> string"

section \<open>Paths of rules\<close>

definition rule_file_error :: "error_category \<Rightarrow> string \<Rightarrow> string \<Rightarrow> ava_error" where
  "rule_file_error category message path = with_context (make_error category message) ''path'' path"

definition rule_parse_error :: "string \<Rightarrow> string \<Rightarrow> string \<Rightarrow> nat option \<Rightarrow> ava_error" where
  "rule_parse_error message path field index =
     (let e = rule_file_error InvalidArgument message path;
          e = (if field \<noteq> [] then with_context e ''field'' field else e) in
      case index of None \<Rightarrow> e | Some i \<Rightarrow> with_context e ''rule_index'' (int_string (int i)))"

definition root_path :: "string \<Rightarrow> string" where
  "root_path p = (if is_absolute p then ''/'' else [])"

lemma separator_at_end:
  assumes "path_filename p = []" "\<not> path_eq p (root_path p)"
  shows "trailing_separator p"
proof -
  have "p \<noteq> []" using assms(2) by (auto simp: root_path_def is_absolute_def)
  moreover have "path_names p \<noteq> []"
  proof
    assume none: "path_names p = []"
    then have "path_parts p = path_parts (root_path p)"
      by (simp add: path_parts_def trailing_separator_def root_path_def is_absolute_def)
    with assms(2) show False by (simp add: path_eq_def)
  qed
  ultimately show ?thesis using assms(1) by (simp add: trailing_separator_def path_filename_empty)
qed

lemma parent_path_trailing: "trailing_separator p \<Longrightarrow> \<not> trailing_separator (parent_path p)"
  using path_names_good [of _ p] by (simp add: parent_path_def trailing_separator_def [of p])

function strip_separators :: "string \<Rightarrow> string" where
  "strip_separators p =
     (if \<not> path_eq p (root_path p) \<and> path_filename p = [] then strip_separators (parent_path p) else p)"
  by auto
termination
  by (relation "measure (\<lambda>p. if trailing_separator p then 1 else 0)") (auto dest: separator_at_end parent_path_trailing)

declare strip_separators.simps [simp del]

definition normalized_path :: "string \<Rightarrow> string \<Rightarrow> string" where
  "normalized_path cwd p = strip_separators (normalized_absolute_path cwd p)"

type_synonym path_identity = "file_id \<times> string list"

text \<open>The bounded walk to the closest existing ancestor; \<open>n\<close> is what is left of its 256 rounds.\<close>

fun identity_walk :: "rule_host \<Rightarrow> string \<Rightarrow> nat \<Rightarrow> string \<Rightarrow> string list \<Rightarrow> path_identity ava_result" where
  "identity_walk h original 0 path missing =
     Inl (rule_file_error Io ''permission path identity exceeded the component limit'' original)"
| "identity_walk h original (Suc n) path missing =
     (case rh_stat h path of
        Inr identity \<Rightarrow> Inr (identity, missing)
      | Inl error_number \<Rightarrow>
          if error_number \<noteq> ENOENT \<and> error_number \<noteq> ENOTDIR then
            Inl (with_context
                  (with_context (rule_file_error Io ''failed to establish permission path identity'' original)
                    ''identity_component'' path)
                  ''cause'' (rh_strerror h error_number))
          else
            let parent = parent_path path in
            if parent = [] \<or> path_eq parent path then
              Inl (rule_file_error Io ''failed to find an existing permission path ancestor'' original)
            else identity_walk h original n parent (missing @ [path_filename path]))"

definition path_identity :: "rule_host \<Rightarrow> string \<Rightarrow> path_identity ava_result" where
  "path_identity h p =
     (if p = [] then Inl (rule_file_error InvalidArgument ''permission path identity requires a non-empty path'' p)
      else let path = normalized_path (rh_cwd h) p in identity_walk h path 256 path [])"

definition paths_refer_to_same_file :: "rule_host \<Rightarrow> string \<Rightarrow> string \<Rightarrow> bool ava_result" where
  "paths_refer_to_same_file h a b =
     (case path_identity h a of
        Inl e \<Rightarrow> Inl e
      | Inr left_side \<Rightarrow>
          (case path_identity h b of
             Inl e \<Rightarrow> Inl e
           | Inr right_side \<Rightarrow> Inr (fst left_side = fst right_side \<and> snd left_side = snd right_side)))"

definition contains_parent_reference :: "string \<Rightarrow> bool" where
  "contains_parent_reference p = list_ex (\<lambda>part. part = ''..'') (path_parts (lexically_normal p))"

definition workspace_rules_key :: "string \<Rightarrow> string \<Rightarrow> string" where
  "workspace_rules_key cwd workspace_dir =
     hex_number (unat (foldl (\<lambda>hash c. (hash XOR of_nat (byte c)) * 1099511628211) (14695981039346656037 :: 64 word)
       (normalized_path cwd workspace_dir)))"

definition enforceable_permission_rules_file :: "string \<Rightarrow> permission_rule_store \<Rightarrow> permission_rule_scope \<Rightarrow> string" where
  "enforceable_permission_rules_file cwd store scope =
     (if scope = GlobalRule then prs_global_rules_file store
      else
        let base_dir = parent_path (prs_global_rules_file store);
            base_dir = (if base_dir = [] then parent_path (prs_workspace_rules_file store) else base_dir) in
        path_append (path_append (path_append base_dir ''workspace-permission-rules'')
          (workspace_rules_key cwd (prs_workspace_dir store))) ''permission-rules.json'')"

text \<open>The process-wide list of protected rule files, which the file tools consult.\<close>

definition append_protected_rule_path :: "string \<Rightarrow> string list \<Rightarrow> string \<Rightarrow> string list" where
  "append_protected_rule_path cwd paths path =
     (if path = [] then paths
      else
        let path = normalized_path cwd path in
        if list_ex (\<lambda>q. path_eq q path) paths then paths else paths @ [path])"

definition register_enforceable_permission_rule_files :: "string \<Rightarrow> permission_rule_store \<Rightarrow> string list \<Rightarrow> string list" where
  "register_enforceable_permission_rule_files cwd store paths =
     (let paths = (if prs_global_rules_file store \<noteq> []
                   then append_protected_rule_path cwd paths (enforceable_permission_rules_file cwd store GlobalRule) else paths) in
      if prs_workspace_dir store \<noteq> []
      then append_protected_rule_path cwd paths (enforceable_permission_rules_file cwd store WorkspaceRule) else paths)"

definition is_enforceable_permission_rules_file :: "rule_host \<Rightarrow> permission_rule_store \<Rightarrow> string \<Rightarrow> bool" where
  "is_enforceable_permission_rules_file h store path =
     (if path = [] then False
      else if prs_global_rules_file store \<noteq> [] \<and>
        paths_refer_to_same_file h path (enforceable_permission_rules_file (rh_cwd h) store GlobalRule) = Inr True then True
      else if prs_workspace_dir store = [] then False
      else paths_refer_to_same_file h path (enforceable_permission_rules_file (rh_cwd h) store WorkspaceRule) = Inr True)"

definition is_registered_enforceable_permission_rules_file :: "rule_host \<Rightarrow> string list \<Rightarrow> string \<Rightarrow> bool" where
  "is_registered_enforceable_permission_rules_file h paths path =
     (path \<noteq> [] \<and> list_ex (\<lambda>registered. paths_refer_to_same_file h path registered = Inr True) paths)"

section \<open>Valid rules\<close>

definition valid_recipe_key :: "string \<Rightarrow> permission_rule_scope \<Rightarrow> bool" where
  "valid_recipe_key v scope =
     (let key_prefix = (if scope = GlobalRule then ''sha256:ava-command-recipe-v1:'' else ''sha256:ava-command-workspace-recipe-v1:'') in
      starts_with v key_prefix \<and> length v = length key_prefix + 64 \<and> length v \<le> 128 \<and>
      list_all (\<lambda>c. isdigit c \<or> CHR ''a'' \<le> c \<and> c \<le> CHR ''f'') (drop (length key_prefix) v))"

definition valid_identifier :: "string \<Rightarrow> bool" where
  "valid_identifier v =
     (v \<noteq> [] \<and> length v \<le> 256 \<and> list_all (\<lambda>c. isalnum c \<or> c = CHR ''_'' \<or> c = CHR ''-'' \<or> c = CHR ''.'') v)"

definition is_path_operation :: "operation \<Rightarrow> bool" where
  "is_path_operation operation =
     (operation = ReadFile \<or> operation = SearchFiles \<or> operation = EditFile \<or> operation = LspQuery)"

definition is_command_operation :: "operation \<Rightarrow> bool" where
  "is_command_operation operation =
     (operation = RunCommand \<or> operation = NetworkFetch \<or> operation = NetworkSearch \<or> operation = LspServerLaunch \<or>
      operation = McpResourceRead)"

definition validate_rule :: "persistent_permission_rule \<Rightarrow> string \<Rightarrow> nat option \<Rightarrow> unit ava_result" where
  "validate_rule rule path rule_index =
     (let fail = (\<lambda>message field. Inl (rule_parse_error message path field rule_index));
          legacy = pr_schema_version rule = kLegacyPermissionRulesSchemaVersion;
          current = pr_schema_version rule = kCurrentPermissionRulesSchemaVersion;
          key = pr_command_recipe_key rule;
          bad_text = (\<lambda>text limit. length text > limit \<or> has_c0_or_del text \<or> \<not> is_valid_utf8 text) in
      if \<not> valid_identifier (pr_rule_id rule) then
        Inl (with_context (rule_parse_error ''permission rule id is invalid'' path ''rule_id'' rule_index) ''rule_id'' (pr_rule_id rule))
      else if pr_action rule = Ask then fail ''persistent permission rules only support allow or deny'' ''action''
      else if \<not> legacy \<and> \<not> current then fail ''permission rule schema_version is invalid'' ''schema_version''
      else if pr_critical_acknowledged rule \<and> (pr_operation rule \<noteq> RunCommand \<or> pr_action rule \<noteq> Allow) then
        fail ''critical_acknowledged is valid only for exact RunCommand allows'' ''critical_acknowledged''
      else if pr_critical_acknowledged rule \<and> is_repository_controlled_build_or_test_command (pr_command rule) then
        fail ''critical_acknowledged cannot authorize repository-controlled cmake build or ctest commands'' ''critical_acknowledged''
      else if pr_actor rule \<noteq> [] \<and> (\<not> valid_identifier (pr_actor rule) \<or> has_c0_or_del (pr_actor rule)) then
        fail ''permission rule actor is invalid'' ''actor''
      else if pr_reason rule = [] \<or> bad_text (pr_reason rule) 1024 then fail ''permission rule reason is invalid'' ''reason''
      else if pr_tool_name rule \<noteq> [] \<and> (\<not> valid_identifier (pr_tool_name rule) \<or> has_c0_or_del (pr_tool_name rule)) then
        fail ''permission rule tool_name is invalid'' ''tool_name''
      else if bad_text (pr_command rule) 8192 then fail ''permission rule command is invalid'' ''command''
      else if legacy \<and> (key \<noteq> [] \<or> pr_recipe_display rule \<noteq> [] \<or> pr_critical_acknowledged rule) then
        fail ''schema-v1 rules cannot contain stable command recipe fields'' ''command_recipe_key''
      else if length key > 128 \<or> has_c0_or_del key \<or> (key \<noteq> [] \<and> \<not> valid_recipe_key key (pr_scope rule)) then
        fail ''permission rule command_recipe_key is invalid for its scope'' ''command_recipe_key''
      else if bad_text (pr_recipe_display rule) 1024 then fail ''permission rule recipe_display is invalid'' ''recipe_display''
      else if pr_scope rule = WorkspaceRule \<and> pr_workspace_dir rule = [] then
        fail ''workspace permission rule is missing workspace_dir'' ''workspace_dir''
      else if is_path_operation (pr_operation rule) \<and> pr_target_path rule = [] then
        fail ''path permission rule is missing target_path'' ''target_path''
      else if pr_operation rule = RunCommand \<and> pr_action rule = Allow \<and> current \<and>
        \<not> (key \<noteq> [] \<and> \<not> pr_critical_acknowledged rule) \<and>
        \<not> (key = [] \<and> pr_critical_acknowledged rule \<and> pr_command rule \<noteq> []) then
        fail ''schema-v2 command allow requires an exact scope recipe key, or critical_acknowledged=true with exact command'' ''command_recipe_key''
      else if pr_operation rule = RunCommand \<and> pr_action rule = Deny \<and> pr_command rule = [] \<and> key = [] then
        fail ''command deny rule requires exact command or recipe key'' ''command''
      else if pr_operation rule = RunCommand \<and> legacy \<and> pr_action rule = Allow \<and> pr_command rule = [] then
        fail ''legacy command allow is missing exact command'' ''command''
      else if pr_operation rule \<noteq> RunCommand \<and> is_command_operation (pr_operation rule) \<and> pr_command rule = [] then
        fail ''command permission rule is missing command'' ''command''
      else if \<not> is_path_operation (pr_operation rule) \<and> \<not> is_command_operation (pr_operation rule) \<and> pr_tool_name rule = [] then
        fail ''permission rule is missing tool_name'' ''tool_name''
      else Inr ())"

section \<open>Rules from drafts\<close>

definition normalize_rule_target_path :: "string \<Rightarrow> permission_rule_store \<Rightarrow> permission_rule_scope \<Rightarrow> string \<Rightarrow> string ava_result" where
  "normalize_rule_target_path cwd store scope target_path =
     (if target_path = [] then Inr []
      else if \<not> is_absolute target_path then
        if scope = GlobalRule then
          Inl (with_context (make_error InvalidArgument ''global permission path rules require an absolute target_path'')
            ''target_path'' target_path)
        else if contains_parent_reference target_path then
          Inl (with_context (make_error InvalidArgument ''relative permission rule target_path must stay within the workspace'')
            ''target_path'' target_path)
        else Inr (normalized_path cwd (path_append (prs_workspace_dir store) target_path))
      else Inr (normalized_path cwd target_path))"

definition normalize_draft_defaults :: "permission_rule_draft \<Rightarrow> permission_rule_draft" where
  "normalize_draft_defaults draft = (if dr_actor draft = [] then draft\<lparr>dr_actor := ''rpc''\<rparr> else draft)"

definition is_repository_build_or_test_allow :: "persistent_permission_rule \<Rightarrow> bool" where
  "is_repository_build_or_test_allow rule \<longleftrightarrow>
     pr_action rule = Allow \<and> pr_operation rule = RunCommand \<and> pr_command_recipe_key rule = [] \<and>
     \<not> pr_critical_acknowledged rule \<and> is_repository_controlled_build_or_test_command (pr_command rule)"

text \<open>\<open>draw\<close> is what the identifier is made of and \<open>now\<close> the time stamp.\<close>

definition rule_from_draft ::
  "string \<Rightarrow> nat \<times> nat \<Rightarrow> string \<Rightarrow> permission_rule_store \<Rightarrow> permission_rule_draft \<Rightarrow> persistent_permission_rule ava_result" where
  "rule_from_draft cwd draw now store draft0 =
     (let draft = normalize_draft_defaults draft0 in
      case normalize_rule_target_path cwd store (dr_scope draft) (dr_target_path draft) of
        Inl e \<Rightarrow> Inl e
      | Inr target \<Rightarrow>
          let rule = \<lparr>pr_rule_id = make_id ''permrule'' draw,
                      pr_scope = dr_scope draft,
                      pr_workspace_dir = (if dr_scope draft = WorkspaceRule then normalized_path cwd (prs_workspace_dir store) else []),
                      pr_action = dr_action draft,
                      pr_operation = dr_operation draft,
                      pr_mode = dr_mode draft,
                      pr_tool_name = dr_tool_name draft,
                      pr_target_path = target,
                      pr_command = dr_command draft,
                      pr_command_recipe_key = dr_command_recipe_key draft,
                      pr_recipe_display = dr_recipe_display draft,
                      pr_critical_acknowledged = dr_critical_acknowledged draft,
                      pr_schema_version = kCurrentPermissionRulesSchemaVersion,
                      pr_reason = dr_reason draft,
                      pr_actor = dr_actor draft,
                      pr_created_at = now\<rparr>;
              path = enforceable_permission_rules_file cwd store (pr_scope rule) in
          case validate_rule rule path None of
            Inl e \<Rightarrow> Inl e
          | Inr _ \<Rightarrow>
              if pr_operation rule = RunCommand \<and> pr_action rule = Allow \<and> pr_critical_acknowledged rule then
                Inl (rule_parse_error ''Critical command approvals are one-shot and cannot be persisted'' path ''critical_acknowledged'' None)
              else if is_repository_build_or_test_allow rule then
                Inl (rule_parse_error
                  ''persistent allow rules require a stable command recipe key; raw repository build/test command text is not authorizing''
                  path ''command_recipe_key'' None)
              else Inr rule)"

section \<open>Matching\<close>

fun mode_matches :: "permission_rule_mode \<Rightarrow> mode \<Rightarrow> bool" where
  "mode_matches AnyMode prompt_mode = True"
| "mode_matches BuildMode prompt_mode = (prompt_mode = Build)"
| "mode_matches PlanMode prompt_mode = (prompt_mode = Plan)"

definition scope_matches :: "string \<Rightarrow> permission_rule_store \<Rightarrow> persistent_permission_rule \<Rightarrow> permission_prompt \<Rightarrow> bool" where
  "scope_matches cwd store rule prompt =
     (if pr_scope rule = GlobalRule then True
      else
        let store_workspace = normalized_path cwd (prs_workspace_dir store);
            prompt_workspace = normalized_path cwd (pp_workspace_dir prompt) in
        path_eq (pr_workspace_dir rule) store_workspace \<and> path_eq prompt_workspace store_workspace)"

definition path_matches ::
  "rule_host \<Rightarrow> permission_rule_store \<Rightarrow> persistent_permission_rule \<Rightarrow> permission_prompt \<Rightarrow> bool ava_result" where
  "path_matches h store rule prompt =
     (if pr_target_path rule = [] then Inr True
      else if pp_target_path prompt = [] then Inr False
      else
        case normalize_rule_target_path (rh_cwd h) store (pr_scope rule) (pp_target_path prompt) of
          Inl _ \<Rightarrow> Inr False
        | Inr target \<Rightarrow>
            if path_eq target (pr_target_path rule) then Inr True
            else if pr_action rule \<noteq> Deny then Inr False
            else paths_refer_to_same_file h target (pr_target_path rule))"

definition command_recipe_matches :: "persistent_permission_rule \<Rightarrow> permission_prompt \<Rightarrow> bool" where
  "command_recipe_matches rule prompt =
     (if pr_command_recipe_key rule = [] then True
      else
        case pp_command_metadata prompt of
          None \<Rightarrow> False
        | Some m \<Rightarrow>
            let key = (if pr_scope rule = GlobalRule then cm_global_recipe_key m else cm_workspace_recipe_key m) in
            key \<noteq> [] \<and> key = pr_command_recipe_key rule)"

definition rule_matches ::
  "rule_host \<Rightarrow> permission_rule_store \<Rightarrow> persistent_permission_rule \<Rightarrow> permission_prompt \<Rightarrow> bool ava_result" where
  "rule_matches h store rule prompt =
     (if pr_operation rule \<noteq> pp_operation prompt then Inr False
      else if \<not> mode_matches (pr_mode rule) (pp_mode prompt) then Inr False
      else if \<not> scope_matches (rh_cwd h) store rule prompt then Inr False
      else if pr_tool_name rule \<noteq> [] \<and> pr_tool_name rule \<noteq> pp_tool_name prompt then Inr False
      else if \<not> command_recipe_matches rule prompt then Inr False
      else
        let typed_command_recipe = (pr_operation rule = RunCommand \<and> pr_command_recipe_key rule \<noteq> []) in
        if \<not> typed_command_recipe \<and> pr_command rule \<noteq> [] \<and> pr_command rule \<noteq> pp_command prompt then Inr False
        else path_matches h store rule prompt)"

definition command_allow_is_authoritative :: "persistent_permission_rule \<Rightarrow> permission_prompt \<Rightarrow> bool" where
  "command_allow_is_authoritative rule prompt =
     (if pr_operation rule \<noteq> RunCommand \<or> pr_action rule \<noteq> Allow \<or>
         pr_schema_version rule \<noteq> kCurrentPermissionRulesSchemaVersion \<or> pp_command_metadata prompt = None then False
      else if pr_command_recipe_key rule \<noteq> [] then
        command_prompt_allows_persistent_allow (pp_command_metadata prompt) \<and> command_recipe_matches rule prompt
      else False)"

definition workspace_rule :: "persistent_permission_rule \<Rightarrow> bool" where
  "workspace_rule rule \<longleftrightarrow> pr_scope rule = WorkspaceRule"

definition rule_specificity :: "persistent_permission_rule \<Rightarrow> nat" where
  "rule_specificity rule =
     (if pr_target_path rule \<noteq> [] then 1 else 0) + (if pr_command rule \<noteq> [] then 1 else 0) +
     (if pr_command_recipe_key rule \<noteq> [] then 1 else 0) + (if pr_tool_name rule \<noteq> [] then 1 else 0) +
     (if pr_mode rule \<noteq> AnyMode then 1 else 0)"

definition prefer_more_specific ::
  "persistent_permission_rule \<Rightarrow> persistent_permission_rule \<Rightarrow> persistent_permission_rule" where
  "prefer_more_specific current candidate =
     (if \<not> workspace_rule current \<and> workspace_rule candidate then candidate
      else if workspace_rule current = workspace_rule candidate \<and> rule_specificity candidate > rule_specificity current then candidate
      else current)"

text \<open>The loop over the rules carries the deny and the allow preferred so far and the first error.\<close>

record match_state =
  ms_deny :: "persistent_permission_rule option"
  ms_allow :: "persistent_permission_rule option"
  ms_error :: "ava_error option"

definition match_step ::
  "rule_host \<Rightarrow> permission_rule_store \<Rightarrow> permission_prompt \<Rightarrow> match_state \<Rightarrow> persistent_permission_rule \<Rightarrow> match_state" where
  "match_step h store prompt s rule =
     (let prefer = (\<lambda>best. case best of None \<Rightarrow> Some rule | Some r \<Rightarrow> Some (prefer_more_specific r rule)) in
      case rule_matches h store rule prompt of
        Inl e \<Rightarrow> if ms_error s = None then s\<lparr>ms_error := Some e\<rparr> else s
      | Inr False \<Rightarrow> s
      | Inr True \<Rightarrow>
          if pr_action rule = Deny then s\<lparr>ms_deny := prefer (ms_deny s)\<rparr>
          else if pr_operation rule = RunCommand \<and> \<not> command_allow_is_authoritative rule prompt then s
          else s\<lparr>ms_allow := prefer (ms_allow s)\<rparr>)"

definition match_persistent_permission_rule ::
  "rule_host \<Rightarrow> permission_rule_store \<Rightarrow> persistent_permission_rule list ava_result \<Rightarrow> permission_prompt
    \<Rightarrow> persistent_permission_rule option ava_result" where
  "match_persistent_permission_rule h store loaded prompt =
     (case loaded of
        Inl e \<Rightarrow> Inl e
      | Inr rules \<Rightarrow>
          let s = foldl (match_step h store prompt) \<lparr>ms_deny = None, ms_allow = None, ms_error = None\<rparr> rules in
          if ms_deny s \<noteq> None then Inr (ms_deny s)
          else case ms_error s of
            Some e \<Rightarrow> Inl e
          | None \<Rightarrow> if ms_allow s \<noteq> None then Inr (ms_allow s) else Inr None)"

section \<open>Resolver and preflight\<close>

type_synonym rule_resolver =
  "rule_host \<Rightarrow> persistent_permission_rule list ava_result \<Rightarrow> permission_prompt \<Rightarrow> permission_resolution_decision ava_result"

text \<open>
  Building a resolver registers the rule files as protected; the resolver runs later, on the host
  and the stored rules of that moment.
\<close>

definition build_persistent_permission_rule_resolver ::
  "string \<Rightarrow> string list \<Rightarrow> permission_rule_store \<Rightarrow> (permission_prompt \<Rightarrow> permission_resolution_decision ava_result) option
    \<Rightarrow> string list \<times> rule_resolver" where
  "build_persistent_permission_rule_resolver cwd paths store fallback =
     (register_enforceable_permission_rule_files cwd store paths,
      \<lambda>h loaded prompt.
        case match_persistent_permission_rule h store loaded prompt of
          Inl e \<Rightarrow> Inr ((resolution_decision ResolveDeny (format_error e))
                   \<lparr>rd_resolution_source := ''persistent_rule_error'', rd_authoritative := True\<rparr>)
        | Inr (Some rule) \<Rightarrow>
            Inr ((resolution_decision (if pr_action rule = Allow then ResolveAllow else ResolveDeny) (pr_reason rule))
              \<lparr>rd_resolution_source := ''persistent_rule'', rd_rule_id := pr_rule_id rule, rd_authoritative := True\<rparr>)
        | Inr None \<Rightarrow>
            (case fallback of
               Some resolver \<Rightarrow> resolver prompt
             | None \<Rightarrow> Inr (resolution_decision ResolveDeny [])))"

definition build_persistent_permission_deny_preflight ::
  "string \<Rightarrow> string list \<Rightarrow> permission_rule_store \<Rightarrow> string list \<times> rule_resolver" where
  "build_persistent_permission_deny_preflight cwd paths store =
     (register_enforceable_permission_rule_files cwd store paths,
      \<lambda>h loaded prompt.
        case match_persistent_permission_rule h store loaded prompt of
          Inl e \<Rightarrow> Inr ((resolution_decision ResolveDeny (format_error e))
                   \<lparr>rd_resolution_source := ''persistent_rule_error'', rd_authoritative := True\<rparr>)
        | Inr matched \<Rightarrow>
            (case matched of
               Some rule \<Rightarrow>
                 if pr_action rule = Deny then
                   Inr ((resolution_decision ResolveDeny (pr_reason rule))
                     \<lparr>rd_resolution_source := ''persistent_rule'', rd_rule_id := pr_rule_id rule, rd_authoritative := True\<rparr>)
                 else
                   Inr ((resolution_decision ResolveAllow ''no persistent deny matched'')
                     \<lparr>rd_resolution_source := ''persistent_deny_preflight'', rd_authoritative := True\<rparr>)
             | None \<Rightarrow>
                 Inr ((resolution_decision ResolveAllow ''no persistent deny matched'')
                   \<lparr>rd_resolution_source := ''persistent_deny_preflight'', rd_authoritative := True\<rparr>)))"


end
