(* ===== verification/Rules_Safety.thy ===== *)
theory Rules_Safety
  imports Permission_Rules
begin

text \<open>
  What the stored permission rules guarantee: which rule is chosen, that a stored deny reaches every name of
  its file, what a stored approval of a command covers, what a rule made from a draft is, and that
  the rule files are protected.
\<close>

section \<open>Normalized paths\<close>

lemma strip_separators_id: "\<not> trailing_separator p \<Longrightarrow> strip_separators p = p"
  using separator_at_end by (subst strip_separators.simps) auto

lemma strip_separators_parent: "trailing_separator p \<Longrightarrow> strip_separators p = parent_path p"
proof -
  assume t: "trailing_separator p"
  then have "path_filename p = []" by (auto simp: trailing_separator_def path_filename_empty)
  moreover have "\<not> path_eq p (root_path p)"
    using t by (auto simp: path_eq_def path_parts_def root_path_def is_absolute_def trailing_separator_def)
  ultimately have "strip_separators p = strip_separators (parent_path p)" by (subst strip_separators.simps) simp
  then show ?thesis using strip_separators_id parent_path_trailing [OF t] by simp
qed

definition exact_path :: "string \<Rightarrow> bool" where
  "exact_path p \<longleftrightarrow> normal_absolute p \<and> \<not> trailing_separator p"

lemma strip_separators_exact:
  assumes "normal_absolute p"
  shows "exact_path (strip_separators p) \<and> path_names (strip_separators p) = path_names p"
proof (cases "trailing_separator p")
  case True
  note n = normal_absolute_names [OF assms]
  have "path_names p \<noteq> []" using True by (simp add: trailing_separator_def)
  then have q: "strip_separators p = render_path True (path_names p) False"
    using True n(1) by (simp add: strip_separators_parent parent_path_def)
  have "normal_absolute (render_path True (path_names p) False)" using n(2) by (auto simp: normal_absolute_def)
  with q show ?thesis using dot_free_good [OF n(2)] \<open>path_names p \<noteq> []\<close> by (simp add: exact_path_def)
next
  case False
  with assms show ?thesis by (simp add: strip_separators_id exact_path_def)
qed

lemma normalized_path_exact: "is_absolute cwd \<or> is_absolute p \<Longrightarrow> exact_path (normalized_path cwd p)"
proof -
  assume "is_absolute cwd \<or> is_absolute p"
  then have "normal_absolute (normalized_absolute_path cwd p)"
    using normalized_absolute_normal [of cwd p] lexically_normal_normal [of p] by (auto simp: normalized_absolute_path_def)
  then show ?thesis using strip_separators_exact by (simp add: normalized_path_def)
qed

lemma normalized_path_id: "exact_path p \<Longrightarrow> normalized_path cwd p = p"
  by (simp add: exact_path_def normalized_path_def normalized_absolute_path_def normal_absolute_names(1) lexically_normal_idem
      strip_separators_id)

lemma exact_path_eq:
  assumes "exact_path p" "exact_path q"
  shows "path_eq p q \<longleftrightarrow> p = q"
proof
  assume "path_eq p q"
  then have names: "path_names p = path_names q" using assms by (simp add: exact_path_def path_eq_def normal_absolute_parts)
  have "p = render_path True (path_names p) False" using assms(1) normal_absolute_names(3) [of p] by (simp add: exact_path_def)
  also have "\<dots> = q" using names assms(2) normal_absolute_names(3) [of q] by (simp add: exact_path_def)
  finally show "p = q" .
qed simp

section \<open>The preferred rule\<close>

text \<open>Rules of the workspace come before global ones, then the number of fields a rule fixes counts.\<close>

definition rule_rank :: "persistent_permission_rule \<Rightarrow> nat" where
  "rule_rank r = (if workspace_rule r then 6 else 0) + rule_specificity r"

lemma rule_specificity_bound: "rule_specificity r \<le> 5"
  by (simp add: rule_specificity_def)

lemma prefer_more_specific_rank: "prefer_more_specific c r = (if rule_rank r > rule_rank c then r else c)"
  using rule_specificity_bound [of c] rule_specificity_bound [of r]
  by (auto simp: prefer_more_specific_def rule_rank_def)

text \<open>The first rule of a list that no other one outranks.\<close>

definition best_rule :: "persistent_permission_rule list \<Rightarrow> persistent_permission_rule option" where
  "best_rule rs = find (\<lambda>r. list_all (\<lambda>q. rule_rank q \<le> rule_rank r) rs) rs"

fun prefer_option :: "persistent_permission_rule option \<Rightarrow> persistent_permission_rule \<Rightarrow> persistent_permission_rule option" where
  "prefer_option None r = Some r"
| "prefer_option (Some c) r = Some (prefer_more_specific c r)"

lemma best_rule_None: "best_rule rs = None \<longleftrightarrow> rs = []"
proof
  assume none: "best_rule rs = None"
  show "rs = []"
  proof (rule ccontr)
    assume "rs \<noteq> []"
    then have "Max (rule_rank ` set rs) \<in> rule_rank ` set rs" by simp
    then obtain r where "r \<in> set rs" "rule_rank r = Max (rule_rank ` set rs)" by auto
    then have "r \<in> set rs \<and> list_all (\<lambda>q. rule_rank q \<le> rule_rank r) rs" by (simp add: list_all_iff)
    with none show False by (auto simp: best_rule_def find_None_iff)
  qed
qed (simp add: best_rule_def)

lemma best_ruleD:
  assumes "best_rule rs = Some r"
  shows "r \<in> set rs" "q \<in> set rs \<Longrightarrow> rule_rank q \<le> rule_rank r"
  using assms by (auto simp: best_rule_def find_Some_iff list_all_iff)

lemma find_snoc: "find P (xs @ [x]) = (case find P xs of Some y \<Rightarrow> Some y | None \<Rightarrow> if P x then Some x else None)"
  by (induction xs) auto

lemma find_cong_set: "(\<And>x. x \<in> set xs \<Longrightarrow> P x = Q x) \<Longrightarrow> find P xs = find Q xs"
  by (induction xs) auto

lemma best_rule_snoc: "best_rule (rs @ [r]) = prefer_option (best_rule rs) r"
proof (cases "best_rule rs")
  case None
  then show ?thesis by (simp add: best_rule_None) (simp add: best_rule_def)
next
  case (Some c)
  note best = best_ruleD [OF Some]
  show ?thesis
  proof (cases "rule_rank r > rule_rank c")
    case True
    then have "\<not> rule_rank r \<le> rule_rank q" if "q \<in> set rs" for q using best(2) [OF that] by simp
    then have "find (\<lambda>x. list_all (\<lambda>q. rule_rank q \<le> rule_rank x) (rs @ [r])) rs = None"
      by (auto simp: find_None_iff)
    moreover have "list_all (\<lambda>q. rule_rank q \<le> rule_rank r) (rs @ [r])"
      using True best(2) by (fastforce simp: list_all_iff)
    ultimately show ?thesis using True Some by (simp add: best_rule_def find_snoc prefer_more_specific_rank)
  next
    case False
    have "find (\<lambda>x. list_all (\<lambda>q. rule_rank q \<le> rule_rank x) (rs @ [r])) rs = find (\<lambda>x. list_all (\<lambda>q. rule_rank q \<le> rule_rank x) rs) rs"
      by (rule find_cong_set) (use False best(1) in \<open>force simp: list_all_iff\<close>)
    also have "\<dots> = Some c" using Some by (simp add: best_rule_def)
    finally have "find (\<lambda>x. list_all (\<lambda>q. rule_rank q \<le> rule_rank x) (rs @ [r])) rs = Some c" .
    then show ?thesis using False Some by (simp add: best_rule_def find_snoc prefer_more_specific_rank)
  qed
qed

section \<open>Matching as a choice among the matching rules\<close>

definition matching_denies ::
  "rule_host \<Rightarrow> permission_rule_store \<Rightarrow> permission_prompt \<Rightarrow> persistent_permission_rule list \<Rightarrow> persistent_permission_rule list" where
  "matching_denies h store prompt = filter (\<lambda>r. rule_matches h store r prompt = Inr True \<and> pr_action r = Deny)"

definition matching_allows ::
  "rule_host \<Rightarrow> permission_rule_store \<Rightarrow> permission_prompt \<Rightarrow> persistent_permission_rule list \<Rightarrow> persistent_permission_rule list" where
  "matching_allows h store prompt =
     filter (\<lambda>r. rule_matches h store r prompt = Inr True \<and> pr_action r \<noteq> Deny \<and>
       (pr_operation r = RunCommand \<longrightarrow> command_allow_is_authoritative r prompt))"

definition match_errors ::
  "rule_host \<Rightarrow> permission_rule_store \<Rightarrow> permission_prompt \<Rightarrow> persistent_permission_rule list \<Rightarrow> ava_error list" where
  "match_errors h store prompt rules =
     concat (map (\<lambda>r. case rule_matches h store r prompt of Inl e \<Rightarrow> [e] | Inr _ \<Rightarrow> []) rules)"

definition first_error :: "ava_error list \<Rightarrow> ava_error option" where
  "first_error es = (case es of [] \<Rightarrow> None | e # _ \<Rightarrow> Some e)"

lemma match_snoc:
  "matching_denies h store prompt (rules @ [r]) =
     matching_denies h store prompt rules @ (if rule_matches h store r prompt = Inr True \<and> pr_action r = Deny then [r] else [])"
  "matching_allows h store prompt (rules @ [r]) =
     matching_allows h store prompt rules @ (if rule_matches h store r prompt = Inr True \<and> pr_action r \<noteq> Deny \<and>
       (pr_operation r = RunCommand \<longrightarrow> command_allow_is_authoritative r prompt) then [r] else [])"
  "match_errors h store prompt (rules @ [r]) =
     match_errors h store prompt rules @ (case rule_matches h store r prompt of Inl e \<Rightarrow> [e] | Inr _ \<Rightarrow> [])"
  by (simp_all add: matching_denies_def matching_allows_def match_errors_def)

lemma first_error_snoc: "first_error (es @ [e]) = (if first_error es = None then Some e else first_error es)"
  by (simp add: first_error_def split: list.split)

lemma match_loop:
  "foldl (match_step h store prompt) \<lparr>ms_deny = None, ms_allow = None, ms_error = None\<rparr> rules =
     \<lparr>ms_deny = best_rule (matching_denies h store prompt rules), ms_allow = best_rule (matching_allows h store prompt rules),
      ms_error = first_error (match_errors h store prompt rules)\<rparr>"
proof (induction rules rule: rev_induct)
  case Nil
  show ?case by (simp add: matching_denies_def matching_allows_def match_errors_def best_rule_def first_error_def)
next
  case (snoc r rules)
  have choice: "(case best of None \<Rightarrow> Some r | Some c \<Rightarrow> Some (prefer_more_specific c r)) = prefer_option best r" for best
    by (cases best) simp_all
  have "match_step h store prompt \<lparr>ms_deny = best_rule (matching_denies h store prompt rules),
      ms_allow = best_rule (matching_allows h store prompt rules), ms_error = first_error (match_errors h store prompt rules)\<rparr> r =
    \<lparr>ms_deny = best_rule (matching_denies h store prompt (rules @ [r])), ms_allow = best_rule (matching_allows h store prompt (rules @ [r])),
      ms_error = first_error (match_errors h store prompt (rules @ [r]))\<rparr>"
    by (auto simp: match_step_def match_snoc best_rule_snoc first_error_snoc choice Let_def split: sum.split bool.split)
  then show ?case by (simp add: snoc.IH)
qed

lemma match_choice:
  "match_persistent_permission_rule h store (Inr rules) prompt =
     (case best_rule (matching_denies h store prompt rules) of
        Some r \<Rightarrow> Inr (Some r)
      | None \<Rightarrow>
          (case first_error (match_errors h store prompt rules) of
             Some e \<Rightarrow> Inl e
           | None \<Rightarrow> Inr (best_rule (matching_allows h store prompt rules))))"
  by (simp add: match_persistent_permission_rule_def match_loop Let_def split: option.split)

text \<open>
  C20: matching is a choice by rank. Among the stored denies that match a request the one of the highest
  rank is returned, the first of them if several have it; rules of the workspace outrank global
  ones, then more fixed fields outrank fewer. Only without a matching deny does anything else
  count: the first failed identity check is reported, and only without one is the highest
  matching allow returned, where a command allow counts only with a recipe key that carries authority.
\<close>

theorem match_is_highest_ranked:
  "match_persistent_permission_rule h store (Inr rules) prompt =
     (case best_rule (matching_denies h store prompt rules) of
        Some r \<Rightarrow> Inr (Some r)
      | None \<Rightarrow>
          (case match_errors h store prompt rules of
             e # _ \<Rightarrow> Inl e
           | [] \<Rightarrow> Inr (best_rule (matching_allows h store prompt rules))))"
  by (simp add: match_choice first_error_def split: option.split list.split)

section \<open>Stored denies\<close>

definition denies :: "permission_resolution_decision ava_result \<Rightarrow> bool" where
  "denies result \<longleftrightarrow> (case result of Inl _ \<Rightarrow> False | Inr d \<Rightarrow> rd_resolution d = ResolveDeny \<and> rd_authoritative d)"

text \<open>The contract of a gate in front of a request: a matching deny and a failed lookup both close it.\<close>

locale deny_gate =
  fixes gate :: rule_resolver and store :: permission_rule_store
  assumes closed_on_error: "match_persistent_permission_rule h store loaded prompt = Inl e \<Longrightarrow> denies (gate h loaded prompt)"
    and closed_on_deny: "match_persistent_permission_rule h store loaded prompt = Inr (Some r) \<Longrightarrow> pr_action r = Deny \<Longrightarrow>
      denies (gate h loaded prompt)"
begin

lemma unreadable_closes: "denies (gate h (Inl e) prompt)"
  by (rule closed_on_error [where e = e]) (simp add: match_persistent_permission_rule_def)

lemma deny_closes:
  assumes "r \<in> set rules" "pr_action r = Deny" "rule_matches h store r prompt \<noteq> Inr False"
  shows "denies (gate h (Inr rules) prompt)"
proof (cases "best_rule (matching_denies h store prompt rules)")
  case (Some d)
  then have "pr_action d = Deny" using best_ruleD(1) by (fastforce simp: matching_denies_def)
  with Some show ?thesis by (intro closed_on_deny [of h _ prompt d]) (simp_all add: match_choice)
next
  case None
  then have "matching_denies h store prompt rules = []" by (simp add: best_rule_None)
  then have "rule_matches h store r prompt \<noteq> Inr True" using assms(1,2) by (auto simp: matching_denies_def filter_empty_conv)
  then obtain e where "rule_matches h store r prompt = Inl e"
    using assms(3) by (cases "rule_matches h store r prompt") auto
  then have "match_errors h store prompt rules \<noteq> []" using assms(1) by (force simp: match_errors_def)
  then obtain e' where "first_error (match_errors h store prompt rules) = Some e'"
    by (auto simp: first_error_def neq_Nil_conv)
  with None show ?thesis by (intro closed_on_error [of h _ prompt e']) (simp add: match_choice)
qed

end

interpretation resolver_gate: deny_gate "snd (build_persistent_permission_rule_resolver cwd paths store fallback)" store
  for cwd paths store fallback
  by unfold_locales (simp_all add: denies_def build_persistent_permission_rule_resolver_def resolution_decision_def)

interpretation preflight_gate: deny_gate "snd (build_persistent_permission_deny_preflight cwd paths store)" store
  for cwd paths store
  by unfold_locales (simp_all add: denies_def build_persistent_permission_deny_preflight_def resolution_decision_def)

lemma identity_walk_found: "rh_stat h path = Inr identity \<Longrightarrow> identity_walk h original (Suc n) path missing = Inr (identity, missing)"
  by simp

lemma path_identity_found:
  assumes "exact_path p" "rh_stat h p = Inr identity"
  shows "path_identity h p = Inr (identity, [])"
proof -
  have "p \<noteq> []" using assms(1) normal_absolute_names(1) [of p] by (auto simp: exact_path_def is_absolute_def)
  then show ?thesis
    using assms(1) identity_walk_found [OF assms(2), of p 255 "[]"] by (simp add: path_identity_def normalized_path_id)
qed

lemma deny_covers:
  assumes "pr_action r = Deny" "exact_path (pr_target_path r)" "is_absolute (pp_target_path prompt)"
    "target = normalized_path (rh_cwd h) (pp_target_path prompt)"
    "target = pr_target_path r \<or> rh_stat h target = Inr identity \<and> rh_stat h (pr_target_path r) = Inr identity"
  shows "path_matches h store r prompt = Inr True"
proof -
  have "pp_target_path prompt \<noteq> []" using assms(3) by (auto simp: is_absolute_def)
  then have n: "normalize_rule_target_path (rh_cwd h) store (pr_scope r) (pp_target_path prompt) = Inr target"
    using assms(3,4) by (simp add: normalize_rule_target_path_def)
  have e: "exact_path target" using assms(3,4) normalized_path_exact by blast
  have "pr_target_path r \<noteq> []" using assms(2) normal_absolute_names(1) [of "pr_target_path r"] by (auto simp: exact_path_def is_absolute_def)
  moreover have "paths_refer_to_same_file h target (pr_target_path r) = Inr True" if "target \<noteq> pr_target_path r"
    using that assms(2,5) path_identity_found [OF e] path_identity_found [OF assms(2)] by (simp add: paths_refer_to_same_file_def)
  ultimately show ?thesis
    using \<open>pp_target_path prompt \<noteq> []\<close> n assms(1) by (cases "target = pr_target_path r") (simp_all add: path_matches_def)
qed

text \<open>
  C9: a stored deny of a file is enforced. When a stored deny names the operation, and its mode, scope,
  tool and command fit, then a request whose target is spelled differently, or is another name
  of the same file on disk, is denied with authority, by the resolver whatever its fallback and by the
  preflight of requests that need no question. Both also deny when the stored rules cannot be read.
\<close>

theorem stored_deny_enforced:
  assumes "r \<in> set rules" "pr_action r = Deny" "pr_operation r = pp_operation prompt" "mode_matches (pr_mode r) (pp_mode prompt)"
    "scope_matches (rh_cwd h) store r prompt" "pr_tool_name r \<in> {[], pp_tool_name prompt}"
    "pr_command r \<in> {[], pp_command prompt}" "pr_command_recipe_key r = []"
    "exact_path (pr_target_path r)" "is_absolute (pp_target_path prompt)" "target = normalized_path (rh_cwd h) (pp_target_path prompt)"
    "target = pr_target_path r \<or> rh_stat h target = Inr identity \<and> rh_stat h (pr_target_path r) = Inr identity"
  shows "denies (snd (build_persistent_permission_rule_resolver cwd paths store fallback) h (Inr rules) prompt) \<and>
    denies (snd (build_persistent_permission_deny_preflight cwd paths store) h (Inr rules) prompt) \<and>
    denies (snd (build_persistent_permission_rule_resolver cwd paths store fallback) h (Inl e) prompt) \<and>
    denies (snd (build_persistent_permission_deny_preflight cwd paths store) h (Inl e) prompt)"
proof -
  have "rule_matches h store r prompt = Inr True"
    using assms(3-8) deny_covers [OF assms(2,9-12)] by (auto simp: rule_matches_def command_recipe_matches_def)
  then have "rule_matches h store r prompt \<noteq> Inr False" by simp
  then show ?thesis
    by (intro conjI resolver_gate.deny_closes [OF assms(1,2)] preflight_gate.deny_closes [OF assms(1,2)]
        resolver_gate.unreadable_closes preflight_gate.unreadable_closes)
qed

section \<open>Stored command approvals\<close>

lemma match_allowD:
  assumes "match_persistent_permission_rule h store (Inr rules) prompt = Inr (Some r)" "pr_action r \<noteq> Deny"
  shows "r \<in> set (matching_allows h store prompt rules)" "s \<in> set rules \<Longrightarrow> pr_action s = Deny \<Longrightarrow> rule_matches h store s prompt = Inr False"
proof -
  have "best_rule (matching_denies h store prompt rules) \<noteq> Some q" for q
  proof
    assume q: "best_rule (matching_denies h store prompt rules) = Some q"
    then have "pr_action q = Deny" using best_ruleD(1) by (fastforce simp: matching_denies_def)
    with q assms show False by (simp add: match_choice)
  qed
  then have none: "best_rule (matching_denies h store prompt rules) = None" by (cases "best_rule (matching_denies h store prompt rules)") auto
  then have error: "first_error (match_errors h store prompt rules) = None"
    and best: "best_rule (matching_allows h store prompt rules) = Some r"
    using assms(1) by (auto simp: match_choice split: option.splits)
  from best show "r \<in> set (matching_allows h store prompt rules)" by (rule best_ruleD)
  assume s: "s \<in> set rules" "pr_action s = Deny"
  have "rule_matches h store s prompt \<noteq> Inr True"
    using none s by (auto simp: best_rule_None matching_denies_def filter_empty_conv)
  moreover have "match_errors h store prompt rules = []" using error by (simp add: first_error_def split: list.splits)
  then have "rule_matches h store s prompt \<noteq> Inl e" for e using s(1) by (force simp: match_errors_def)
  ultimately show "rule_matches h store s prompt = Inr False" by (cases "rule_matches h store s prompt") auto
qed

lemma resolver_allowD:
  assumes "snd (build_persistent_permission_rule_resolver cwd paths store None) h (Inr rules) prompt = Inr d" "rd_resolution d = ResolveAllow"
  obtains r where "match_persistent_permission_rule h store (Inr rules) prompt = Inr (Some r)" "pr_action r = Allow" "rd_rule_id d = pr_rule_id r"
  using assms
  by (cases "match_persistent_permission_rule h store (Inr rules) prompt")
    (auto simp: build_persistent_permission_rule_resolver_def resolution_decision_def split: option.splits if_splits)

text \<open>What a plan's recipe key is computed from, for the two scopes of a rule.\<close>

definition recipe_key :: "permission_rule_scope \<Rightarrow> command_permission_metadata \<Rightarrow> string" where
  "recipe_key scope m = (if scope = GlobalRule then cm_global_recipe_key m else cm_workspace_recipe_key m)"

definition recipe_arguments :: "command_plan \<Rightarrow> string list \<Rightarrow> recipe_argument list" where
  "recipe_arguments p argv = map (\<lambda>v. make_recipe_argument v (cp_workspace p)) argv"

definition recipe_payload :: "permission_rule_scope \<Rightarrow> command_plan \<Rightarrow> containment_info \<Rightarrow> string" where
  "recipe_payload scope p ci =
     (case recipe_source p of
        None \<Rightarrow> []
      | Some (name, argv, e) \<Rightarrow> append_payload p ci name e (recipe_arguments p argv) (scope = WorkspaceRule))"

definition same_recipe :: "permission_rule_scope \<Rightarrow> command_plan \<Rightarrow> containment_info \<Rightarrow> command_plan \<Rightarrow> containment_info \<Rightarrow> bool" where
  "same_recipe scope p ci q cj \<longleftrightarrow>
     map_option (\<lambda>(name, argv, e). recipe_content p ci name e (recipe_arguments p argv)) (recipe_source p) =
     map_option (\<lambda>(name, argv, e). recipe_content q cj name e (recipe_arguments q argv)) (recipe_source q) \<and>
     (scope = WorkspaceRule \<longrightarrow> workspace_field p = workspace_field q)"

lemma recipe_key_identity:
  assumes "recipe_key scope (command_permission_metadata p ci u) \<noteq> []"
  obtains identity where "make_stable_recipe_identity p ci = Some identity"
    "recipe_key scope (command_permission_metadata p ci u) = (if scope = GlobalRule then sr_global_key identity else sr_workspace_key identity)"
  using assms
  by (auto simp: recipe_key_def command_permission_metadata_def Let_def mint_recipe_keys_def downgrade_unverified_def downgrade_uncontained_def
      initial_metadata_def split: if_splits option.splits)

lemma recipe_key_same:
  assumes key: "recipe_key scope (command_permission_metadata p ci u) = recipe_key scope (command_permission_metadata q cj v)"
      "recipe_key scope (command_permission_metadata p ci u) \<noteq> []"
    and short: "length (recipe_payload WorkspaceRule p ci) < 2 ^ 64"
  shows "same_recipe scope p ci q cj \<or>
    recipe_payload scope p ci \<noteq> recipe_payload scope q cj \<and> sha256_hex (recipe_payload scope p ci) = sha256_hex (recipe_payload scope q cj)"
proof -
  obtain a where a: "make_stable_recipe_identity p ci = Some a"
      "recipe_key scope (command_permission_metadata p ci u) = (if scope = GlobalRule then sr_global_key a else sr_workspace_key a)"
    using key(2) by (rule recipe_key_identity)
  obtain b where b: "make_stable_recipe_identity q cj = Some b"
      "recipe_key scope (command_permission_metadata q cj v) = (if scope = GlobalRule then sr_global_key b else sr_workspace_key b)"
    using key by (auto elim: recipe_key_identity)
  obtain name argv e where p: "recipe_source p = Some (name, argv, e)" using a(1) by (rule identity_source)
  obtain name' argv' e' where q: "recipe_source q = Some (name', argv', e')" using b(1) by (rule identity_source)
  have "length (append_payload p ci name e (recipe_arguments p argv) True) < 2 ^ 64" using short p by (simp add: recipe_payload_def)
  note bound = recipe_keys_bound [OF p a(1) q b(1) recipe_arguments_def recipe_arguments_def this]
  show ?thesis
  proof (cases scope)
    case GlobalRule
    then show ?thesis using bound key(1) a(2) b(2) by (simp add: same_recipe_def recipe_payload_def p q)
  next
    case WorkspaceRule
    then show ?thesis using bound key(1) a(2) b(2) by (simp add: same_recipe_def recipe_payload_def p q)
  qed
qed

text \<open>
  C8: what a stored command approval allows. When the resolver allows a command without asking anyone,
  a stored allow is responsible, no stored deny applies to the command, and the command is direct,
  not critical, started by a verified executor and contained where that is called for. The
  approval covers no other recipe: a plan whose recipe key is the stored one, in particular the one the
  approval was given for, has the recipe of the command that runs, and for a rule of the workspace its
  workspace, or the payloads of the two keys are a collision of SHA-256.
\<close>

theorem stored_command_grant:
  assumes "snd (build_persistent_permission_rule_resolver cwd paths store None) h (Inr rules) prompt = Inr d" "rd_resolution d = ResolveAllow"
    "pp_operation prompt = RunCommand" "pp_command_metadata prompt = Some (command_permission_metadata q cj unverified)"
  shows "\<exists>r \<in> set rules. rd_rule_id d = pr_rule_id r \<and> pr_action r = Allow \<and>
    (\<forall>s \<in> set rules. pr_action s = Deny \<longrightarrow> rule_matches h store s prompt = Inr False) \<and>
    \<not> unverified \<and> cp_execution_domain q = DirectArgv \<and> cc_level (cp_classification q) \<noteq> Critical \<and>
    (containment_needed q \<longrightarrow> ci_available cj) \<and>
    (\<forall>p ci u. pr_command_recipe_key r = recipe_key (pr_scope r) (command_permission_metadata p ci u) \<and>
        length (recipe_payload WorkspaceRule p ci) < 2 ^ 64 \<longrightarrow>
      same_recipe (pr_scope r) p ci q cj \<or>
      recipe_payload (pr_scope r) p ci \<noteq> recipe_payload (pr_scope r) q cj \<and>
      sha256_hex (recipe_payload (pr_scope r) p ci) = sha256_hex (recipe_payload (pr_scope r) q cj))"
proof -
  obtain r where r: "match_persistent_permission_rule h store (Inr rules) prompt = Inr (Some r)" "pr_action r = Allow" "rd_rule_id d = pr_rule_id r"
    using assms(1,2) by (rule resolver_allowD)
  then have "pr_action r \<noteq> Deny" by simp
  note m = match_allowD [OF r(1) this]
  have op: "r \<in> set rules" "pr_operation r = RunCommand" "command_allow_is_authoritative r prompt"
    using m(1) assms(3) by (auto simp: matching_allows_def rule_matches_def split: if_splits)
  let ?m = "command_permission_metadata q cj unverified"
  have grant: "command_permission_allows_reusable_grant ?m" and key: "recipe_key (pr_scope r) ?m = pr_command_recipe_key r" "pr_command_recipe_key r \<noteq> []"
    using op(3) assms(4)
    by (auto simp: command_allow_is_authoritative_def command_prompt_allows_persistent_allow_def command_recipe_matches_def recipe_key_def Let_def
        split: if_splits)
  have "same_recipe (pr_scope r) p ci q cj \<or>
      recipe_payload (pr_scope r) p ci \<noteq> recipe_payload (pr_scope r) q cj \<and>
      sha256_hex (recipe_payload (pr_scope r) p ci) = sha256_hex (recipe_payload (pr_scope r) q cj)"
    if "pr_command_recipe_key r = recipe_key (pr_scope r) (command_permission_metadata p ci u)"
      "length (recipe_payload WorkspaceRule p ci) < 2 ^ 64" for p ci u
    by (rule recipe_key_same [of _ _ _ u _ _ unverified]) (use that key in simp_all)
  then show ?thesis using reusable_grant_facts [OF grant] r m(2) op(1) by blast
qed

section \<open>Rules made from drafts\<close>

lemma validate_rule_ok:
  assumes "validate_rule r path index = Inr ()"
  shows "pr_action r \<noteq> Ask"
    "pr_operation r = RunCommand \<Longrightarrow> pr_action r = Allow \<Longrightarrow> pr_schema_version r = 2 \<Longrightarrow> \<not> pr_critical_acknowledged r \<Longrightarrow>
      valid_recipe_key (pr_command_recipe_key r) (pr_scope r)"
  using assms by (simp_all add: validate_rule_def Let_def split: if_split_asm)

lemma rule_from_draft_cases:
  assumes "rule_from_draft cwd draw now store draft = Inr r"
  shows "normalize_rule_target_path cwd store (dr_scope draft) (dr_target_path draft) = Inr (pr_target_path r)"
    "validate_rule r (enforceable_permission_rules_file cwd store (pr_scope r)) None = Inr ()"
    "\<not> (pr_operation r = RunCommand \<and> pr_action r = Allow \<and> pr_critical_acknowledged r)" "pr_schema_version r = 2"
    "pr_scope r = dr_scope draft" "pr_operation r = dr_operation draft" "pr_mode r = dr_mode draft" "pr_tool_name r = dr_tool_name draft"
    "pr_command r = dr_command draft" "pr_command_recipe_key r = dr_command_recipe_key draft"
    "pr_scope r = WorkspaceRule \<Longrightarrow> pr_workspace_dir r = normalized_path cwd (prs_workspace_dir store)"
proof -
  have fields: "dr_scope (normalize_draft_defaults draft) = dr_scope draft" "dr_target_path (normalize_draft_defaults draft) = dr_target_path draft"
    "dr_operation (normalize_draft_defaults draft) = dr_operation draft" "dr_mode (normalize_draft_defaults draft) = dr_mode draft"
    "dr_tool_name (normalize_draft_defaults draft) = dr_tool_name draft" "dr_command (normalize_draft_defaults draft) = dr_command draft"
    "dr_command_recipe_key (normalize_draft_defaults draft) = dr_command_recipe_key draft"
    by (simp_all add: normalize_draft_defaults_def)
  note made = assms [unfolded rule_from_draft_def Let_def fields]
  show "normalize_rule_target_path cwd store (dr_scope draft) (dr_target_path draft) = Inr (pr_target_path r)"
    "validate_rule r (enforceable_permission_rules_file cwd store (pr_scope r)) None = Inr ()"
    "\<not> (pr_operation r = RunCommand \<and> pr_action r = Allow \<and> pr_critical_acknowledged r)" "pr_schema_version r = 2"
    "pr_scope r = dr_scope draft" "pr_operation r = dr_operation draft" "pr_mode r = dr_mode draft" "pr_tool_name r = dr_tool_name draft"
    "pr_command r = dr_command draft" "pr_command_recipe_key r = dr_command_recipe_key draft"
    "pr_scope r = WorkspaceRule \<Longrightarrow> pr_workspace_dir r = normalized_path cwd (prs_workspace_dir store)"
    using made by (auto simp del: not_None_eq split: sum.splits if_split_asm)
qed

lemma draft_target:
  assumes "normalize_rule_target_path cwd store scope t = Inr target" "exact_path (prs_workspace_dir store)" "t \<noteq> []"
  shows "exact_path target" "\<not> is_absolute t \<Longrightarrow> scope = WorkspaceRule \<and> names_inside (prs_workspace_dir store) target"
proof -
  let ?w = "prs_workspace_dir store"
  have w: "normal_absolute ?w" "is_absolute ?w" using assms(2) normal_absolute_names(1) by (auto simp: exact_path_def)
  show "exact_path target"
    using assms(1,3) w(2) normalized_path_exact path_append_absolute
    by (auto simp: normalize_rule_target_path_def split: if_split_asm)
  assume relative: "\<not> is_absolute t"
  then have t: "scope = WorkspaceRule" "\<not> contains_parent_reference t" "target = normalized_path cwd (path_append ?w t)"
    using assms(1,3) by (auto simp: normalize_rule_target_path_def split: if_split_asm intro: permission_rule_scope.exhaust [of scope])
  have "names_inside ?w (normalized_absolute_path ?w t)"
    using relative_stays_inside [OF w(1) relative] t(2) by (simp add: contains_parent_reference_def list_ex_iff)
  moreover have "normalized_absolute_path cwd (path_append ?w t) = normalized_absolute_path ?w t"
    using relative path_append_absolute [OF w(2), of t] by (simp add: normalized_absolute_path_def)
  moreover have "normal_absolute (normalized_absolute_path ?w t)" by (rule normalized_absolute_normal [OF w(2)])
  ultimately show "scope = WorkspaceRule \<and> names_inside ?w target"
    using t(1,3) strip_separators_exact by (simp add: normalized_path_def names_inside_def)
qed

text \<open>
  C21: a rule that is made from a draft can be stored and does what the draft says. It passes the
  validation, is an allow or a deny, and a command allow among them is never one of a critical command and
  has a recipe key of its scope; its target is an absolute path in exact form, which for a relative draft
  lies in the workspace; and it matches every request with the operation, tool, command, target and
  recipe key of the draft in a fitting mode.
\<close>

theorem draft_rule_sound:
  assumes "rule_from_draft cwd draw now store draft = Inr r" "exact_path (prs_workspace_dir store)"
  shows "validate_rule r (enforceable_permission_rules_file cwd store (pr_scope r)) None = Inr () \<and> pr_action r \<noteq> Ask \<and>
    (pr_operation r = RunCommand \<and> pr_action r = Allow \<longrightarrow>
       \<not> pr_critical_acknowledged r \<and> valid_recipe_key (pr_command_recipe_key r) (pr_scope r)) \<and>
    (dr_target_path draft \<noteq> [] \<longrightarrow> exact_path (pr_target_path r)) \<and>
    (dr_target_path draft \<noteq> [] \<and> \<not> is_absolute (dr_target_path draft) \<longrightarrow>
       pr_scope r = WorkspaceRule \<and> names_inside (prs_workspace_dir store) (pr_target_path r)) \<and>
    (\<forall>h prompt. rh_cwd h = cwd \<and> pp_operation prompt = dr_operation draft \<and> mode_matches (dr_mode draft) (pp_mode prompt) \<and>
       pp_tool_name prompt = dr_tool_name draft \<and> pp_command prompt = dr_command draft \<and> pp_target_path prompt = dr_target_path draft \<and>
       pp_workspace_dir prompt = prs_workspace_dir store \<and>
       (dr_command_recipe_key draft = [] \<or>
        (\<exists>m. pp_command_metadata prompt = Some m \<and> recipe_key (dr_scope draft) m = dr_command_recipe_key draft)) \<longrightarrow>
     rule_matches h store r prompt = Inr True)"
proof -
  note r = rule_from_draft_cases [OF assms(1)]
  note valid = validate_rule_ok [OF r(2)]
  have empty: "pr_target_path r = []" if "dr_target_path draft = []" using r(1) that by (simp add: normalize_rule_target_path_def)
  have "rule_matches h store r prompt = Inr True"
    if p: "rh_cwd h = cwd" "pp_operation prompt = dr_operation draft" "mode_matches (dr_mode draft) (pp_mode prompt)"
      "pp_tool_name prompt = dr_tool_name draft" "pp_command prompt = dr_command draft" "pp_target_path prompt = dr_target_path draft"
      "pp_workspace_dir prompt = prs_workspace_dir store"
      "dr_command_recipe_key draft = [] \<or> (\<exists>m. pp_command_metadata prompt = Some m \<and> recipe_key (dr_scope draft) m = dr_command_recipe_key draft)"
    for h prompt
  proof -
    have "scope_matches cwd store r prompt" using p(7) r(11) by (cases "pr_scope r") (simp_all add: scope_matches_def)
    moreover have "command_recipe_matches r prompt"
      using p(8) r(5,10) by (auto simp: command_recipe_matches_def recipe_key_def)
    moreover have "path_matches h store r prompt = Inr True"
      using p(1,6) r(1,5) empty by (cases "dr_target_path draft = []") (simp_all add: path_matches_def)
    ultimately show ?thesis using p r(6-9) by (simp add: rule_matches_def)
  qed
  then show ?thesis
    using r(2-5) valid draft_target [OF r(1) assms(2)] by simp
qed

section \<open>Protected rule files\<close>

lemma same_file_normalized: "is_absolute (rh_cwd h) \<Longrightarrow> f \<noteq> [] \<Longrightarrow> paths_refer_to_same_file h p (normalized_path (rh_cwd h) f) = paths_refer_to_same_file h p f"
proof -
  assume "is_absolute (rh_cwd h)" "f \<noteq> []"
  then have e: "exact_path (normalized_path (rh_cwd h) f)" by (simp add: normalized_path_exact)
  then have "normalized_path (rh_cwd h) f \<noteq> []" using normal_absolute_names(1) by (fastforce simp: exact_path_def is_absolute_def)
  then have "path_identity h (normalized_path (rh_cwd h) f) = path_identity h f"
    using e \<open>f \<noteq> []\<close> by (simp add: path_identity_def normalized_path_id)
  then show ?thesis by (cases "path_identity h p") (simp_all add: paths_refer_to_same_file_def)
qed

lemma append_protected_member:
  assumes "is_absolute cwd" "\<forall>q \<in> set paths. exact_path q"
  shows "\<forall>q \<in> set (append_protected_rule_path cwd paths f). exact_path q"
    "f \<noteq> [] \<Longrightarrow> normalized_path cwd f \<in> set (append_protected_rule_path cwd paths f)"
    "set paths \<subseteq> set (append_protected_rule_path cwd paths f)"
proof -
  have e: "exact_path (normalized_path cwd f)" using assms(1) by (simp add: normalized_path_exact)
  then have "list_ex (\<lambda>q. path_eq q (normalized_path cwd f)) paths \<longleftrightarrow> normalized_path cwd f \<in> set paths"
    using assms(2) exact_path_eq by (fastforce simp: list_ex_iff)
  then show "\<forall>q \<in> set (append_protected_rule_path cwd paths f). exact_path q"
    "f \<noteq> [] \<Longrightarrow> normalized_path cwd f \<in> set (append_protected_rule_path cwd paths f)"
    "set paths \<subseteq> set (append_protected_rule_path cwd paths f)"
    using e assms(2) by (auto simp: append_protected_rule_path_def Let_def)
qed

lemma rule_files_protected:
  assumes "is_absolute (rh_cwd h)" "\<forall>q \<in> set paths. exact_path q" "is_enforceable_permission_rules_file h store path"
  shows "is_registered_enforceable_permission_rules_file h
    (fst (build_persistent_permission_rule_resolver (rh_cwd h) paths store fallback)) path"
proof -
  let ?file = "enforceable_permission_rules_file (rh_cwd h) store"
  let ?g = "if prs_global_rules_file store \<noteq> [] then append_protected_rule_path (rh_cwd h) paths (?file GlobalRule) else paths"
  let ?all = "register_enforceable_permission_rule_files (rh_cwd h) store paths"
  have all: "?all = (if prs_workspace_dir store \<noteq> [] then append_protected_rule_path (rh_cwd h) ?g (?file WorkspaceRule) else ?g)"
    by (simp add: register_enforceable_permission_rule_files_def Let_def)
  have g: "\<forall>q \<in> set ?g. exact_path q" using append_protected_member(1) [OF assms(1,2)] assms(2) by simp
  have w: "?file WorkspaceRule \<noteq> []" by (simp add: enforceable_permission_rules_file_def path_append_def is_absolute_def Let_def)
  have some_file: "\<exists>f. f \<noteq> [] \<and> normalized_path (rh_cwd h) f \<in> set ?all \<and> paths_refer_to_same_file h path f = Inr True"
  proof (cases "prs_global_rules_file store \<noteq> [] \<and> paths_refer_to_same_file h path (?file GlobalRule) = Inr True")
    case True
    then have "?file GlobalRule \<noteq> []" by (simp add: enforceable_permission_rules_file_def)
    then have "normalized_path (rh_cwd h) (?file GlobalRule) \<in> set ?g" using True append_protected_member(2) [OF assms(1,2)] by simp
    then have "normalized_path (rh_cwd h) (?file GlobalRule) \<in> set ?all"
      using all append_protected_member(3) [OF assms(1) g, of "?file WorkspaceRule"] by (auto split: if_split_asm)
    with True \<open>?file GlobalRule \<noteq> []\<close> show ?thesis by blast
  next
    case False
    then have "prs_workspace_dir store \<noteq> []" "paths_refer_to_same_file h path (?file WorkspaceRule) = Inr True"
      using assms(3) by (auto simp: is_enforceable_permission_rules_file_def split: if_split_asm)
    then show ?thesis using w all append_protected_member(2) [OF assms(1) g w] by auto
  qed
  have "path \<noteq> []" using assms(3) by (auto simp: is_enforceable_permission_rules_file_def)
  from some_file obtain f where f: "f \<noteq> []" "normalized_path (rh_cwd h) f \<in> set ?all" "paths_refer_to_same_file h path f = Inr True"
    by blast
  then have "paths_refer_to_same_file h path (normalized_path (rh_cwd h) f) = Inr True" using same_file_normalized [OF assms(1)] by simp
  then show ?thesis using f(2) \<open>path \<noteq> []\<close>
    unfolding is_registered_enforceable_permission_rules_file_def build_persistent_permission_rule_resolver_def list_ex_iff by auto
qed

end
