(* ===== verification/Rules_Example.thy ===== *)
theory Rules_Example
  imports Rules_Safety
begin

text \<open>
  Stored rules on a small host: a deny that reaches a second name of its file, a rule made from a draft,
  an approval of the plan of \<open>Plan_Example\<close>, and a deny that its file format does not restore.
\<close>

section \<open>A deny and a draft\<close>

text \<open>A host on which \<^verbatim>\<open>/w/a\<close> and \<^verbatim>\<open>/w/b\<close> are two names of one file.\<close>

definition link_host :: rule_host where
  "link_host = \<lparr>rh_cwd = ''/'', rh_stat = (\<lambda>p. if p = ''/w/a'' \<or> p = ''/w/b'' then Inr (1, 7) else Inl ENOENT), rh_strerror = (\<lambda>_. [])\<rparr>"

definition sample_store :: permission_rule_store where
  "sample_store = \<lparr>prs_global_rules_file = ''/s/r'', prs_workspace_rules_file = [], prs_workspace_dir = ''/w''\<rparr>"

definition edit_draft :: "string \<Rightarrow> permission_rule_draft" where
  "edit_draft target =
     \<lparr>dr_scope = WorkspaceRule, dr_action = Deny, dr_operation = EditFile, dr_mode = AnyMode, dr_tool_name = [], dr_target_path = target,
      dr_command = [], dr_command_recipe_key = [], dr_recipe_display = [], dr_critical_acknowledged = False, dr_reason = ''no'', dr_actor = []\<rparr>"

definition sample_rule :: "permission_action \<Rightarrow> operation \<Rightarrow> string \<Rightarrow> string \<Rightarrow> persistent_permission_rule" where
  "sample_rule action operation target key =
     \<lparr>pr_rule_id = ''permrule_3_0000000000000002'', pr_scope = WorkspaceRule, pr_workspace_dir = ''/w'', pr_action = action, pr_operation = operation,
      pr_mode = AnyMode, pr_tool_name = [], pr_target_path = target, pr_command = [], pr_command_recipe_key = key, pr_recipe_display = [],
      pr_critical_acknowledged = False, pr_schema_version = 2, pr_reason = ''no'', pr_actor = ''rpc'', pr_created_at = ''t''\<rparr>"

definition sample_prompt :: "operation \<Rightarrow> string \<Rightarrow> command_permission_metadata option \<Rightarrow> permission_prompt" where
  "sample_prompt operation target m =
     \<lparr>pp_permission_request_id = [], pp_tool_call_id = [], pp_operation = operation, pp_mode = Build, pp_workspace_dir = ''/w'',
      pp_target_path = target, pp_command = [], pp_tool_name = [], pp_reason = [], pp_risk = LowRisk, pp_diff_preview = [],
      pp_diff_truncated = False, pp_command_metadata = m\<rparr>"

lemma sample_paths:
  "normalized_path ''/'' ''/w'' = ''/w''" "normalized_path ''/'' ''/w/a'' = ''/w/a''" "normalized_path ''/'' ''/w/./b'' = ''/w/b''"
proof -
  have "normalized_absolute_path ''/'' ''/w'' = ''/w''" "normalized_absolute_path ''/'' ''/w/a'' = ''/w/a''"
    "normalized_absolute_path ''/'' ''/w/./b'' = ''/w/b''" "\<not> trailing_separator ''/w''" "\<not> trailing_separator ''/w/a''"
    "\<not> trailing_separator ''/w/b''" by code_simp+
  then show "normalized_path ''/'' ''/w'' = ''/w''" "normalized_path ''/'' ''/w/a'' = ''/w/a''" "normalized_path ''/'' ''/w/./b'' = ''/w/b''"
    by (simp_all add: normalized_path_def strip_separators_id)
qed

lemma sample_exact: "exact_path ''/w''" "exact_path ''/w/a''"
  using normalized_path_exact [of "''/''" "''/w''"] normalized_path_exact [of "''/''" "''/w/a''"] by (simp_all add: sample_paths is_absolute_def)

theorem stored_deny_enforced_witness:
  "rh_stat link_host ''/w/a'' = rh_stat link_host ''/w/b'' \<and>
   denies (snd (build_persistent_permission_rule_resolver ''/'' [] sample_store None) link_host (Inr [sample_rule Deny EditFile ''/w/a'' []])
     (sample_prompt EditFile ''/w/./b'' None))"
proof -
  let ?p = "sample_prompt EditFile ''/w/./b'' None" and ?r = "sample_rule Deny EditFile ''/w/a'' []"
  have r: "pr_action ?r = Deny" "pr_operation ?r = pp_operation ?p" "mode_matches (pr_mode ?r) (pp_mode ?p)"
    "pr_tool_name ?r \<in> {[], pp_tool_name ?p}" "pr_command ?r \<in> {[], pp_command ?p}" "pr_command_recipe_key ?r = []"
    "pr_target_path ?r = ''/w/a''" "pr_workspace_dir ?r = ''/w''" "pp_workspace_dir ?p = ''/w''" "pp_target_path ?p = ''/w/./b''"
    by (simp_all add: sample_rule_def sample_prompt_def)
  have h: "rh_cwd link_host = ''/''" "rh_stat link_host ''/w/a'' = Inr (1, 7)" "rh_stat link_host ''/w/b'' = Inr (1, 7)"
    "prs_workspace_dir sample_store = ''/w''" by (simp_all add: link_host_def sample_store_def)
  have scope: "scope_matches (rh_cwd link_host) sample_store ?r ?p" by (simp add: scope_matches_def r h sample_paths)
  have target: "exact_path (pr_target_path ?r)" "is_absolute (pp_target_path ?p)" "''/w/b'' = normalized_path (rh_cwd link_host) (pp_target_path ?p)"
    "''/w/b'' = pr_target_path ?r \<or> rh_stat link_host ''/w/b'' = Inr (1, 7) \<and> rh_stat link_host (pr_target_path ?r) = Inr (1, 7)"
    by (simp_all only: r h sample_paths sample_exact) (simp_all add: is_absolute_def)
  have "?r \<in> set [?r]" by simp
  from stored_deny_enforced [OF this r(1-3) scope r(4-6) target, of "''/''" "[]" None]
  show ?thesis by (simp only: h)
qed

lemma sample_id: "make_id ''permrule'' (3, 2) = ''permrule_3_0000000000000002''"
proof -
  have "hex_number 3 = ''3''" "hex_number 2 = ''2''"
    by (simp_all add: hex_number.simps [of 3] hex_number.simps [of 2] hex_digits_def)
  then show ?thesis by (simp add: make_id_def zero_padded_def numeral_eq_Suc)
qed

lemma edit_draft_made:
  assumes "normalized_path ''/'' (path_append ''/w'' target) = full" "target \<noteq> []" "full \<noteq> []" "\<not> is_absolute target" "\<not> contains_parent_reference target"
  shows "rule_from_draft ''/'' (3, 2) ''t'' sample_store (edit_draft target) = Inr (sample_rule Deny EditFile full [])"
proof -
  have "valid_identifier ''permrule_3_0000000000000002''" "valid_identifier ''rpc''" "\<not> has_c0_or_del ''rpc''" "\<not> has_c0_or_del ''no''"
    "is_valid_utf8 ''no''" "is_valid_utf8 []" by code_simp+
  then have "validate_rule (sample_rule Deny EditFile full []) path None = Inr ()" for path
    using assms(3) by (simp add: validate_rule_def sample_rule_def is_path_operation_def is_command_operation_def Let_def)
  then show ?thesis
    using assms
    by (simp add: rule_from_draft_def normalize_draft_defaults_def normalize_rule_target_path_def edit_draft_def sample_store_def sample_id sample_paths
        sample_rule_def is_repository_build_or_test_allow_def Let_def)
qed

theorem draft_rule_sound_witness:
  "rule_from_draft ''/'' (3, 2) ''t'' sample_store (edit_draft ''a'') = Inr (sample_rule Deny EditFile ''/w/a'' []) \<and>
   names_inside ''/w'' ''/w/a'' \<and>
   rule_matches link_host sample_store (sample_rule Deny EditFile ''/w/a'' []) (sample_prompt EditFile ''a'' None) = Inr True"
proof -
  have f: "path_append ''/w'' ''a'' = ''/w/a''" "\<not> is_absolute ''a''" "\<not> contains_parent_reference ''a''" by code_simp+
  have made: "rule_from_draft ''/'' (3, 2) ''t'' sample_store (edit_draft ''a'') = Inr (sample_rule Deny EditFile ''/w/a'' [])"
    by (rule edit_draft_made) (simp_all add: f sample_paths)
  have w: "exact_path (prs_workspace_dir sample_store)" by (simp add: sample_store_def sample_exact)
  have p: "rh_cwd link_host = ''/''" "pp_operation (sample_prompt EditFile ''a'' None) = dr_operation (edit_draft ''a'')"
    "mode_matches (dr_mode (edit_draft ''a'')) (pp_mode (sample_prompt EditFile ''a'' None))"
    "pp_tool_name (sample_prompt EditFile ''a'' None) = dr_tool_name (edit_draft ''a'')"
    "pp_command (sample_prompt EditFile ''a'' None) = dr_command (edit_draft ''a'')"
    "pp_target_path (sample_prompt EditFile ''a'' None) = dr_target_path (edit_draft ''a'')"
    "pp_workspace_dir (sample_prompt EditFile ''a'' None) = prs_workspace_dir sample_store"
    "dr_command_recipe_key (edit_draft ''a'') = []" "dr_target_path (edit_draft ''a'') = ''a''"
    by (simp_all add: link_host_def sample_prompt_def edit_draft_def sample_store_def)
  have "prs_workspace_dir sample_store = ''/w''" "pr_target_path (sample_rule Deny EditFile ''/w/a'' []) = ''/w/a''"
    by (simp_all add: sample_store_def sample_rule_def)
  then show ?thesis using draft_rule_sound [OF made w] made p f by auto
qed

text \<open>
  The stored text of a path is its JSON string, in which invalid bytes are replaced. A deny of a file
  whose name is not UTF-8 is accepted, and what is read back names another file.
\<close>

definition raw_path :: string where
  "raw_path = ''/w/'' @ [CHR 0xFF]"

lemma raw_name_not_restored:
  "rule_from_draft ''/'' (3, 2) ''t'' sample_store (edit_draft [CHR 0xFF]) = Inr (sample_rule Deny EditFile raw_path [])"
  "parse_string_at (dquote # escape raw_path @ [dquote]) 0 \<noteq> Some raw_path"
proof -
  have f: "path_append ''/w'' [CHR 0xFF] = raw_path" "\<not> is_absolute [CHR 0xFF]" "\<not> contains_parent_reference [CHR 0xFF]"
    "normalized_absolute_path ''/'' raw_path = raw_path" "\<not> trailing_separator raw_path" "raw_path \<noteq> []"
    "replace_invalid_utf8 raw_path \<noteq> raw_path" by code_simp+
  have "normalized_path ''/'' raw_path = raw_path" by (simp only: normalized_path_def f(4) strip_separators_id [OF f(5)])
  then show "rule_from_draft ''/'' (3, 2) ''t'' sample_store (edit_draft [CHR 0xFF]) = Inr (sample_rule Deny EditFile raw_path [])"
    by (intro edit_draft_made) (simp_all only: f, simp_all)
  show "parse_string_at (dquote # escape raw_path @ [dquote]) 0 \<noteq> Some raw_path"
    using parse_string_at_escape [of "[]" raw_path "[]"] f(7) by simp
qed

definition sample_containment :: containment_info where
  "sample_containment = \<lparr>ci_available = True, ci_profile_id = ''dev'', ci_network_allowed = False\<rparr>"

definition sample_metadata :: command_permission_metadata where
  "sample_metadata = command_permission_metadata sample_sealed sample_containment False"

lemma sample_metadata_granted: "command_prompt_allows_persistent_allow (Some sample_metadata)"
proof -
  obtain env where m: "sample_sealed = sealed_plan plan_intent plan_options plan_context env DirectArgv [''/w/make''] [] plan_program make_classification"
    by (rule sample_sealedE)
  have d: "cp_execution_domain sample_sealed = DirectArgv" by (simp add: m sealed_plan_def Let_def)
  have s: "\<not> contains_secret_like_arguments [''/w/make'']" by code_simp
  have "\<exists>i. make_stable_recipe_identity sample_sealed sample_containment = Some i \<and> sr_global_key i \<noteq> [] \<and> sr_workspace_key i \<noteq> []"
    using d by (simp add: make_stable_recipe_identity_def recipe_source_def m s Let_def)
  then show ?thesis
    by (auto simp: command_prompt_allows_persistent_allow_def command_permission_allows_reusable_grant_def sample_metadata_def
        command_permission_metadata_def Let_def mint_recipe_keys_def downgrade_unverified_def downgrade_uncontained_def initial_metadata_def
        effective_scopes_def sample_containment_def m)
qed

lemma sample_grant:
  assumes "command_prompt_allows_persistent_allow (Some m)"
  shows "\<exists>d. snd (build_persistent_permission_rule_resolver ''/'' [] sample_store None) link_host
      (Inr [sample_rule Allow RunCommand [] (cm_workspace_recipe_key m)]) (sample_prompt RunCommand [] (Some m)) = Inr d \<and> rd_resolution d = ResolveAllow"
proof -
  let ?r = "sample_rule Allow RunCommand [] (cm_workspace_recipe_key m)" and ?p = "sample_prompt RunCommand [] (Some m)"
  have key: "cm_workspace_recipe_key m \<noteq> []"
    using assms grant_fields(6) by (simp add: command_prompt_allows_persistent_allow_def)
  have r: "pr_action ?r = Allow" "pr_operation ?r = RunCommand" "pr_mode ?r = AnyMode" "pr_scope ?r = WorkspaceRule" "pr_workspace_dir ?r = ''/w''"
    "pr_tool_name ?r = []" "pr_target_path ?r = []" "pr_schema_version ?r = 2" "pr_command_recipe_key ?r = cm_workspace_recipe_key m"
    by (simp_all add: sample_rule_def)
  have p: "pp_operation ?p = RunCommand" "pp_workspace_dir ?p = ''/w''" "pp_command_metadata ?p = Some m" by (simp_all add: sample_prompt_def)
  have h: "rh_cwd link_host = ''/''" "prs_workspace_dir sample_store = ''/w''" by (simp_all add: link_host_def sample_store_def)
  have recipe: "command_recipe_matches ?r ?p" by (simp add: command_recipe_matches_def r p key)
  then have matches: "rule_matches link_host sample_store ?r ?p = Inr True"
    by (simp add: rule_matches_def path_matches_def scope_matches_def r p h key sample_paths)
  have "command_allow_is_authoritative ?r ?p" using assms recipe by (simp add: command_allow_is_authoritative_def r p key)
  then have "match_persistent_permission_rule link_host sample_store (Inr [?r]) ?p = Inr (Some ?r)"
    using matches by (simp add: match_persistent_permission_rule_def match_step_def r)
  then show ?thesis by (simp add: build_persistent_permission_rule_resolver_def resolution_decision_def r)
qed

theorem stored_command_grant_witness:
  "\<exists>d. snd (build_persistent_permission_rule_resolver ''/'' [] sample_store None) link_host
      (Inr [sample_rule Allow RunCommand [] (cm_workspace_recipe_key sample_metadata)]) (sample_prompt RunCommand [] (Some sample_metadata)) = Inr d \<and>
    rd_resolution d = ResolveAllow \<and> cp_execution_domain sample_sealed = DirectArgv \<and> cc_level (cp_classification sample_sealed) \<noteq> Critical"
proof -
  let ?p = "sample_prompt RunCommand [] (Some sample_metadata)"
  obtain d where d: "snd (build_persistent_permission_rule_resolver ''/'' [] sample_store None) link_host
      (Inr [sample_rule Allow RunCommand [] (cm_workspace_recipe_key sample_metadata)]) ?p = Inr d" "rd_resolution d = ResolveAllow"
    using sample_grant [OF sample_metadata_granted] by blast
  have p: "pp_operation ?p = RunCommand" "pp_command_metadata ?p = Some (command_permission_metadata sample_sealed sample_containment False)"
    by (simp_all add: sample_prompt_def sample_metadata_def)
  have "cp_execution_domain sample_sealed = DirectArgv \<and> cc_level (cp_classification sample_sealed) \<noteq> Critical"
    by (rule bexE [OF stored_command_grant [OF d p]]) (elim conjE, rule conjI)
  with d show ?thesis by blast
qed

end
