(* ===== verification/Mutation_Queue.thy ===== *)
theory Mutation_Queue
  imports Paths "HOL-Library.List_Lexorder"
begin

text \<open>
  The queue that serializes changes of the same files: \<^verbatim>\<open>tools/mutation_queue.cpp\<close>. Several threads
  call \<^verbatim>\<open>lock_paths\<close>, hold the locks of their files and release them. A thread is advanced one
  atomic action at a time, in any order, by \<open>run_thread\<close>: taking the table's mutex, looking at one
  table entry, looking up one key, locking or unlocking one mutex, dropping one reference. A
  thread that waits for a mutex cannot be advanced.

  An \<^verbatim>\<open>Entry\<close> is an address, an index into the allocation log \<open>mq_heap\<close>, which remembers for which key
  the entry was made; only proofs read that log. A \<^verbatim>\<open>weak_ptr\<close> of the table is expired when no
  thread references the address. The current directory is a parameter.
\<close>

section \<open>The queue\<close>

datatype phase =
    WantLookup "string list"
  | PruneLookup nat "string list"
  | Lookup "string list" "nat list"
  | Acquire "nat list" nat
  | Unlock "nat list" nat
  | DropRefs "nat list"
  | WantPrune
  | PruneReset nat

record mutation_queue =
  mq_entries :: "(string \<times> nat) list"
  mq_heap :: "string list"
  mq_threads :: "(string list \<times> phase) option list"

definition normalized_key :: "string \<Rightarrow> string \<Rightarrow> string" where
  "normalized_key cwd p = normalized_absolute_path cwd p"

text \<open>\<^verbatim>\<open>std::ranges::unique\<close> with the equality of paths.\<close>

fun unique_keys :: "string list \<Rightarrow> string list" where
  "unique_keys [] = []"
| "unique_keys [k] = [k]"
| "unique_keys (k # l # ks) = (if path_eq k l then unique_keys (k # ks) else k # unique_keys (l # ks))"

definition request_keys :: "string \<Rightarrow> string list \<Rightarrow> string list" where
  "request_keys cwd paths = unique_keys (sort_key path_parts (map (normalized_key cwd) paths))"

text \<open>The references a thread owns, the mutexes it has locked, and whether it is in the table's critical section.\<close>

fun phase_refs :: "phase \<Rightarrow> nat list" where
  "phase_refs (Lookup ks ids) = ids"
| "phase_refs (Acquire es k) = es"
| "phase_refs (Unlock es j) = es"
| "phase_refs (DropRefs es) = es"
| "phase_refs _ = []"

fun phase_locked :: "phase \<Rightarrow> nat list" where
  "phase_locked (Acquire es k) = take k es"
| "phase_locked (Unlock es j) = drop j es"
| "phase_locked _ = []"

fun in_entries_mutex :: "phase \<Rightarrow> bool" where
  "in_entries_mutex (PruneLookup n ks) = True"
| "in_entries_mutex (Lookup ks ids) = True"
| "in_entries_mutex (PruneReset n) = True"
| "in_entries_mutex _ = False"

definition no_thread :: "(phase \<Rightarrow> bool) \<Rightarrow> mutation_queue \<Rightarrow> bool" where
  "no_thread P s \<longleftrightarrow> list_all (\<lambda>th. case th of None \<Rightarrow> True | Some (paths, ph) \<Rightarrow> \<not> P ph) (mq_threads s)"

definition expired :: "mutation_queue \<Rightarrow> nat \<Rightarrow> bool" where
  "expired s e \<longleftrightarrow> no_thread (\<lambda>ph. e \<in> set (phase_refs ph)) s"

definition mutex_free :: "mutation_queue \<Rightarrow> nat \<Rightarrow> bool" where
  "mutex_free s e \<longleftrightarrow> no_thread (\<lambda>ph. e \<in> set (phase_locked ph)) s"

definition entries_mutex_free :: "mutation_queue \<Rightarrow> bool" where
  "entries_mutex_free s \<longleftrightarrow> no_thread in_entries_mutex s"

definition set_phase :: "nat \<Rightarrow> phase \<Rightarrow> mutation_queue \<Rightarrow> mutation_queue" where
  "set_phase t ph s =
     s\<lparr>mq_threads := (mq_threads s)[t := map_option (\<lambda>(paths, _). (paths, ph)) (mq_threads s ! t)]\<rparr>"

text \<open>One item of \<^verbatim>\<open>prune_expired_entries\<close>: item \<open>n\<close> is dropped or kept.\<close>

definition prune_item :: "nat \<Rightarrow> (nat \<Rightarrow> phase) \<Rightarrow> nat \<Rightarrow> mutation_queue \<Rightarrow> mutation_queue" where
  "prune_item t resume n s =
     (if expired s (snd (mq_entries s ! n))
      then set_phase t (resume n) (s\<lparr>mq_entries := take n (mq_entries s) @ drop (Suc n) (mq_entries s)\<rparr>)
      else set_phase t (resume (Suc n)) s)"

fun find_key :: "string \<Rightarrow> (string \<times> nat) list \<Rightarrow> nat option" where
  "find_key key [] = None"
| "find_key key (item # items) = (if path_eq (fst item) key then Some 0 else map_option Suc (find_key key items))"

definition entry_for :: "string \<Rightarrow> mutation_queue \<Rightarrow> nat \<times> mutation_queue" where
  "entry_for key s =
     (let fresh = length (mq_heap s) in
      (case find_key key (mq_entries s) of
         None \<Rightarrow> (fresh, s\<lparr>mq_entries := mq_entries s @ [(key, fresh)], mq_heap := mq_heap s @ [key]\<rparr>)
       | Some i \<Rightarrow>
           if expired s (snd (mq_entries s ! i))
           then (fresh, s\<lparr>mq_entries := (mq_entries s)[i := (fst (mq_entries s ! i), fresh)], mq_heap := mq_heap s @ [key]\<rparr>)
           else (snd (mq_entries s ! i), s)))"

text \<open>\<^verbatim>\<open>lock_paths\<close> up to its first wait; an empty request returns an empty lock at once.\<close>

definition lock_paths :: "string \<Rightarrow> nat \<Rightarrow> string list \<Rightarrow> mutation_queue \<Rightarrow> mutation_queue" where
  "lock_paths cwd t paths s =
     (let keys = request_keys cwd paths in
      if keys = [] then s else s\<lparr>mq_threads := (mq_threads s)[t := Some (paths, WantLookup keys)]\<rparr>)"

definition lock_path :: "string \<Rightarrow> nat \<Rightarrow> string \<Rightarrow> mutation_queue \<Rightarrow> mutation_queue" where
  "lock_path cwd t p s = lock_paths cwd t [p] s"

definition run_phase :: "nat \<Rightarrow> phase \<Rightarrow> mutation_queue \<Rightarrow> mutation_queue option" where
  "run_phase t ph s =
     (case ph of
        WantLookup ks \<Rightarrow> if entries_mutex_free s then Some (set_phase t (PruneLookup 0 ks) s) else None
      | PruneLookup n ks \<Rightarrow>
          if n < length (mq_entries s) then Some (prune_item t (\<lambda>i. PruneLookup i ks) n s) else Some (set_phase t (Lookup ks []) s)
      | Lookup ks ids \<Rightarrow>
          (case ks of
             [] \<Rightarrow> Some (set_phase t (Acquire ids 0) s)
           | key # rest \<Rightarrow> (let (e, s2) = entry_for key s in Some (set_phase t (Lookup rest (ids @ [e])) s2)))
      | Acquire es k \<Rightarrow>
          if k < length es then (if mutex_free s (es ! k) then Some (set_phase t (Acquire es (Suc k)) s) else None)
          else Some (set_phase t (Unlock es 0) s)
      | Unlock es j \<Rightarrow> if j < length es then Some (set_phase t (Unlock es (Suc j)) s) else Some (set_phase t (DropRefs es) s)
      | DropRefs es \<Rightarrow> (case es of [] \<Rightarrow> Some (set_phase t WantPrune s) | e # rest \<Rightarrow> Some (set_phase t (DropRefs rest) s))
      | WantPrune \<Rightarrow> if entries_mutex_free s then Some (set_phase t (PruneReset 0) s) else None
      | PruneReset n \<Rightarrow>
          if n < length (mq_entries s) then Some (prune_item t PruneReset n s)
          else Some (s\<lparr>mq_threads := (mq_threads s)[t := None]\<rparr>))"

definition run_thread :: "nat \<Rightarrow> mutation_queue \<Rightarrow> mutation_queue option" where
  "run_thread t s =
     (if t < length (mq_threads s) then (case mq_threads s ! t of None \<Rightarrow> None | Some (paths, ph) \<Rightarrow> run_phase t ph s) else None)"

definition tracked_path_count :: "mutation_queue \<Rightarrow> nat" where
  "tracked_path_count s = length (mq_entries s)"

definition empty_queue :: "nat \<Rightarrow> mutation_queue" where
  "empty_queue n = \<lparr>mq_entries = [], mq_heap = [], mq_threads = replicate n None\<rparr>"

inductive queue_step :: "string \<Rightarrow> mutation_queue \<Rightarrow> mutation_queue \<Rightarrow> bool" for cwd where
  call: "t < length (mq_threads s) \<Longrightarrow> mq_threads s ! t = None \<Longrightarrow> queue_step cwd s (lock_paths cwd t paths s)"
| run: "run_thread t s = Some s' \<Longrightarrow> queue_step cwd s s'"

inductive queue_reachable :: "string \<Rightarrow> nat \<Rightarrow> mutation_queue \<Rightarrow> bool" for cwd n where
  start: "queue_reachable cwd n (empty_queue n)"
| step: "queue_reachable cwd n s \<Longrightarrow> queue_step cwd s s' \<Longrightarrow> queue_reachable cwd n s'"

section \<open>The keys of a request\<close>

lemma unique_keys_set: "set (map path_parts (unique_keys ks)) = set (map path_parts ks)"
  by (induction ks rule: unique_keys.induct) (auto simp: path_eq_def)

lemma unique_keys_hd: "unique_keys (k # ks) \<noteq> [] \<and> path_parts (hd (unique_keys (k # ks))) = path_parts k"
  by (induction "k # ks" arbitrary: k ks rule: unique_keys.induct) (auto simp: path_eq_def)

lemma unique_keys_sorted: "sorted (map path_parts ks) \<Longrightarrow> sorted_wrt (<) (map path_parts (unique_keys ks))"
proof (induction ks rule: unique_keys.induct)
  case (3 k l ks)
  show ?case
  proof (cases "path_eq k l")
    case True
    with 3 show ?thesis by simp
  next
    case False
    have above: "path_parts k < path_parts x" if "x \<in> set (l # ks)" for x
    proof -
      have "path_parts k \<le> path_parts l" "path_parts l \<le> path_parts x" using 3(3) that by auto
      with False show ?thesis by (auto simp: path_eq_def)
    qed
    have "\<forall>y \<in> set (map path_parts (unique_keys (l # ks))). path_parts k < y"
      unfolding unique_keys_set using above by auto
    with False 3 show ?thesis by simp
  qed
qed simp_all

lemma request_keys_sorted: "sorted_wrt (<) (map path_parts (request_keys cwd paths))"
  unfolding request_keys_def by (rule unique_keys_sorted) simp

lemma request_keys_set: "path_parts ` set (request_keys cwd paths) = path_parts ` normalized_key cwd ` set paths"
  using unique_keys_set [of "sort_key path_parts (map (normalized_key cwd) paths)"] by (simp add: request_keys_def)

section \<open>The invariant\<close>

definition thread_at :: "mutation_queue \<Rightarrow> nat \<Rightarrow> string list \<Rightarrow> phase \<Rightarrow> bool" where
  "thread_at s t paths ph \<longleftrightarrow> t < length (mq_threads s) \<and> mq_threads s ! t = Some (paths, ph)"

definition key_at :: "mutation_queue \<Rightarrow> nat \<Rightarrow> string list" where
  "key_at s e = path_parts (mq_heap s ! e)"

fun thread_ok :: "string \<Rightarrow> mutation_queue \<Rightarrow> string list \<Rightarrow> phase \<Rightarrow> bool" where
  "thread_ok cwd s paths (WantLookup ks) \<longleftrightarrow> ks = request_keys cwd paths"
| "thread_ok cwd s paths (PruneLookup n ks) \<longleftrightarrow> ks = request_keys cwd paths"
| "thread_ok cwd s paths (Lookup ks ids) \<longleftrightarrow> map (key_at s) ids @ map path_parts ks = map path_parts (request_keys cwd paths)"
| "thread_ok cwd s paths (Acquire es k) \<longleftrightarrow> map (key_at s) es = map path_parts (request_keys cwd paths) \<and> k \<le> length es"
| "thread_ok cwd s paths (Unlock es j) \<longleftrightarrow> map (key_at s) es = map path_parts (request_keys cwd paths)"
| "thread_ok cwd s paths _ \<longleftrightarrow> True"

definition table_ok :: "mutation_queue \<Rightarrow> bool" where
  "table_ok s \<longleftrightarrow> distinct (map (path_parts \<circ> fst) (mq_entries s)) \<and>
     (\<forall>(k, e) \<in> set (mq_entries s). e < length (mq_heap s) \<and> key_at s e = path_parts k)"

definition registered :: "mutation_queue \<Rightarrow> nat \<Rightarrow> bool" where
  "registered s e \<longleftrightarrow> e \<in> snd ` set (mq_entries s)"

definition queue_inv :: "string \<Rightarrow> mutation_queue \<Rightarrow> bool" where
  "queue_inv cwd s \<longleftrightarrow> table_ok s \<and>
     (\<forall>t paths ph. thread_at s t paths ph \<longrightarrow> thread_ok cwd s paths ph \<and> (\<forall>e \<in> set (phase_refs ph). registered s e)) \<and>
     (\<forall>t u p q ph ph'. thread_at s t p ph \<and> thread_at s u q ph' \<and> t \<noteq> u \<longrightarrow>
        \<not> (in_entries_mutex ph \<and> in_entries_mutex ph') \<and> set (phase_locked ph) \<inter> set (phase_locked ph') = {})"

lemma no_thread_iff: "no_thread P s \<longleftrightarrow> (\<forall>t paths ph. thread_at s t paths ph \<longrightarrow> \<not> P ph)"
  by (fastforce simp: no_thread_def thread_at_def list_all_length split: option.splits)

lemma queue_invI:
  assumes "table_ok s" "\<And>t paths ph. thread_at s t paths ph \<Longrightarrow> thread_ok cwd s paths ph"
    "\<And>t paths ph e. thread_at s t paths ph \<Longrightarrow> e \<in> set (phase_refs ph) \<Longrightarrow> registered s e"
    "\<And>t u p q ph ph'. thread_at s t p ph \<Longrightarrow> thread_at s u q ph' \<Longrightarrow> t \<noteq> u \<Longrightarrow> \<not> (in_entries_mutex ph \<and> in_entries_mutex ph')"
    "\<And>t u p q ph ph'. thread_at s t p ph \<Longrightarrow> thread_at s u q ph' \<Longrightarrow> t \<noteq> u \<Longrightarrow> set (phase_locked ph) \<inter> set (phase_locked ph') = {}"
  shows "queue_inv cwd s"
  using assms unfolding queue_inv_def by metis

lemma queue_invD:
  assumes "queue_inv cwd s"
  shows "table_ok s" "thread_at s t paths ph \<Longrightarrow> thread_ok cwd s paths ph"
    "thread_at s t paths ph \<Longrightarrow> e \<in> set (phase_refs ph) \<Longrightarrow> registered s e"
    "thread_at s t p ph \<Longrightarrow> thread_at s u q ph' \<Longrightarrow> t \<noteq> u \<Longrightarrow> \<not> (in_entries_mutex ph \<and> in_entries_mutex ph')"
    "thread_at s t p ph \<Longrightarrow> thread_at s u q ph' \<Longrightarrow> t \<noteq> u \<Longrightarrow> set (phase_locked ph) \<inter> set (phase_locked ph') = {}"
  using assms unfolding queue_inv_def by metis+

lemma thread_at_unique: "thread_at s t p ph \<Longrightarrow> thread_at s t q ph' \<Longrightarrow> p = q \<and> ph = ph'"
  by (simp add: thread_at_def)

text \<open>A state that differs from \<open>s\<close> in the slot of thread \<open>t\<close> only.\<close>

lemma thread_at_set_phase:
  assumes "thread_at s t paths ph"
  shows "thread_at (set_phase t ph' s) u q ph'' \<longleftrightarrow> (if u = t then q = paths \<and> ph'' = ph' else thread_at s u q ph'')"
  using assms by (auto simp: thread_at_def set_phase_def)

lemma set_phase_fields [simp]: "mq_entries (set_phase t ph s) = mq_entries s" "mq_heap (set_phase t ph s) = mq_heap s"
  by (simp_all add: set_phase_def)

lemma table_cong: "mq_entries s' = mq_entries s \<Longrightarrow> mq_heap s' = mq_heap s \<Longrightarrow>
    table_ok s' = table_ok s \<and> registered s' = registered s \<and> key_at s' = key_at s"
  by (auto simp: table_ok_def registered_def key_at_def fun_eq_iff)

lemma thread_ok_cong: "key_at s' = key_at s \<Longrightarrow> thread_ok cwd s' paths ph = thread_ok cwd s paths ph"
  by (cases ph) simp_all

lemma set_phase_inv:
  assumes inv: "queue_inv cwd s" and t: "thread_at s t paths ph" and ok: "thread_ok cwd s paths ph'"
    and refs: "\<And>e. e \<in> set (phase_refs ph') \<Longrightarrow> registered s e"
    and mutex: "in_entries_mutex ph' \<Longrightarrow> in_entries_mutex ph \<or> entries_mutex_free s"
    and locked: "\<And>e. e \<in> set (phase_locked ph') \<Longrightarrow> e \<in> set (phase_locked ph) \<or> mutex_free s e"
  shows "queue_inv cwd (set_phase t ph' s)"
proof (rule queue_invI)
  note same = table_cong [of "set_phase t ph' s" s, simplified]
  note at = thread_at_set_phase [OF t]
  show "table_ok (set_phase t ph' s)" using same queue_invD(1) [OF inv] by simp
  show "thread_ok cwd (set_phase t ph' s) q ph''" if "thread_at (set_phase t ph' s) u q ph''" for u q ph''
    using that ok queue_invD(2) [OF inv] thread_ok_cong [of "set_phase t ph' s" s] same by (auto simp: at split: if_splits)
  show "registered (set_phase t ph' s) e" if "thread_at (set_phase t ph' s) u q ph''" "e \<in> set (phase_refs ph'')" for u q ph'' e
    using that refs queue_invD(3) [OF inv] same by (auto simp: at split: if_splits)
  have alone: "\<not> in_entries_mutex ph''" if "thread_at s u q ph''" "u \<noteq> t" "in_entries_mutex ph'" for u q ph''
    using mutex [OF that(3)] queue_invD(4) [OF inv t that(1)] that by (auto simp: entries_mutex_free_def no_thread_iff)
  have apart: "e \<notin> set (phase_locked ph'')" if "thread_at s u q ph''" "u \<noteq> t" "e \<in> set (phase_locked ph')" for u q ph'' e
    using locked [OF that(3)] queue_invD(5) [OF inv t that(1)] that by (auto simp: mutex_free_def no_thread_iff)
  fix u v p q ph1 ph2
  assume uv: "thread_at (set_phase t ph' s) u p ph1" "thread_at (set_phase t ph' s) v q ph2" "u \<noteq> v"
  show "\<not> (in_entries_mutex ph1 \<and> in_entries_mutex ph2)"
    using uv alone queue_invD(4) [OF inv] by (auto simp: at split: if_splits)
  show "set (phase_locked ph1) \<inter> set (phase_locked ph2) = {}"
    using uv apart queue_invD(5) [OF inv, of u p ph1 v q ph2] by (auto simp: at split: if_splits)
qed

text \<open>Changing the table, with the threads as they are.\<close>

lemma table_change_inv:
  assumes inv: "queue_inv cwd s" and "mq_threads s' = mq_threads s" "table_ok s'"
    and keep: "\<And>e. registered s e \<Longrightarrow> key_at s' e = key_at s e"
    and live: "\<And>e. registered s e \<Longrightarrow> \<not> expired s e \<Longrightarrow> registered s' e"
  shows "queue_inv cwd s'"
proof (rule queue_invI)
  have at: "thread_at s' = thread_at s" using assms(2) by (simp add: thread_at_def fun_eq_iff)
  have live_ref: "\<not> expired s e" if "thread_at s t p ph" "e \<in> set (phase_refs ph)" for t p ph e
    using that by (auto simp: expired_def no_thread_iff)
  show "table_ok s'" by fact
  show "thread_ok cwd s' p ph" if "thread_at s' t p ph" for t p ph
  proof -
    have r: "\<And>e. e \<in> set (phase_refs ph) \<Longrightarrow> key_at s' e = key_at s e" using that queue_invD(3) [OF inv] keep by (simp add: at)
    then have "map (key_at s') (phase_refs ph) = map (key_at s) (phase_refs ph)" by simp
    with that queue_invD(2) [OF inv, of t p ph] show ?thesis by (cases ph) (simp_all add: at cong: map_cong)
  qed
  show "registered s' e" if "thread_at s' t p ph" "e \<in> set (phase_refs ph)" for t p ph e
    using that live live_ref queue_invD(3) [OF inv] by (auto simp: at)
  show "\<not> (in_entries_mutex ph \<and> in_entries_mutex ph')" if "thread_at s' t p ph" "thread_at s' u q ph'" "t \<noteq> u" for t u p q ph ph'
    using that queue_invD(4) [OF inv] by (auto simp: at)
  show "set (phase_locked ph) \<inter> set (phase_locked ph') = {}" if "thread_at s' t p ph" "thread_at s' u q ph'" "t \<noteq> u" for t u p q ph ph'
    using that queue_invD(5) [OF inv] by (auto simp: at)
qed

lemma registered_nth: "registered s e \<longleftrightarrow> (\<exists>i < length (mq_entries s). snd (mq_entries s ! i) = e)"
proof
  assume "registered s e"
  then obtain x where "x \<in> set (mq_entries s)" "e = snd x" unfolding registered_def by blast
  then show "\<exists>i < length (mq_entries s). snd (mq_entries s ! i) = e" unfolding in_set_conv_nth by blast
next
  assume "\<exists>i < length (mq_entries s). snd (mq_entries s ! i) = e"
  then show "registered s e" unfolding registered_def using nth_mem by blast
qed

lemma prune_item_inv:
  assumes inv: "queue_inv cwd s" and t: "thread_at s t paths ph" and n: "n < length (mq_entries s)"
    and resume: "\<And>i. thread_ok cwd s paths (resume i) \<and> phase_refs (resume i) = [] \<and> phase_locked (resume i) = []
      \<and> (\<forall>s'. thread_ok cwd s' paths (resume i))" "in_entries_mutex ph"
  shows "queue_inv cwd (prune_item t resume n s)"
proof (cases "expired s (snd (mq_entries s ! n))")
  case True
  let ?s = "s\<lparr>mq_entries := take n (mq_entries s) @ drop (Suc n) (mq_entries s)\<rparr>"
  have split: "mq_entries s = take n (mq_entries s) @ mq_entries s ! n # drop (Suc n) (mq_entries s)"
    using n by (rule id_take_nth_drop)
  have key: "key_at ?s = key_at s" by (simp add: key_at_def fun_eq_iff)
  have table: "table_ok ?s"
  proof -
    have "distinct (map (path_parts \<circ> fst) (take n (mq_entries s) @ mq_entries s ! n # drop (Suc n) (mq_entries s)))"
      using queue_invD(1) [OF inv] split by (simp add: table_ok_def)
    moreover have "set (mq_entries ?s) \<subseteq> set (mq_entries s)" by (auto dest: in_set_takeD in_set_dropD)
    ultimately show ?thesis using queue_invD(1) [OF inv] key by (auto simp: table_ok_def)
  qed
  have "registered ?s e" if r: "registered s e" and live: "\<not> expired s e" for e
  proof -
    obtain x where x: "x \<in> set (mq_entries s)" "snd x = e" using r unfolding registered_def by blast
    then have "x \<noteq> mq_entries s ! n" using live True by auto
    then have "x \<in> set (take n (mq_entries s)) \<union> set (drop (Suc n) (mq_entries s))" using x(1) split
      by (metis Un_iff set_ConsD set_append)
    then show ?thesis using x(2) unfolding registered_def by auto
  qed
  then have "queue_inv cwd ?s" by (intro table_change_inv [OF inv _ table]) (simp_all add: key)
  moreover have "thread_at ?s t paths ph" using t by (simp add: thread_at_def)
  ultimately have "queue_inv cwd (set_phase t (resume n) ?s)"
    by (rule set_phase_inv) (simp_all add: resume)
  then show ?thesis using True by (simp add: prune_item_def)
next
  case False
  have "queue_inv cwd (set_phase t (resume (Suc n)) s)" by (rule set_phase_inv [OF inv t]) (simp_all add: resume)
  then show ?thesis using False by (simp add: prune_item_def)
qed

lemma find_key_Some:
  "find_key key items = Some i \<Longrightarrow> i < length items \<and> path_parts (fst (items ! i)) = path_parts key"
  by (induction items arbitrary: i) (auto simp: path_eq_def split: if_splits)

lemma find_key_None: "find_key key items = None \<Longrightarrow> path_parts key \<notin> (path_parts \<circ> fst) ` set items"
  by (induction items) (auto simp: path_eq_def split: if_splits)

lemma table_item:
  assumes "table_ok s" "i < length (mq_entries s)"
  shows "snd (mq_entries s ! i) < length (mq_heap s)" "key_at s (snd (mq_entries s ! i)) = path_parts (fst (mq_entries s ! i))"
proof -
  have "\<forall>x \<in> set (mq_entries s). case x of (k, e) \<Rightarrow> e < length (mq_heap s) \<and> key_at s e = path_parts k"
    using assms(1) by (simp add: table_ok_def)
  then have "case mq_entries s ! i of (k, e) \<Rightarrow> e < length (mq_heap s) \<and> key_at s e = path_parts k"
    by (rule bspec) (rule nth_mem [OF assms(2)])
  then show "snd (mq_entries s ! i) < length (mq_heap s)" "key_at s (snd (mq_entries s ! i)) = path_parts (fst (mq_entries s ! i))"
    by (simp_all add: case_prod_beta)
qed

lemma registered_below: "table_ok s \<Longrightarrow> registered s e \<Longrightarrow> e < length (mq_heap s)"
  by (auto simp: table_ok_def registered_def)

lemma entry_for_inv:
  assumes inv: "queue_inv cwd s" and e: "entry_for key s = (e, s2)"
  shows "queue_inv cwd s2 \<and> registered s2 e \<and> key_at s2 e = path_parts key \<and> mq_threads s2 = mq_threads s \<and>
    (\<forall>e'. registered s e' \<longrightarrow> key_at s2 e' = key_at s e')"
proof -
  note table = queue_invD(1) [OF inv]
  let ?fresh = "length (mq_heap s)"
  show ?thesis
  proof (cases "find_key key (mq_entries s)")
    case None
    let ?s = "s\<lparr>mq_entries := mq_entries s @ [(key, ?fresh)], mq_heap := mq_heap s @ [key]\<rparr>"
    have s2: "e = ?fresh" "s2 = ?s" using e None by (auto simp: entry_for_def Let_def)
    have keep: "key_at ?s e' = key_at s e'" if "registered s e'" for e'
      using registered_below [OF table that] by (simp add: key_at_def nth_append)
    have "\<forall>(k, e') \<in> set (mq_entries s). e' < length (mq_heap ?s) \<and> key_at ?s e' = path_parts k"
    proof (clarify)
      fix k e' assume m: "(k, e') \<in> set (mq_entries s)"
      then have "registered s e'" unfolding registered_def by force
      with m keep [of e'] table show "e' < length (mq_heap ?s) \<and> key_at ?s e' = path_parts k" by (fastforce simp: table_ok_def)
    qed
    moreover have "key_at ?s ?fresh = path_parts key" by (simp add: key_at_def)
    ultimately have "table_ok ?s" using table find_key_None [OF None] by (simp add: table_ok_def)
    moreover have "registered ?s e'" if "registered s e'" for e' using that by (auto simp: registered_def)
    ultimately have "queue_inv cwd ?s" using keep by (intro table_change_inv [OF inv]) simp_all
    with keep s2 show ?thesis by (auto simp: registered_def key_at_def nth_append)
  next
    case (Some i)
    note i = find_key_Some [OF Some] and item = table_item [OF table conjunct1 [OF find_key_Some [OF Some]]]
    show ?thesis
    proof (cases "expired s (snd (mq_entries s ! i))")
      case True
      let ?s = "s\<lparr>mq_entries := (mq_entries s)[i := (fst (mq_entries s ! i), ?fresh)], mq_heap := mq_heap s @ [key]\<rparr>"
      have s2: "e = ?fresh" "s2 = ?s" using e Some True by (auto simp: entry_for_def Let_def)
      have keep: "key_at ?s e' = key_at s e'" if "registered s e'" for e'
        using registered_below [OF table that] by (simp add: key_at_def nth_append)
      have fresh: "key_at ?s ?fresh = path_parts (fst (mq_entries s ! i))" using i by (simp add: key_at_def nth_append)
      have "map (path_parts \<circ> fst) (mq_entries ?s) = map (path_parts \<circ> fst) (mq_entries s)"
        using i by (intro nth_equalityI) (auto simp: nth_list_update)
      moreover have "\<forall>(k, e') \<in> set (mq_entries ?s). e' < length (mq_heap ?s) \<and> key_at ?s e' = path_parts k"
      proof (clarify)
        fix k e' assume "(k, e') \<in> set (mq_entries ?s)"
        then consider "(k, e') = (fst (mq_entries s ! i), ?fresh)" | "(k, e') \<in> set (mq_entries s)"
          using set_update_subset_insert [of "mq_entries s" i] by auto
        then show "e' < length (mq_heap ?s) \<and> key_at ?s e' = path_parts k"
        proof cases
          case 2
          then have "registered s e'" by (force simp: registered_def)
          with 2 table keep show ?thesis by (fastforce simp: table_ok_def)
        qed (use fresh in simp)
      qed
      ultimately have table2: "table_ok ?s" using table by (simp add: table_ok_def)
      have "registered ?s e'" if r: "registered s e'" and live: "\<not> expired s e'" for e'
      proof -
        obtain j where j: "j < length (mq_entries s)" "snd (mq_entries s ! j) = e'" using r unfolding registered_nth by blast
        then have "j \<noteq> i" using live True by auto
        with j show ?thesis unfolding registered_nth by (intro exI [where x = j]) simp
      qed
      then have "queue_inv cwd ?s" using keep table2 by (intro table_change_inv [OF inv]) simp_all
      moreover have "registered ?s ?fresh" using i unfolding registered_nth by (intro exI [where x = i]) simp
      ultimately show ?thesis using s2 keep fresh i by simp
    next
      case False
      then have s2: "e = snd (mq_entries s ! i)" "s2 = s" using e Some by (auto simp: entry_for_def Let_def)
      have "registered s e" using i s2 by (auto simp: registered_def)
      with s2 item i inv show ?thesis by simp
    qed
  qed
qed

section \<open>Every step keeps the invariant\<close>

lemma lookup_inv:
  assumes inv: "queue_inv cwd s" and t: "thread_at s t paths (Lookup (key # rest) ids)" and e: "entry_for key s = (e, s2)"
  shows "queue_inv cwd (set_phase t (Lookup rest (ids @ [e])) s2)"
proof -
  note s2 = entry_for_inv [OF inv e]
  have t2: "thread_at s2 t paths (Lookup (key # rest) ids)" using t s2 by (simp add: thread_at_def)
  have regs: "registered s2 e'" if "e' \<in> set ids" for e' using queue_invD(3) [of cwd s2, OF _ t2] s2 that by simp
  have keys: "map (key_at s2) ids = map (key_at s) ids" using queue_invD(3) [OF inv t] s2 by simp
  have "thread_ok cwd s2 paths (Lookup rest (ids @ [e]))" using queue_invD(2) [OF inv t] keys s2 by (simp cong: map_cong)
  with s2 t2 regs show ?thesis by (intro set_phase_inv [of cwd s2 t paths "Lookup (key # rest) ids"]) auto
qed

lemma idle_inv:
  assumes inv: "queue_inv cwd s"
  shows "queue_inv cwd (s\<lparr>mq_threads := (mq_threads s)[t := None]\<rparr>)"
proof (rule queue_invI)
  let ?s = "s\<lparr>mq_threads := (mq_threads s)[t := None]\<rparr>"
  have at: "thread_at s u p ph" if "thread_at ?s u p ph" for u p ph
    using that by (cases "u = t") (auto simp: thread_at_def)
  note same = table_cong [of ?s s, simplified]
  show "table_ok ?s" using same queue_invD(1) [OF inv] by simp
  show "thread_ok cwd ?s p ph" if "thread_at ?s u p ph" for u p ph
    using at [OF that] queue_invD(2) [OF inv] thread_ok_cong [of ?s s] same by blast
  show "registered ?s e" if "thread_at ?s u p ph" "e \<in> set (phase_refs ph)" for u p ph e
    using at [OF that(1)] that(2) queue_invD(3) [OF inv] same by simp
  show "\<not> (in_entries_mutex ph \<and> in_entries_mutex ph')" if "thread_at ?s u p ph" "thread_at ?s v q ph'" "u \<noteq> v" for u v p q ph ph'
    using at [OF that(1)] at [OF that(2)] that(3) queue_invD(4) [OF inv] by blast
  show "set (phase_locked ph) \<inter> set (phase_locked ph') = {}" if "thread_at ?s u p ph" "thread_at ?s v q ph'" "u \<noteq> v" for u v p q ph ph'
    using at [OF that(1)] at [OF that(2)] that(3) queue_invD(5) [OF inv] by blast
qed

lemma run_thread_phase:
  assumes "run_thread t s = Some s'"
  obtains paths ph where "thread_at s t paths ph" "run_phase t ph s = Some s'"
  using assms by (auto simp: run_thread_def thread_at_def split: if_splits option.splits)

lemma run_thread_inv:
  assumes inv: "queue_inv cwd s" and "run_thread t s = Some s'"
  shows "queue_inv cwd s'"
proof -
  obtain paths ph where t: "thread_at s t paths ph" and r: "run_phase t ph s = Some s'" by (rule run_thread_phase [OF assms(2)])
  note ok = queue_invD(2) [OF inv t] and refs = queue_invD(3) [OF inv t] and set_inv = set_phase_inv [OF inv t]
  show ?thesis
  proof (cases ph)
    case (WantLookup ks)
    with r ok show ?thesis by (auto simp: run_phase_def split: if_splits intro!: set_inv)
  next
    case (PruneLookup n ks)
    with r ok have "s' = prune_item t (\<lambda>i. PruneLookup i ks) n s \<and> n < length (mq_entries s) \<or> s' = set_phase t (Lookup ks []) s"
      by (auto simp: run_phase_def split: if_splits)
    then show ?thesis
    proof
      assume "s' = set_phase t (Lookup ks []) s"
      with ok PruneLookup show ?thesis by (auto intro!: set_inv)
    qed (use prune_item_inv [OF inv t] ok PruneLookup in auto)
  next
    case (Lookup ks ids)
    show ?thesis
    proof (cases ks)
      case Nil
      with r ok refs Lookup show ?thesis by (auto simp: run_phase_def intro!: set_inv)
    next
      case (Cons key rest)
      obtain e s2 where e: "entry_for key s = (e, s2)" by (cases "entry_for key s")
      with r Lookup Cons show ?thesis using lookup_inv [OF inv _ e, of t paths rest ids] t by (simp add: run_phase_def)
    qed
  next
    case (Acquire es k)
    show ?thesis
    proof (cases "k < length es")
      case True
      with r Acquire have s': "mutex_free s (es ! k)" "s' = set_phase t (Acquire es (Suc k)) s" by (auto simp: run_phase_def split: if_splits)
      show ?thesis unfolding s'(2)
        by (rule set_inv) (use ok refs Acquire True s'(1) in \<open>auto simp: take_Suc_conv_app_nth\<close>)
    next
      case False
      with r Acquire have s': "s' = set_phase t (Unlock es 0) s" by (simp add: run_phase_def)
      show ?thesis unfolding s' by (rule set_inv) (use ok refs Acquire False in auto)
    qed
  next
    case (Unlock es j)
    have "set (drop (Suc j) es) \<subseteq> set (drop j es)" by (rule set_drop_subset_set_drop) simp
    with r ok refs Unlock show ?thesis by (auto simp: run_phase_def split: if_splits intro!: set_inv)
  next
    case (DropRefs es)
    with r refs show ?thesis by (auto simp: run_phase_def split: list.splits intro!: set_inv)
  next
    case WantPrune
    with r show ?thesis by (auto simp: run_phase_def split: if_splits intro!: set_inv)
  next
    case (PruneReset n)
    with r have "s' = prune_item t PruneReset n s \<and> n < length (mq_entries s) \<or> s' = s\<lparr>mq_threads := (mq_threads s)[t := None]\<rparr>"
      by (auto simp: run_phase_def split: if_splits)
    then show ?thesis
      using prune_item_inv [OF inv t, of n PruneReset] PruneReset idle_inv [OF inv] by auto
  qed
qed

lemma call_inv:
  assumes inv: "queue_inv cwd s" and "t < length (mq_threads s)" "mq_threads s ! t = None"
  shows "queue_inv cwd (lock_paths cwd t paths s)"
proof (cases "request_keys cwd paths = []")
  case False
  let ?s = "s\<lparr>mq_threads := (mq_threads s)[t := Some (paths, WantLookup (request_keys cwd paths))]\<rparr>"
  have at: "thread_at s u p ph \<or> u = t \<and> p = paths \<and> ph = WantLookup (request_keys cwd paths)" if "thread_at ?s u p ph" for u p ph
    using that by (cases "u = t") (auto simp: thread_at_def)
  note same = table_cong [of ?s s, simplified]
  have "queue_inv cwd ?s"
  proof (rule queue_invI)
    show "table_ok ?s" using same queue_invD(1) [OF inv] by simp
    show "thread_ok cwd ?s p ph" if "thread_at ?s u p ph" for u p ph
      using at [OF that] queue_invD(2) [OF inv] thread_ok_cong [of ?s s] same by auto
    show "registered ?s e" if "thread_at ?s u p ph" "e \<in> set (phase_refs ph)" for u p ph e
      using at [OF that(1)] that(2) queue_invD(3) [OF inv] same by auto
    show "\<not> (in_entries_mutex ph \<and> in_entries_mutex ph')" if "thread_at ?s u p ph" "thread_at ?s v q ph'" "u \<noteq> v" for u v p q ph ph'
      using at [OF that(1)] at [OF that(2)] that(3) queue_invD(4) [OF inv, of u p ph v q ph'] by auto
    show "set (phase_locked ph) \<inter> set (phase_locked ph') = {}" if "thread_at ?s u p ph" "thread_at ?s v q ph'" "u \<noteq> v" for u v p q ph ph'
      using at [OF that(1)] at [OF that(2)] that(3) queue_invD(5) [OF inv, of u p ph v q ph'] by auto
  qed
  with False show ?thesis by (simp add: lock_paths_def Let_def)
qed (use inv in \<open>simp add: lock_paths_def\<close>)

lemma reachable_inv: "queue_reachable cwd n s \<Longrightarrow> queue_inv cwd s"
proof (induction rule: queue_reachable.induct)
  case start
  have "\<not> thread_at (empty_queue n) t p ph" for t p ph by (auto simp: thread_at_def empty_queue_def)
  moreover have "table_ok (empty_queue n)" by (simp add: empty_queue_def table_ok_def)
  ultimately show ?case by (intro queue_invI) blast+
next
  case (step s s')
  from step(2) show ?case
    by (cases rule: queue_step.cases) (use step(3) call_inv run_thread_inv in blast)+
qed

section \<open>Mutual exclusion\<close>

lemma same_key_same_entry:
  assumes "table_ok s" "registered s e" "registered s e'" "key_at s e = key_at s e'"
  shows "e = e'"
proof -
  obtain i j where i: "i < length (mq_entries s)" "snd (mq_entries s ! i) = e" and j: "j < length (mq_entries s)" "snd (mq_entries s ! j) = e'"
    using assms(2,3) unfolding registered_nth by blast
  have "map (path_parts \<circ> fst) (mq_entries s) ! i = map (path_parts \<circ> fst) (mq_entries s) ! j"
    using table_item(2) [OF assms(1) i(1)] table_item(2) [OF assms(1) j(1)] i j assms(4) by simp
  then have "i = j" using assms(1) i(1) j(1) nth_eq_iff_index_eq [of "map (path_parts \<circ> fst) (mq_entries s)" i j] by (simp add: table_ok_def)
  with i j show ?thesis by simp
qed

text \<open>A thread holds the lock of its request when every mutex of it is locked.\<close>

definition holds_lock :: "mutation_queue \<Rightarrow> nat \<Rightarrow> string list \<Rightarrow> bool" where
  "holds_lock s t paths \<longleftrightarrow> (\<exists>es. thread_at s t paths (Acquire es (length es)))"

text \<open>
  C5: two threads never hold locks for the same file at the same time: the normalized paths of
  the requests they hold differ, in every state that any interleaving of the threads reaches.
\<close>

theorem mutation_queue_exclusive:
  assumes "queue_reachable cwd n s" "holds_lock s t paths" "holds_lock s u paths'" "t \<noteq> u" "p \<in> set paths" "q \<in> set paths'"
  shows "\<not> path_eq (normalized_key cwd p) (normalized_key cwd q)"
proof
  assume eq: "path_eq (normalized_key cwd p) (normalized_key cwd q)"
  note inv = reachable_inv [OF assms(1)]
  obtain es es' where t: "thread_at s t paths (Acquire es (length es))" and u: "thread_at s u paths' (Acquire es' (length es'))"
    using assms(2,3) by (auto simp: holds_lock_def)
  have "path_parts (normalized_key cwd p) \<in> key_at s ` set es" "path_parts (normalized_key cwd q) \<in> key_at s ` set es'"
    using queue_invD(2) [OF inv t] queue_invD(2) [OF inv u] request_keys_set [of cwd paths] request_keys_set [of cwd paths'] assms(5,6)
    by (metis (no_types, lifting) image_eqI image_image list.set_map thread_ok.simps(4))+
  then obtain e e' where e: "e \<in> set es" "e' \<in> set es'" "key_at s e = key_at s e'" using eq by (auto simp: path_eq_def)
  then have "e = e'" using same_key_same_entry [OF queue_invD(1) [OF inv]] queue_invD(3) [OF inv t] queue_invD(3) [OF inv u] by simp
  then show False using queue_invD(5) [OF inv t u assms(4)] e by auto
qed

section \<open>No deadlock\<close>

lemma blocked_phase:
  assumes "run_phase t ph s = None" "entries_mutex_free s"
  obtains es k where "ph = Acquire es k" "k < length es" "\<not> mutex_free s (es ! k)"
  using assms by (cases ph) (auto simp: run_phase_def Let_def split: if_splits list.splits prod.splits)

lemma in_mutex_runs: "in_entries_mutex ph \<Longrightarrow> run_phase t ph s \<noteq> None"
  by (cases ph) (auto simp: run_phase_def Let_def split: list.splits prod.splits)

text \<open>The thread whose wanted key is the greatest waits for a thread that wants a greater one.\<close>

lemma holder_wants_more:
  assumes inv: "queue_inv cwd s" and u: "thread_at s u q (Acquire es k)" and k: "k < length es" and e: "e \<in> set (take k es)"
  shows "key_at s e < key_at s (es ! k)"
proof -
  obtain i where i: "i < k" "es ! i = e" using e k by (auto simp: in_set_conv_nth)
  have "sorted_wrt (<) (map (key_at s) es)" using queue_invD(2) [OF inv u] request_keys_sorted [of cwd q] by simp
  then show ?thesis using i k by (auto simp: sorted_wrt_iff_nth_less)
qed

lemma run_thread_at: "thread_at s t p ph \<Longrightarrow> run_thread t s = run_phase t ph s"
  by (simp add: run_thread_def thread_at_def)

lemma some_thread_runs:
  assumes inv: "queue_inv cwd s" and active: "thread_at s t0 p0 ph0"
  shows "\<exists>t s'. run_thread t s = Some s'"
proof (rule ccontr)
  assume "\<not> ?thesis"
  then have stuck: "run_phase t ph s = None" if "thread_at s t p ph" for t p ph
    using run_thread_at [OF that] by (cases "run_phase t ph s") auto
  have free: "entries_mutex_free s" unfolding entries_mutex_free_def no_thread_iff using stuck in_mutex_runs by blast
  define wanted where "wanted = {(t, es, k). \<exists>p. thread_at s t p (Acquire es k) \<and> k < length es \<and> \<not> mutex_free s (es ! k)}"
  have blocked: "\<exists>es k. ph = Acquire es k \<and> (t, es, k) \<in> wanted" if "thread_at s t p ph" for t p ph
    using blocked_phase [OF stuck [OF that] free] that unfolding wanted_def by blast
  have "wanted \<subseteq> (\<lambda>t. case mq_threads s ! t of Some (p, Acquire es k) \<Rightarrow> (t, es, k) | _ \<Rightarrow> (t, [], 0)) ` {..<length (mq_threads s)}"
    by (force simp: wanted_def thread_at_def)
  then have "finite wanted" by (rule finite_subset) simp
  define keys where "keys = (\<lambda>(t, es, k). key_at s (es ! k)) ` wanted"
  have keys: "finite keys" "keys \<noteq> {}" using \<open>finite wanted\<close> blocked [OF active] by (auto simp: keys_def)
  obtain t es k where m: "(t, es, k) \<in> wanted" "key_at s (es ! k) = Max keys"
    using Max_in [OF keys] by (auto simp: keys_def)
  then obtain u q ph where u: "thread_at s u q ph" "es ! k \<in> set (phase_locked ph)" by (auto simp: wanted_def mutex_free_def no_thread_iff)
  obtain es' k' where w: "ph = Acquire es' k'" "(u, es', k') \<in> wanted" using blocked [OF u(1)] by blast
  then have "k' < length es'" by (simp add: wanted_def)
  then have "key_at s (es ! k) < key_at s (es' ! k')" using holder_wants_more [OF inv] u w(1) by simp
  moreover have "key_at s (es' ! k') \<in> keys" using w(2) by (force simp: keys_def)
  ultimately show False using Max_ge [OF keys(1)] m(2) by (metis leD)
qed

section \<open>Every schedule ends\<close>

fun phase_pending :: "phase \<Rightarrow> nat" where
  "phase_pending (WantLookup ks) = length ks"
| "phase_pending (PruneLookup n ks) = length ks"
| "phase_pending (Lookup ks ids) = length ks"
| "phase_pending _ = 0"

fun phase_work :: "nat \<Rightarrow> phase \<Rightarrow> nat" where
  "phase_work b (WantLookup ks) = 4 * length ks + 2 * b + 10"
| "phase_work b (PruneLookup n ks) = (b - n) + 4 * length ks + b + 8"
| "phase_work b (Lookup ks ids) = length ks + 3 * (length ks + length ids) + b + 7"
| "phase_work b (Acquire es k) = (length es - k) + 2 * length es + b + 6"
| "phase_work b (Unlock es j) = (length es - j) + length es + b + 5"
| "phase_work b (DropRefs es) = length es + b + 4"
| "phase_work b WantPrune = b + 3"
| "phase_work b (PruneReset n) = (b - n) + 1"

definition thread_sum :: "(phase \<Rightarrow> nat) \<Rightarrow> (string list \<times> phase) option list \<Rightarrow> nat" where
  "thread_sum f ths = sum_list (map (\<lambda>th. case th of None \<Rightarrow> 0 | Some (p, ph) \<Rightarrow> f ph) ths)"

text \<open>The table never grows beyond its entries and the keys that are still to be looked up.\<close>

definition table_bound :: "mutation_queue \<Rightarrow> nat" where
  "table_bound s = length (mq_entries s) + thread_sum phase_pending (mq_threads s)"

definition queue_work :: "mutation_queue \<Rightarrow> nat" where
  "queue_work s = thread_sum (phase_work (table_bound s)) (mq_threads s)"

lemma thread_sum_update:
  assumes "t < length ths"
  shows "thread_sum f (ths[t := x]) + (case ths ! t of None \<Rightarrow> 0 | Some (p, ph) \<Rightarrow> f ph) = thread_sum f ths + (case x of None \<Rightarrow> 0 | Some (p, ph) \<Rightarrow> f ph)"
  using assms
proof (induction ths arbitrary: t)
  case (Cons th ths)
  then show ?case by (cases t) (simp_all add: thread_sum_def)
qed simp

lemma thread_sum_mono: "(\<And>ph. f ph \<le> g ph) \<Longrightarrow> thread_sum f ths \<le> thread_sum g ths"
  unfolding thread_sum_def by (induction ths) (auto split: option.split intro: add_mono)

lemma phase_work_mono: "b \<le> b' \<Longrightarrow> phase_work b ph \<le> phase_work b' ph"
  by (cases ph) auto

text \<open>One thread moved on, nobody else: less work if that thread has less.\<close>

lemma queue_work_less:
  assumes t: "thread_at s t p ph" and ths: "mq_threads s' = (mq_threads s)[t := x]" and bound: "table_bound s' \<le> table_bound s"
    and less: "(case x of None \<Rightarrow> 0 | Some (q, ph') \<Rightarrow> phase_work (table_bound s') ph') < phase_work (table_bound s) ph"
  shows "queue_work s' < queue_work s"
proof -
  define f where "f = phase_work (table_bound s')"
  have old: "f ph \<le> phase_work (table_bound s) ph" using phase_work_mono [OF bound] by (simp add: f_def)
  have at: "t < length (mq_threads s)" "mq_threads s ! t = Some (p, ph)" using t by (simp_all add: thread_at_def)
  have "thread_sum f (mq_threads s') + f ph = thread_sum f (mq_threads s) + (case x of None \<Rightarrow> 0 | Some (q, ph') \<Rightarrow> f ph')"
    using thread_sum_update [OF at(1), of f x] at(2) ths by simp
  moreover have "thread_sum f (mq_threads s) + phase_work (table_bound s) ph \<le> thread_sum (phase_work (table_bound s)) (mq_threads s) + f ph"
  proof -
    have "thread_sum f ((mq_threads s)[t := None]) \<le> thread_sum (phase_work (table_bound s)) ((mq_threads s)[t := None])"
      by (rule thread_sum_mono) (simp add: f_def phase_work_mono [OF bound])
    then show ?thesis using thread_sum_update [OF at(1), of f None] thread_sum_update [OF at(1), of "phase_work (table_bound s)" None] at(2) by simp
  qed
  ultimately show ?thesis using less [folded f_def] unfolding queue_work_def f_def [symmetric] by linarith
qed

lemma pending_update:
  assumes t: "thread_at s t p ph" and ths: "mq_threads s' = (mq_threads s)[t := x]"
  shows "thread_sum phase_pending (mq_threads s') + phase_pending ph =
    thread_sum phase_pending (mq_threads s) + (case x of None \<Rightarrow> 0 | Some (q, ph') \<Rightarrow> phase_pending ph')"
  using thread_sum_update [of t "mq_threads s" phase_pending x] t ths by (simp add: thread_at_def)

lemma set_phase_threads: "thread_at s t p ph \<Longrightarrow> mq_threads (set_phase t ph' s) = (mq_threads s)[t := Some (p, ph')]"
  by (simp add: set_phase_def thread_at_def)

lemma set_phase_less:
  assumes t: "thread_at s t p ph" and "phase_pending ph' \<le> phase_pending ph"
    and "\<And>b. length (mq_entries s) \<le> b \<Longrightarrow> phase_work b ph' < phase_work b ph"
  shows "queue_work (set_phase t ph' s) < queue_work s"
proof -
  have b: "table_bound (set_phase t ph' s) \<le> table_bound s"
    using pending_update [OF t set_phase_threads [OF t, of ph']] assms(2) by (simp add: table_bound_def)
  have "phase_work (table_bound (set_phase t ph' s)) ph' \<le> phase_work (table_bound s) ph'" by (rule phase_work_mono [OF b])
  also have "\<dots> < phase_work (table_bound s) ph" by (rule assms(3)) (simp add: table_bound_def)
  finally show ?thesis using b by (intro queue_work_less [OF t set_phase_threads [OF t, of ph']]) simp_all
qed

lemma prune_item_less:
  assumes t: "thread_at s t p (resume n)" and n: "n < length (mq_entries s)"
    and resume: "\<And>i. phase_pending (resume i) = phase_pending (resume n)"
      "\<And>b b' i. b - i < b' - n \<Longrightarrow> b \<le> b' \<Longrightarrow> phase_work b (resume i) < phase_work b' (resume n)"
  shows "queue_work (prune_item t resume n s) < queue_work s"
proof (cases "expired s (snd (mq_entries s ! n))")
  case True
  let ?s = "s\<lparr>mq_entries := take n (mq_entries s) @ drop (Suc n) (mq_entries s)\<rparr>"
  let ?s' = "set_phase t (resume n) ?s"
  have ths: "mq_threads ?s' = (mq_threads s)[t := Some (p, resume n)]" using t by (simp add: set_phase_def thread_at_def)
  have b: "table_bound ?s' + 1 = table_bound s" using pending_update [OF t ths] n by (simp add: table_bound_def)
  have "n < table_bound s" using n by (simp add: table_bound_def)
  then have "queue_work ?s' < queue_work s" using b resume by (intro queue_work_less [OF t ths]) auto
  with True show ?thesis by (simp add: prune_item_def)
next
  case False
  have "queue_work (set_phase t (resume (Suc n)) s) < queue_work s"
    using n resume(1) [of "Suc n"] resume(2) by (intro set_phase_less [OF t]) (simp_all add: diff_less_mono2)
  with False show ?thesis by (simp add: prune_item_def)
qed

lemma entry_for_bound:
  assumes "entry_for key s = (e, s2)"
  shows "mq_threads s2 = mq_threads s \<and> length (mq_entries s2) \<le> Suc (length (mq_entries s))"
  using assms by (auto simp: entry_for_def Let_def split: option.splits if_splits)

lemma lookup_less:
  assumes t: "thread_at s t p (Lookup (key # rest) ids)" and e: "entry_for key s = (e, s2)"
  shows "queue_work (set_phase t (Lookup rest (ids @ [e])) s2) < queue_work s"
proof -
  let ?s' = "set_phase t (Lookup rest (ids @ [e])) s2"
  note s2 = entry_for_bound [OF e]
  have ths: "mq_threads ?s' = (mq_threads s)[t := Some (p, Lookup rest (ids @ [e]))]" using t s2 by (simp add: set_phase_def thread_at_def)
  have b: "table_bound ?s' \<le> table_bound s" using pending_update [OF t ths] s2 by (simp add: table_bound_def)
  then show ?thesis by (intro queue_work_less [OF t ths]) simp_all
qed

lemma run_thread_less:
  assumes "run_thread t s = Some s'"
  shows "queue_work s' < queue_work s"
proof -
  obtain p ph where t: "thread_at s t p ph" and r: "run_phase t ph s = Some s'" by (rule run_thread_phase [OF assms])
  note less = set_phase_less [OF t]
  show ?thesis
  proof (cases ph)
    case (PruneLookup n ks)
    show ?thesis
    proof (cases "n < length (mq_entries s)")
      case True
      with r PruneLookup t show ?thesis
        using prune_item_less [of s t p "\<lambda>i. PruneLookup i ks" n] by (simp add: run_phase_def)
    next
      case False
      with r PruneLookup show ?thesis using less [of "Lookup ks []"] by (simp add: run_phase_def)
    qed
  next
    case (Lookup ks ids)
    show ?thesis
    proof (cases ks)
      case Nil
      with r Lookup show ?thesis using less [of "Acquire ids 0"] by (simp add: run_phase_def)
    next
      case (Cons key rest)
      obtain e s2 where e: "entry_for key s = (e, s2)" by (cases "entry_for key s")
      with r Lookup Cons t show ?thesis using lookup_less [OF _ e, of t p rest ids] by (simp add: run_phase_def)
    qed
  next
    case (PruneReset n)
    show ?thesis
    proof (cases "n < length (mq_entries s)")
      case True
      with r PruneReset t show ?thesis using prune_item_less [of s t p PruneReset n] by (simp add: run_phase_def)
    next
      case False
      with r PruneReset have s': "s' = s\<lparr>mq_threads := (mq_threads s)[t := None]\<rparr>" by (simp add: run_phase_def)
      then have ths: "mq_threads s' = (mq_threads s)[t := None]" by simp
      have "table_bound s' \<le> table_bound s" using pending_update [OF t ths] s' PruneReset by (simp add: table_bound_def)
      then show ?thesis using PruneReset by (intro queue_work_less [OF t ths]) simp_all
    qed
  qed (use r in \<open>auto simp: run_phase_def split: if_splits list.splits intro!: less\<close>)
qed

text \<open>A schedule names the thread to advance next, each one able to move.\<close>

fun run_all :: "nat list \<Rightarrow> mutation_queue \<Rightarrow> mutation_queue option" where
  "run_all [] s = Some s"
| "run_all (t # ts) s = (case run_thread t s of None \<Rightarrow> None | Some s' \<Rightarrow> run_all ts s')"

definition all_idle :: "mutation_queue \<Rightarrow> bool" where
  "all_idle s \<longleftrightarrow> list_all (\<lambda>th. th = None) (mq_threads s)"

lemma run_all_work: "run_all ts s = Some s' \<Longrightarrow> length ts + queue_work s' \<le> queue_work s"
proof (induction ts arbitrary: s)
  case (Cons t ts)
  then obtain s1 where "run_thread t s = Some s1" "run_all ts s1 = Some s'" by (auto split: option.splits)
  with Cons(1) run_thread_less show ?case by fastforce
qed simp

lemma run_all_inv: "queue_inv cwd s \<Longrightarrow> run_all ts s = Some s' \<Longrightarrow> queue_inv cwd s'"
  by (induction ts arbitrary: s) (auto split: option.splits dest: run_thread_inv)

lemma stopped_idle:
  assumes inv: "queue_inv cwd s" and "\<And>t. run_thread t s = None"
  shows "all_idle s"
proof (rule ccontr)
  assume "\<not> all_idle s"
  then obtain t p ph where "thread_at s t p ph" by (auto simp: all_idle_def list_all_length thread_at_def)
  with some_thread_runs [OF inv] assms(2) show False by fastforce
qed

lemma run_all_append: "run_all (ts @ us) s = (case run_all ts s of None \<Rightarrow> None | Some s' \<Rightarrow> run_all us s')"
  by (induction ts arbitrary: s) (auto split: option.split)

lemma run_to_idle: "queue_inv cwd s \<Longrightarrow> \<exists>ts s'. run_all ts s = Some s' \<and> all_idle s'"
proof (induction "queue_work s" arbitrary: s rule: less_induct)
  case less
  show ?case
  proof (cases "\<forall>t. run_thread t s = None")
    case True
    then show ?thesis using stopped_idle [OF less(2)] by (intro exI [where x = "[]"]) simp
  next
    case False
    then obtain t s1 where s1: "run_thread t s = Some s1" by auto
    obtain ts s' where "run_all ts s1 = Some s'" "all_idle s'"
      using less(1) [OF run_thread_less [OF s1] run_thread_inv [OF less(2) s1]] by blast
    with s1 show ?thesis by (intro exI [where x = "t # ts"]) simp
  qed
qed

text \<open>
  C6: the queue cannot deadlock and every request is served. From every reachable state, no
  matter in which order the threads that can move are advanced, the number of steps is bounded,
  and when no thread can move any more every request has got its locks and given them back; such
  a schedule exists from every reachable state. Holders of a lock are taken to give it back.
\<close>

theorem mutation_queue_live:
  assumes "queue_reachable cwd n s"
  shows "(\<forall>ts s'. run_all ts s = Some s' \<longrightarrow> length ts \<le> queue_work s \<and> ((\<forall>t. run_thread t s' = None) \<longrightarrow> all_idle s')) \<and>
    (\<exists>ts s'. run_all ts s = Some s' \<and> all_idle s')"
proof -
  note inv = reachable_inv [OF assms]
  have "length ts \<le> queue_work s" if "run_all ts s = Some s'" for ts s' using run_all_work [OF that] by simp
  moreover have "all_idle s'" if "run_all ts s = Some s'" "\<forall>t. run_thread t s' = None" for ts s'
    using stopped_idle [OF run_all_inv [OF inv that(1)]] that(2) by blast
  ultimately show ?thesis using run_to_idle [OF inv] by blast
qed

section \<open>A run of two threads\<close>

lemma run_all_reachable: "queue_reachable cwd n s \<Longrightarrow> run_all ts s = Some s' \<Longrightarrow> queue_reachable cwd n s'"
proof (induction ts arbitrary: s)
  case (Cons t ts)
  then obtain s1 where "run_thread t s = Some s1" "run_all ts s1 = Some s'" by (auto split: option.splits)
  with Cons show ?case using queue_reachable.step queue_step.run by blast
qed simp

definition first_locked :: mutation_queue where
  "first_locked = the (run_all [0, 0, 0, 0, 0] (lock_paths ''/'' 0 [''a'', ''/b/../a''] (empty_queue 2)))"

definition both_locked :: mutation_queue where
  "both_locked = the (run_all [1, 1, 1, 1, 1, 1] (lock_paths ''/'' 1 [''b''] first_locked))"

lemma both_locked_reachable: "queue_reachable ''/'' 2 both_locked"
proof -
  have first: "run_all [0, 0, 0, 0, 0] (lock_paths ''/'' 0 [''a'', ''/b/../a''] (empty_queue 2)) = Some first_locked" by code_simp
  have second: "run_all [1, 1, 1, 1, 1, 1] (lock_paths ''/'' 1 [''b''] first_locked) = Some both_locked" by code_simp
  have idle: "mq_threads (empty_queue 2) ! 0 = None" "length (mq_threads (empty_queue 2)) = 2" by (simp_all add: empty_queue_def)
  have idle1: "mq_threads first_locked ! 1 = None" "length (mq_threads first_locked) = 2" by code_simp+
  have "queue_reachable ''/'' 2 (lock_paths ''/'' 0 [''a'', ''/b/../a''] (empty_queue 2))"
    by (rule queue_reachable.step [OF queue_reachable.start]) (rule queue_step.call, simp_all add: idle)
  then have "queue_reachable ''/'' 2 first_locked" by (rule run_all_reachable [OF _ first])
  then have "queue_reachable ''/'' 2 (lock_paths ''/'' 1 [''b''] first_locked)"
    by (rule queue_reachable.step) (rule queue_step.call, simp add: idle1, rule idle1)
  then show ?thesis by (rule run_all_reachable [OF _ second])
qed

lemma both_locked_threads: "mq_threads both_locked = [Some ([''a'', ''/b/../a''], Acquire [0] 1), Some ([''b''], Acquire [1] 1)]"
  by code_simp

theorem mutation_queue_exclusive_witness:
  "holds_lock both_locked 0 [''a'', ''/b/../a''] \<and> holds_lock both_locked 1 [''b''] \<and>
   \<not> path_eq (normalized_key ''/'' ''a'') (normalized_key ''/'' ''b'')"
proof -
  have h: "holds_lock both_locked 0 [''a'', ''/b/../a'']" "holds_lock both_locked 1 [''b'']"
    unfolding holds_lock_def thread_at_def both_locked_threads
    by (rule exI [where x = "[0]"], simp, rule exI [where x = "[1]"], simp)
  show ?thesis using h mutation_queue_exclusive [OF both_locked_reachable h, of "''a''" "''b''"] by simp
qed

theorem mutation_queue_live_witness:
  "\<exists>ts s'. run_all ts both_locked = Some s' \<and> all_idle s'"
  using mutation_queue_live [OF both_locked_reachable] by blast

end
