(* ===== verification/Sse_Buffer.thy ===== *)
theory Sse_Buffer
  imports Text_Core
begin

text \<open>
  The framing that all provider families share: \<^verbatim>\<open>provider/parser_budget.h\<close>. A response arrives in
  chunks; \<^verbatim>\<open>ProviderSseBuffer\<close> cuts it into lines and records, hands every record to the family's
  decoder and charges the events against one budget.

  The decoder and the final step of a family are parameters, as in the source, where they are
  template arguments: functions of the family's own state \<open>'d\<close>, of the budget (a decoder may charge
  fragments it retains) and of the record, which return the events they append. Byte counts are
  natural numbers; the subtractions of the source never wrap because of \<open>budget_ok\<close> and \<open>buffer_ok\<close>.
\<close>

section \<open>Events and budget\<close>

datatype stream_event_type =
    TextStart | TextDelta | TextEnd | ReasoningStart | ReasoningDelta | ReasoningEnd | ToolCallStart | ToolCallDelta | ToolCallEnd
  | DoneEvent | ErrorEvent

datatype assistant_phase = UnknownPhase | Commentary | FinalAnswer

datatype finish_reason = FinishCompleted | FinishMaxTokens | FinishToolCalls | FinishRefusal | FinishCancelled | FinishError

record token_usage =
  input_tokens :: "int option"
  output_tokens :: "int option"
  reasoning_tokens :: "int option"
  cache_read_tokens :: "int option"
  cache_write_tokens :: "int option"
  total_tokens :: "int option"
  estimated_input_bytes :: "int option"
  estimated_output_bytes :: "int option"
  estimated_total_bytes :: "int option"
  estimated :: bool

record stream_event =
  se_type :: stream_event_type
  se_text :: string
  se_tool_call_id :: string
  se_tool_name :: string
  se_error_message :: string
  se_usage :: "token_usage option"
  se_provider_item_id :: string
  se_provider_output_index :: "nat option"
  se_assistant_phase :: assistant_phase
  se_finish_reason :: "finish_reason option"
  se_reasoning_format :: string
  se_reasoning_signature :: string
  se_reasoning_redacted_data :: string
  se_reasoning_native_item_json :: string
  se_redacted :: bool
  se_reasoning_signature_present :: bool

definition kMaxProviderParserEvents :: nat where
  "kMaxProviderParserEvents = 4096"

definition kMaxProviderSseBufferedBytes :: nat where
  "kMaxProviderSseBufferedBytes = 256 * 1024"

record parser_budget =
  bg_records :: nat
  bg_events :: nat
  bg_fragment_bytes :: nat
  bg_metadata_bytes :: nat

definition empty_budget :: parser_budget where
  "empty_budget = \<lparr>bg_records = 0, bg_events = 0, bg_fragment_bytes = 0, bg_metadata_bytes = 0\<rparr>"

definition budget_record :: "string \<Rightarrow> parser_budget \<Rightarrow> bool \<times> parser_budget" where
  "budget_record data b =
     (if length data \<le> kMaxProviderSseBufferedBytes
      then (bg_records b + 1 \<le> kMaxProviderParserEvents, b\<lparr>bg_records := bg_records b + 1\<rparr>)
      else (False, b))"

definition budget_fragment :: "string \<Rightarrow> parser_budget \<Rightarrow> bool \<times> parser_budget" where
  "budget_fragment v b =
     (if length v > kMaxProviderSseBufferedBytes - bg_fragment_bytes b then (False, b)
      else (True, b\<lparr>bg_fragment_bytes := bg_fragment_bytes b + length v\<rparr>))"

definition budget_metadata :: "string \<Rightarrow> parser_budget \<Rightarrow> bool \<times> parser_budget" where
  "budget_metadata v b =
     (if length v > kMaxProviderSseBufferedBytes - bg_metadata_bytes b then (False, b)
      else (True, b\<lparr>bg_metadata_bytes := bg_metadata_bytes b + length v\<rparr>))"

fun charge_all :: "(string \<Rightarrow> parser_budget \<Rightarrow> bool \<times> parser_budget) \<Rightarrow> string list \<Rightarrow> parser_budget \<Rightarrow> bool \<times> parser_budget" where
  "charge_all charge [] b = (True, b)"
| "charge_all charge (v # vs) b = (case charge v b of (False, b2) \<Rightarrow> (False, b2) | (True, b2) \<Rightarrow> charge_all charge vs b2)"

definition fragment_fields :: "stream_event \<Rightarrow> string list" where
  "fragment_fields e = [se_text e, se_reasoning_signature e, se_reasoning_redacted_data e]"

definition metadata_fields_of :: "stream_event \<Rightarrow> string list" where
  "metadata_fields_of e =
     [se_tool_call_id e, se_tool_name e, se_provider_item_id e, se_reasoning_format e, se_reasoning_native_item_json e]"

definition budget_event :: "stream_event \<Rightarrow> parser_budget \<Rightarrow> bool \<times> parser_budget" where
  "budget_event e b =
     (if bg_events b \<ge> kMaxProviderParserEvents - 1 then (False, b)
      else
        (case charge_all budget_fragment (fragment_fields e) b of
           (False, b2) \<Rightarrow> (False, b2)
         | (True, b2) \<Rightarrow>
             (case charge_all budget_metadata (metadata_fields_of e) b2 of
                (False, b3) \<Rightarrow> (False, b3)
              | (True, b3) \<Rightarrow> (True, b3\<lparr>bg_events := bg_events b3 + 1\<rparr>))))"

definition provider_parser_limit_event :: "string \<Rightarrow> stream_event" where
  "provider_parser_limit_event family =
     \<lparr>se_type = ErrorEvent, se_text = [], se_tool_call_id = [], se_tool_name = [], se_error_message = family @ '' response parser limit exceeded'',
      se_usage = None, se_provider_item_id = [], se_provider_output_index = None, se_assistant_phase = UnknownPhase,
      se_finish_reason = None, se_reasoning_format = [], se_reasoning_signature = [], se_reasoning_redacted_data = [],
      se_reasoning_native_item_json = [], se_redacted = False, se_reasoning_signature_present = False\<rparr>"

fun within_budget :: "stream_event list \<Rightarrow> parser_budget \<Rightarrow> bool" where
  "within_budget [] b = True"
| "within_budget (e # es) b = (case budget_event e b of (False, b2) \<Rightarrow> False | (True, b2) \<Rightarrow> within_budget es b2)"

definition bounded_provider_events :: "stream_event list \<Rightarrow> string \<Rightarrow> stream_event list" where
  "bounded_provider_events events family =
     (if within_budget events empty_budget then events else [provider_parser_limit_event family])"

section \<open>The buffer\<close>

record sse_buffer =
  sb_budget :: parser_budget
  sb_pending_line :: string
  sb_data :: string
  sb_scan_offset :: nat
  sb_failed :: bool

definition empty_buffer :: sse_buffer where
  "empty_buffer = \<lparr>sb_budget = empty_budget, sb_pending_line = [], sb_data = [], sb_scan_offset = 0, sb_failed = False\<rparr>"

type_synonym 'd decoder = "'d \<Rightarrow> parser_budget \<Rightarrow> string \<Rightarrow> stream_event list \<times> 'd \<times> parser_budget"
type_synonym 'd completer = "'d \<Rightarrow> parser_budget \<Rightarrow> stream_event list \<times> 'd \<times> parser_budget"
type_synonym 'd sse_state = "sse_buffer \<times> 'd"

definition sse_fail :: "string \<Rightarrow> sse_buffer \<Rightarrow> stream_event list \<times> sse_buffer" where
  "sse_fail family b = ([provider_parser_limit_event family], b\<lparr>sb_failed := True\<rparr>)"

definition is_budget_error :: "string \<Rightarrow> stream_event \<Rightarrow> bool" where
  "is_budget_error family e \<longleftrightarrow>
     se_type e = ErrorEvent \<and> starts_with (se_error_message e) family \<and>
     (drop (length family) (se_error_message e) = '' response parser limit exceeded'' \<or>
      ends_with (se_error_message e) ''exceeded byte limit'')"

text \<open>\<^verbatim>\<open>account\<close> on the events appended last.\<close>

fun account :: "string \<Rightarrow> stream_event list \<Rightarrow> sse_buffer \<Rightarrow> stream_event list \<times> sse_buffer" where
  "account family [] b = ([], b)"
| "account family (e # es) b =
     (case budget_event e (sb_budget b) of
        (False, bg) \<Rightarrow> sse_fail family (b\<lparr>sb_budget := bg\<rparr>)
      | (True, bg) \<Rightarrow>
          if is_budget_error family e then ([e], b\<lparr>sb_budget := bg, sb_failed := True\<rparr>)
          else (let (es2, b2) = account family es (b\<lparr>sb_budget := bg\<rparr>) in (e # es2, b2)))"

definition sse_record :: "'d decoder \<Rightarrow> string \<Rightarrow> 'd sse_state \<Rightarrow> stream_event list \<times> 'd sse_state" where
  "sse_record decode family st =
     (let (b, d) = st in
      (case budget_record (sb_data b) (sb_budget b) of
         (False, bg) \<Rightarrow> (let (events, b2) = sse_fail family (b\<lparr>sb_budget := bg\<rparr>) in (events, (b2\<lparr>sb_data := []\<rparr>, d)))
       | (True, bg) \<Rightarrow>
           (let (decoded, d2, bg2) = decode d bg (sb_data b);
                (events, b2) = account family decoded (b\<lparr>sb_budget := bg2\<rparr>) in
            (events, (b2\<lparr>sb_data := []\<rparr>, d2)))))"

definition strip_return :: "string \<Rightarrow> string" where
  "strip_return raw = (if raw \<noteq> [] \<and> last raw = CHR 0x0D then butlast raw else raw)"

definition data_value :: "string \<Rightarrow> string" where
  "data_value v = (let v1 = drop 5 v in if v1 \<noteq> [] \<and> hd v1 = CHR '' '' then tl v1 else v1)"

definition sse_data :: "string \<Rightarrow> string \<Rightarrow> sse_buffer \<Rightarrow> stream_event list \<times> sse_buffer" where
  "sse_data family v b =
     (let separator = (if sb_data b = [] then 0 else 1) in
      if length v > kMaxProviderSseBufferedBytes - length (sb_data b) \<or>
         separator > kMaxProviderSseBufferedBytes - length (sb_data b) - length v then sse_fail family b
      else ([], b\<lparr>sb_data := sb_data b @ (if separator \<noteq> (0 :: nat) then [CHR 0x0A] else []) @ v\<rparr>))"

definition sse_line :: "'d decoder \<Rightarrow> string \<Rightarrow> string \<Rightarrow> 'd sse_state \<Rightarrow> stream_event list \<times> 'd sse_state" where
  "sse_line decode family raw st =
     (let v = strip_return raw in
      if v = [] then (if sb_data (fst st) \<noteq> [] then sse_record decode family st else ([], st))
      else if \<not> starts_with v ''data:'' then ([], st)
      else (let (events, b) = sse_data family (data_value v) (fst st) in (events, (b, snd st))))"

text \<open>The loop of \<^verbatim>\<open>append\<close> over the pending text: \<open>start\<close> and \<open>search\<close> are its two offsets.\<close>

lemma str_find_from_bound: "str_find_from needle s from = Some i \<Longrightarrow> needle \<noteq> [] \<Longrightarrow> from \<le> i \<and> i < length s"
proof -
  assume a: "str_find_from needle s from = Some i" "needle \<noteq> []"
  then obtain j where j: "str_find needle (drop from s) = Some j" "i = from + j" by (auto simp: str_find_from_def split: if_splits)
  have "prefix needle (drop j (drop from s))" using str_find_SomeD [OF j(1)] by simp
  then have "drop j (drop from s) \<noteq> []" using a(2) by auto
  with j(2) show ?thesis by simp
qed

function append_loop :: "'d decoder \<Rightarrow> string \<Rightarrow> string \<Rightarrow> nat \<Rightarrow> nat \<Rightarrow> 'd sse_state \<Rightarrow> stream_event list \<times> nat \<times> 'd sse_state" where
  "append_loop decode family pending start search st =
     (if sb_failed (fst st) then ([], start, st)
      else
        (case str_find_from [CHR 0x0A] pending search of
           None \<Rightarrow> ([], start, st)
         | Some newline \<Rightarrow>
             (let (events, st2) = sse_line decode family (take (newline - start) (drop start pending)) st;
                  (rest, last_start, st3) = append_loop decode family pending (newline + 1) (newline + 1) st2 in
              (events @ rest, last_start, st3))))"
  by pat_completeness auto
termination
  by (relation "measure (\<lambda>(decode, family, pending, start, search, st). length pending + 1 - search)")
    (auto dest!: str_find_from_bound)

declare append_loop.simps [simp del]

definition sse_append :: "'d decoder \<Rightarrow> string \<Rightarrow> string \<Rightarrow> 'd sse_state \<Rightarrow> stream_event list \<times> 'd sse_state" where
  "sse_append decode family chunk st =
     (let (b, d) = st in
      if sb_failed b then ([], st)
      else if length chunk > kMaxProviderSseBufferedBytes \<or> length (sb_pending_line b) > kMaxProviderSseBufferedBytes - length chunk then
        (let (events, b2) = sse_fail family b in (events, (b2, d)))
      else
        let pending = sb_pending_line b @ chunk;
            (events, start, b3, d3) = append_loop decode family pending 0 (sb_scan_offset b) (b\<lparr>sb_pending_line := pending\<rparr>, d);
            b4 = (if sb_failed b3 then b3\<lparr>sb_pending_line := [], sb_data := []\<rparr>
                  else if start \<noteq> 0 then b3\<lparr>sb_pending_line := drop start pending\<rparr> else b3) in
        (events, (b4\<lparr>sb_scan_offset := length (sb_pending_line b4)\<rparr>, d3)))"

definition sse_finish :: "'d decoder \<Rightarrow> 'd completer \<Rightarrow> string \<Rightarrow> 'd sse_state \<Rightarrow> stream_event list \<times> 'd sse_state" where
  "sse_finish decode complete family st =
     (let (e1, st1) = (if \<not> sb_failed (fst st) \<and> sb_pending_line (fst st) \<noteq> [] then sse_line decode family (sb_pending_line (fst st)) st else ([], st));
          (e2, st2) = (if \<not> sb_failed (fst st1) \<and> sb_data (fst st1) \<noteq> [] then sse_record decode family st1 else ([], st1));
          (e3, st3) = (if \<not> sb_failed (fst st2) then
                         (let (b, d) = st2; (completed, d2, bg) = complete d (sb_budget b);
                              (events, b2) = account family completed (b\<lparr>sb_budget := bg\<rparr>) in (events, (b2, d2)))
                       else ([], st2)) in
      (e1 @ e2 @ e3, (empty_buffer, snd st3)))"

definition retain_fragment :: "string \<Rightarrow> sse_buffer \<Rightarrow> bool \<times> sse_buffer" where
  "retain_fragment v b = (let (ok, bg) = budget_fragment v (sb_budget b) in (ok, b\<lparr>sb_budget := bg\<rparr>))"

section \<open>Lines of a whole response\<close>

text \<open>The complete lines of a text and the rest behind the last line feed.\<close>

fun cut_lines :: "string \<Rightarrow> string list \<times> string" where
  "cut_lines [] = ([], [])"
| "cut_lines (c # s) =
     (let (ls, r) = cut_lines s in
      if c = CHR 0x0A then ([] # ls, r)
      else (case ls of [] \<Rightarrow> ([], c # r) | l # ls2 \<Rightarrow> ((c # l) # ls2, r)))"

fun run_lines :: "'d decoder \<Rightarrow> string \<Rightarrow> string list \<Rightarrow> 'd sse_state \<Rightarrow> stream_event list \<times> 'd sse_state" where
  "run_lines decode family [] st = ([], st)"
| "run_lines decode family (l # ls) st =
     (if sb_failed (fst st) then ([], st)
      else
        let (events, st2) = sse_line decode family l st; (rest, st3) = run_lines decode family ls st2 in
        (events @ rest, st3))"

text \<open>The state behind the lines \<open>st\<close> has processed, with \<open>r\<close> not yet complete.\<close>

definition settle :: "string \<Rightarrow> 'd sse_state \<Rightarrow> 'd sse_state" where
  "settle r st =
     (let (b, d) = st in
      if sb_failed b then (b\<lparr>sb_pending_line := [], sb_data := [], sb_scan_offset := 0\<rparr>, d)
      else (b\<lparr>sb_pending_line := r, sb_scan_offset := length r\<rparr>, d))"

fun feed :: "'d decoder \<Rightarrow> string \<Rightarrow> string list \<Rightarrow> 'd sse_state \<Rightarrow> stream_event list \<times> 'd sse_state" where
  "feed decode family [] st = ([], st)"
| "feed decode family (c # cs) st =
     (let (events, st2) = sse_append decode family c st; (rest, st3) = feed decode family cs st2 in (events @ rest, st3))"

text \<open>No chunk is refused for its size: the text that waits for its line end and the chunk fit the buffer.\<close>

fun admitted :: "'d decoder \<Rightarrow> string \<Rightarrow> string list \<Rightarrow> 'd sse_state \<Rightarrow> bool" where
  "admitted decode family [] st = True"
| "admitted decode family (c # cs) st \<longleftrightarrow>
     (sb_failed (fst st) \<or> length (sb_pending_line (fst st)) + length c \<le> kMaxProviderSseBufferedBytes) \<and>
     admitted decode family cs (snd (sse_append decode family c st))"

definition buffer_ok :: "sse_buffer \<Rightarrow> bool" where
  "buffer_ok b \<longleftrightarrow> (if sb_failed b then sb_pending_line b = [] \<and> sb_data b = [] \<and> sb_scan_offset b = 0
     else CHR 0x0A \<notin> set (sb_pending_line b) \<and> sb_scan_offset b = length (sb_pending_line b))"

lemma cut_lines_no_feed: "CHR 0x0A \<notin> set s \<Longrightarrow> cut_lines s = ([], s)"
  by (induction s) auto

lemma cut_lines_line: "CHR 0x0A \<notin> set l \<Longrightarrow> cut_lines (l @ CHR 0x0A # s) = (l # fst (cut_lines s), snd (cut_lines s))"
  by (induction l) (auto simp: case_prod_beta)

lemma cut_lines_rest: "CHR 0x0A \<notin> set (snd (cut_lines s))"
  by (induction s) (auto simp: case_prod_beta split: list.splits)

lemma cut_lines_append:
  "cut_lines (a @ b) = (fst (cut_lines a) @ fst (cut_lines (snd (cut_lines a) @ b)), snd (cut_lines (snd (cut_lines a) @ b)))"
proof (induction "length a" arbitrary: a rule: less_induct)
  case less
  show ?case
  proof (cases "CHR 0x0A \<in> set a")
    case False
    then show ?thesis by (simp add: cut_lines_no_feed)
  next
    case True
    then obtain l s where a: "a = l @ CHR 0x0A # s" "CHR 0x0A \<notin> set l" by (meson split_list_first)
    have "cut_lines (s @ b) = (fst (cut_lines s) @ fst (cut_lines (snd (cut_lines s) @ b)), snd (cut_lines (snd (cut_lines s) @ b)))"
      using less [of s] a by simp
    with a show ?thesis by (simp add: cut_lines_line)
  qed
qed

lemma run_lines_failed [simp]: "sb_failed (fst st) \<Longrightarrow> run_lines decode family ls st = ([], st)"
  by (cases ls) auto

lemma run_lines_append:
  "run_lines decode family (ls @ ms) st =
     (let (e1, st1) = run_lines decode family ls st; (e2, st2) = run_lines decode family ms st1 in (e1 @ e2, st2))"
  by (induction ls arbitrary: st) (auto simp: case_prod_beta)

section \<open>The pending text does not matter to a line\<close>

definition with_pending :: "string \<Rightarrow> nat \<Rightarrow> 'd sse_state \<Rightarrow> 'd sse_state" where
  "with_pending p n st = ((fst st)\<lparr>sb_pending_line := p, sb_scan_offset := n\<rparr>, snd st)"

lemma with_pending_simps [simp]:
  "sb_failed (fst (with_pending p n st)) = sb_failed (fst st)" "sb_data (fst (with_pending p n st)) = sb_data (fst st)"
  "sb_budget (fst (with_pending p n st)) = sb_budget (fst st)" "snd (with_pending p n st) = snd st"
  "with_pending p n (with_pending q m st) = with_pending p n st"
  by (simp_all add: with_pending_def)

lemma account_with_pending:
  "account family es (b\<lparr>sb_pending_line := p, sb_scan_offset := n\<rparr>) =
     (fst (account family es b), (snd (account family es b))\<lparr>sb_pending_line := p, sb_scan_offset := n\<rparr>)"
proof (induction es arbitrary: b)
  case (Cons e es)
  obtain ok bg where bg: "budget_event e (sb_budget b) = (ok, bg)" by (cases "budget_event e (sb_budget b)")
  show ?case using bg Cons [of "b\<lparr>sb_budget := bg\<rparr>"]
    by (cases b; cases ok) (simp_all add: sse_fail_def case_prod_beta)
qed simp

lemma record_with_pending:
  "sse_record decode family (with_pending p n st) =
     (fst (sse_record decode family st), with_pending p n (snd (sse_record decode family st)))"
proof -
  obtain b d where st: "st = (b, d)" by (cases st)
  obtain ok bg where bg: "budget_record (sb_data b) (sb_budget b) = (ok, bg)" by (cases "budget_record (sb_data b) (sb_budget b)")
  obtain es d2 bg2 where dec: "decode d bg (sb_data b) = (es, d2, bg2)" by (cases "decode d bg (sb_data b)")
  show ?thesis
    using bg dec account_with_pending [where b = "b\<lparr>sb_budget := bg2\<rparr>" and family = family and es = es and p = p and n = n]
    by (cases b; cases ok) (simp_all add: st sse_record_def with_pending_def sse_fail_def case_prod_beta)
qed

lemma data_with_pending:
  "sse_data family v (b\<lparr>sb_pending_line := p, sb_scan_offset := n\<rparr>) =
     (fst (sse_data family v b), (snd (sse_data family v b))\<lparr>sb_pending_line := p, sb_scan_offset := n\<rparr>)"
  by (cases b) (simp add: sse_data_def sse_fail_def Let_def)

lemma line_with_pending:
  "sse_line decode family l (with_pending p n st) =
     (fst (sse_line decode family l st), with_pending p n (snd (sse_line decode family l st)))"
  using record_with_pending [of decode family p n st] data_with_pending [where b = "fst st" and v = "data_value (strip_return l)"]
  unfolding sse_line_def Let_def by (auto simp: with_pending_def case_prod_beta)

lemma lines_with_pending:
  "run_lines decode family ls (with_pending p n st) =
     (fst (run_lines decode family ls st), with_pending p n (snd (run_lines decode family ls st)))"
  by (induction ls arbitrary: st) (simp_all add: line_with_pending case_prod_beta)

section \<open>The loop processes the complete lines\<close>

lemma find_feed_None: "str_find_from [c] s from = None \<Longrightarrow> from \<le> length s \<Longrightarrow> c \<notin> set (drop from s)"
proof
  assume a: "str_find_from [c] s from = None" "from \<le> length s" "c \<in> set (drop from s)"
  then have none: "str_find [c] (drop from s) = None" by (simp add: str_find_from_def)
  obtain x y where "drop from s = x @ c # y" "c \<notin> set x" using a(3) by (meson split_list_first)
  then have "prefix [c] (drop (length x) (drop from s))" "length x \<le> length (drop from s)" by simp_all
  with str_find_NoneD [OF none] show False by blast
qed

lemma find_feed_Some:
  assumes "str_find_from [c] s from = Some i" "start \<le> from" "c \<notin> set (take (from - start) (drop start s))"
  shows "drop start s = take (i - start) (drop start s) @ c # drop (i + 1) s" "c \<notin> set (take (i - start) (drop start s))" "i < length s" "start \<le> i"
proof -
  obtain j where j: "str_find [c] (drop from s) = Some j" "i = from + j" "from \<le> length s"
    using assms(1) by (auto simp: str_find_from_def split: if_splits)
  have f: "j < length (drop from s)" "drop from s ! j = c" "\<forall>k < j. drop from s ! k \<noteq> c" using j(1) by (simp_all add: str_find_single)
  then have "i < length s" "s ! i = c" using j by (simp_all add: nth_drop)
  then show "i < length s" "start \<le> i" using assms(2) j(2) by simp_all
  have split: "drop start s ! (i - start) = c" "i - start < length (drop start s)" using \<open>i < length s\<close> \<open>s ! i = c\<close> assms(2) j(2) by (simp_all add: nth_drop)
  then show "drop start s = take (i - start) (drop start s) @ c # drop (i + 1) s"
    using id_take_nth_drop [OF split(2)] assms(2) j(2) by (simp add: add.commute)
  have "take (i - start) (drop start s) = take (from - start) (drop start s) @ take j (drop from s)"
    using assms(2) j(2) take_add [of "from - start" j "drop start s"] by (simp add: add.commute)
  moreover have "c \<notin> set (take j (drop from s))" using f by (auto simp: in_set_conv_nth)
  ultimately show "c \<notin> set (take (i - start) (drop start s))" using assms(3) by simp
qed

lemma append_loop_lines:
  assumes "start \<le> search" "search \<le> length pending" "CHR 0x0A \<notin> set (take (search - start) (drop start pending))"
  shows "\<exists>last_start. append_loop decode family pending start search st =
      (fst (run_lines decode family (fst (cut_lines (drop start pending))) st), last_start,
       snd (run_lines decode family (fst (cut_lines (drop start pending))) st)) \<and>
    (\<not> sb_failed (fst (snd (run_lines decode family (fst (cut_lines (drop start pending))) st))) \<longrightarrow>
       drop last_start pending = snd (cut_lines (drop start pending)))"
  using assms
proof (induction "length pending + 1 - search" arbitrary: start search st rule: less_induct)
  case less
  show ?case
  proof (cases "sb_failed (fst st)")
    case True
    then show ?thesis by (simp add: append_loop.simps)
  next
    case running: False
    show ?thesis
    proof (cases "str_find_from [CHR 0x0A] pending search")
      case None
      have "drop start pending = take (search - start) (drop start pending) @ drop search pending"
        using less(2) append_take_drop_id [of "search - start" "drop start pending"] by simp
      then have "CHR 0x0A \<notin> set (drop start pending)" using find_feed_None [OF None less(3)] less(4) by (metis Un_iff set_append)
      then show ?thesis using None running by (simp add: append_loop.simps cut_lines_no_feed)
    next
      case (Some i)
      note f = find_feed_Some [OF Some less(2,4)]
      let ?l = "take (i - start) (drop start pending)"
      have cut: "cut_lines (drop start pending) = (?l # fst (cut_lines (drop (i + 1) pending)), snd (cut_lines (drop (i + 1) pending)))"
        by (subst f(1)) (rule cut_lines_line [OF f(2)])
      obtain events st2 where line: "sse_line decode family ?l st = (events, st2)" by (cases "sse_line decode family ?l st")
      have "search \<le> i" using str_find_from_bound [OF Some] by simp
      then have shorter: "length pending + 1 - (i + 1) < length pending + 1 - search" using f(3) by simp
      obtain last_start where "append_loop decode family pending (i + 1) (i + 1) st2 =
          (fst (run_lines decode family (fst (cut_lines (drop (i + 1) pending))) st2), last_start,
           snd (run_lines decode family (fst (cut_lines (drop (i + 1) pending))) st2))"
        "\<not> sb_failed (fst (snd (run_lines decode family (fst (cut_lines (drop (i + 1) pending))) st2))) \<longrightarrow>
           drop last_start pending = snd (cut_lines (drop (i + 1) pending))"
        using less(1) [OF shorter, of "i + 1" st2] f(3) by auto
      then show ?thesis using running Some line unfolding cut
        by (intro exI [where x = last_start]) (simp add: append_loop.simps [of decode family pending start search st] case_prod_beta)
    qed
  qed
qed

section \<open>Chunk boundaries do not matter\<close>

lemma append_step:
  assumes ok: "buffer_ok (fst st)" and fits: "length (sb_pending_line (fst st)) + length c \<le> kMaxProviderSseBufferedBytes"
    and running: "\<not> sb_failed (fst st)"
    and R_def: "R = run_lines decode family (fst (cut_lines (sb_pending_line (fst st) @ c))) st"
  shows "sse_append decode family c st = (fst R, settle (snd (cut_lines (sb_pending_line (fst st) @ c))) (snd R))"
proof -
  obtain b d where st: "st = (b, d)" by (cases st)
  let ?p = "sb_pending_line b @ c"
  have b: "CHR 0x0A \<notin> set (sb_pending_line b)" "sb_scan_offset b = length (sb_pending_line b)" using ok running by (simp_all add: buffer_ok_def st)
  have R: "R = run_lines decode family (fst (cut_lines ?p)) st" by (simp add: R_def st)
  have "(b\<lparr>sb_pending_line := ?p\<rparr>, d) = with_pending ?p (sb_scan_offset b) st" by (cases b) (simp add: with_pending_def st)
  then obtain last_start where loop: "append_loop decode family ?p 0 (sb_scan_offset b) (b\<lparr>sb_pending_line := ?p\<rparr>, d) =
      (fst R, last_start, with_pending ?p (sb_scan_offset b) (snd R))"
    "\<not> sb_failed (fst (snd R)) \<longrightarrow> drop last_start ?p = snd (cut_lines ?p)"
    using append_loop_lines [of 0 "sb_scan_offset b" ?p decode family "with_pending ?p (sb_scan_offset b) st"] b
    by (auto simp: lines_with_pending R)
  have size: "\<not> length c > kMaxProviderSseBufferedBytes" "\<not> length (sb_pending_line b) > kMaxProviderSseBufferedBytes - length c"
    using fits by (simp_all add: st)
  obtain b3 d3 where R3: "snd R = (b3, d3)" by (cases "snd R")
  show ?thesis
    using loop size running R3 by (cases b3) (auto simp: sse_append_def st settle_def with_pending_def Let_def simp del: drop_append)
qed

lemma settle_ok: "CHR 0x0A \<notin> set r \<Longrightarrow> buffer_ok (fst (settle r st))"
  by (auto simp: settle_def buffer_ok_def case_prod_beta)

lemma settle_pending: "\<not> sb_failed (fst st) \<Longrightarrow> sb_pending_line (fst (settle r st)) = r"
  "sb_failed (fst (settle r st)) = sb_failed (fst st)"
  by (simp_all add: settle_def case_prod_beta)

lemma settle_running: "\<not> sb_failed (fst st) \<Longrightarrow> settle r st = with_pending r (length r) st"
  by (simp add: settle_def with_pending_def case_prod_beta)

lemma settle_with_pending [simp]: "settle r (with_pending p n st) = settle r st"
  by (cases "fst st") (simp add: settle_def with_pending_def case_prod_beta)

lemma settle_failed: "sb_failed (fst st) \<Longrightarrow> settle r st = settle q st"
  by (simp add: settle_def case_prod_beta)

lemma feed_failed: "sb_failed (fst st) \<Longrightarrow> feed decode family cs st = ([], st)"
  by (induction cs) (auto simp: sse_append_def case_prod_beta)

lemma feed_lines:
  assumes "buffer_ok (fst st)" "\<not> sb_failed (fst st)" "admitted decode family cs st" "whole = sb_pending_line (fst st) @ concat cs"
  shows "feed decode family cs st =
    (fst (run_lines decode family (fst (cut_lines whole)) st), settle (snd (cut_lines whole)) (snd (run_lines decode family (fst (cut_lines whole)) st)))"
  using assms(1-3) unfolding assms(4)
proof (induction cs arbitrary: st)
  case Nil
  then have "cut_lines (sb_pending_line (fst st)) = ([], sb_pending_line (fst st))" "sb_scan_offset (fst st) = length (sb_pending_line (fst st))"
    by (simp_all add: buffer_ok_def cut_lines_no_feed)
  moreover have "settle (sb_pending_line (fst st)) st = st" using Nil calculation(2)
    by (cases "fst st") (auto simp: settle_def case_prod_beta prod_eq_iff)
  ultimately show ?case by simp
next
  case (Cons c cs)
  define p where "p = sb_pending_line (fst st)"
  define l r where "l = fst (cut_lines (p @ c))" and "r = snd (cut_lines (p @ c))"
  define E S where "E = fst (run_lines decode family l st)" and "S = snd (run_lines decode family l st)"
  have step: "sse_append decode family c st = (E, settle r S)"
    using append_step [OF Cons(2) _ _ refl, of c decode family] Cons(3,4) by (simp add: E_def S_def l_def r_def p_def)
  have cut: "cut_lines (p @ c @ concat cs) = (l @ fst (cut_lines (r @ concat cs)), snd (cut_lines (r @ concat cs)))"
    using cut_lines_append [of "p @ c" "concat cs"] by (simp add: l_def r_def)
  have run: "run_lines decode family (l @ ms) st = (E @ fst (run_lines decode family ms S), snd (run_lines decode family ms S))" for ms
    by (simp add: run_lines_append E_def S_def case_prod_beta)
  show ?case
  proof (cases "sb_failed (fst S)")
    case True
    then have "feed decode family cs (settle r S) = ([], settle r S)" by (intro feed_failed) (simp add: settle_pending)
    with True step show ?thesis by (simp add: cut run p_def [symmetric] settle_failed [OF True, of r])
  next
    case False
    have rest: "CHR 0x0A \<notin> set r" by (simp add: r_def cut_lines_rest)
    have adm: "admitted decode family cs (settle r S)" using Cons(4) step by simp
    have "feed decode family cs (settle r S) =
        (fst (run_lines decode family (fst (cut_lines (r @ concat cs))) (settle r S)),
         settle (snd (cut_lines (r @ concat cs))) (snd (run_lines decode family (fst (cut_lines (r @ concat cs))) (settle r S))))"
      using Cons(1) [OF settle_ok [OF rest, of S] _ adm] False by (simp add: settle_pending)
    with False step show ?thesis by (simp add: cut run p_def [symmetric] settle_running lines_with_pending)
  qed
qed

text \<open>
  C14: cutting a response into chunks changes nothing. As long as no chunk is refused for its
  size, feeding the chunks one by one yields exactly the events and the state of processing the
  complete lines of the whole text once, with the incomplete last line still pending; so any two
  ways to cut the same text agree.
\<close>

theorem sse_chunks_refine_lines:
  assumes "admitted decode family cs (empty_buffer, d)"
  shows "feed decode family cs (empty_buffer, d) =
      (let (lines, rest) = cut_lines (concat cs); (events, st) = run_lines decode family lines (empty_buffer, d) in (events, settle rest st)) \<and>
    (admitted decode family ds (empty_buffer, d) \<and> concat ds = concat cs \<longrightarrow>
       feed decode family ds (empty_buffer, d) = feed decode family cs (empty_buffer, d))"
proof -
  have ok: "buffer_ok (fst (empty_buffer, d))" "\<not> sb_failed (fst (empty_buffer, d))" by (simp_all add: buffer_ok_def empty_buffer_def)
  have pending: "sb_pending_line empty_buffer = []" by (simp add: empty_buffer_def)
  show ?thesis
    using feed_lines [OF ok assms refl] feed_lines [OF ok _ refl, of decode family ds] by (auto simp: pending case_prod_beta)
qed

lemma cut_lines_length: "length (snd (cut_lines s)) \<le> length s"
  by (induction s) (auto simp: case_prod_beta split: list.splits)

text \<open>A response that fits the buffer as a whole is never refused.\<close>

lemma admitted_short:
  assumes "buffer_ok (fst st)" "length (sb_pending_line (fst st)) + length (concat cs) \<le> kMaxProviderSseBufferedBytes"
  shows "admitted decode family cs st"
  using assms
proof (induction cs arbitrary: st)
  case (Cons c cs)
  show ?case
  proof (cases "sb_failed (fst st)")
    case True
    then have "sse_append decode family c st = ([], st)" by (simp add: sse_append_def case_prod_beta)
    with Cons True show ?thesis by simp
  next
    case False
    define r where "r = snd (cut_lines (sb_pending_line (fst st) @ c))"
    define S where "S = snd (run_lines decode family (fst (cut_lines (sb_pending_line (fst st) @ c))) st)"
    have step: "snd (sse_append decode family c st) = settle r S"
      using append_step [OF Cons(2) _ False refl, of c decode family] Cons(3) by (simp add: r_def S_def)
    have "length r \<le> length (sb_pending_line (fst st)) + length c" using cut_lines_length [of "sb_pending_line (fst st) @ c"] by (simp add: r_def)
    then have "length (sb_pending_line (fst (settle r S))) \<le> length (sb_pending_line (fst st)) + length c" by (simp add: settle_def case_prod_beta)
    moreover have "buffer_ok (fst (settle r S))" by (rule settle_ok) (simp add: r_def cut_lines_rest)
    ultimately have "admitted decode family cs (settle r S)" using Cons(3) by (intro Cons(1)) simp_all
    with step Cons(3) show ?thesis by simp
  qed
qed simp

theorem sse_chunks_refine_lines_witness:
  "feed (\<lambda>d bg data. ([], data # d, bg)) ''OpenAI'' [''data: a'', [CHR 0x0A, CHR 0x0A] @ ''data:'', '' b'', [CHR 0x0D, CHR 0x0A, CHR 0x0A]] (empty_buffer, []) =
   feed (\<lambda>d bg data. ([], data # d, bg)) ''OpenAI'' [''data: a'' @ [CHR 0x0A, CHR 0x0A] @ ''data: b'' @ [CHR 0x0D, CHR 0x0A, CHR 0x0A]] (empty_buffer, [])"
proof -
  have a: "admitted (\<lambda>d bg data. ([], data # d, bg)) ''OpenAI'' [''data: a'', [CHR 0x0A, CHR 0x0A] @ ''data:'', '' b'', [CHR 0x0D, CHR 0x0A, CHR 0x0A]] (empty_buffer, [])"
    "admitted (\<lambda>d bg data. ([], data # d, bg)) ''OpenAI'' [''data: a'' @ [CHR 0x0A, CHR 0x0A] @ ''data: b'' @ [CHR 0x0D, CHR 0x0A, CHR 0x0A]] (empty_buffer, [])"
    by (rule admitted_short; simp add: buffer_ok_def empty_buffer_def kMaxProviderSseBufferedBytes_def)+
  show ?thesis by (rule mp [OF conjunct2 [OF sse_chunks_refine_lines [OF a(2)]]]) (rule conjI [OF a(1)], simp)
qed

section \<open>What a response can cost\<close>

definition budget_ok :: "parser_budget \<Rightarrow> bool" where
  "budget_ok b \<longleftrightarrow> bg_events b < kMaxProviderParserEvents \<and> bg_fragment_bytes b \<le> kMaxProviderSseBufferedBytes \<and>
     bg_metadata_bytes b \<le> kMaxProviderSseBufferedBytes"

definition fragment_bytes :: "stream_event list \<Rightarrow> nat" where
  "fragment_bytes es = sum_list (map (\<lambda>e. length (concat (fragment_fields e))) es)"

definition metadata_bytes :: "stream_event list \<Rightarrow> nat" where
  "metadata_bytes es = sum_list (map (\<lambda>e. length (concat (metadata_fields_of e))) es)"

lemma charge_fragments:
  assumes "charge_all budget_fragment vs b = (ok, b2)" "budget_ok b"
  shows "budget_ok b2 \<and> bg_events b2 = bg_events b \<and> bg_metadata_bytes b2 = bg_metadata_bytes b \<and> bg_fragment_bytes b \<le> bg_fragment_bytes b2 \<and>
    (ok \<longrightarrow> bg_fragment_bytes b2 = bg_fragment_bytes b + length (concat vs))"
  using assms
proof (induction vs arbitrary: b)
  case (Cons v vs)
  show ?case
  proof (cases "length v > kMaxProviderSseBufferedBytes - bg_fragment_bytes b")
    case True
    with Cons(2,3) show ?thesis by (auto simp: budget_fragment_def)
  next
    case False
    let ?b = "b\<lparr>bg_fragment_bytes := bg_fragment_bytes b + length v\<rparr>"
    have "budget_fragment v b = (True, ?b)" using False by (simp add: budget_fragment_def)
    then have "charge_all budget_fragment vs ?b = (ok, b2)" using Cons(2) by simp
    moreover have "budget_ok ?b" using Cons(3) False by (auto simp: budget_ok_def)
    ultimately show ?thesis using Cons(1) [of ?b] by simp
  qed
qed simp

lemma charge_metadata:
  assumes "charge_all budget_metadata vs b = (ok, b2)" "budget_ok b"
  shows "budget_ok b2 \<and> bg_events b2 = bg_events b \<and> bg_fragment_bytes b2 = bg_fragment_bytes b \<and> bg_metadata_bytes b \<le> bg_metadata_bytes b2 \<and>
    (ok \<longrightarrow> bg_metadata_bytes b2 = bg_metadata_bytes b + length (concat vs))"
  using assms
proof (induction vs arbitrary: b)
  case (Cons v vs)
  show ?case
  proof (cases "length v > kMaxProviderSseBufferedBytes - bg_metadata_bytes b")
    case True
    with Cons(2,3) show ?thesis by (auto simp: budget_metadata_def)
  next
    case False
    let ?b = "b\<lparr>bg_metadata_bytes := bg_metadata_bytes b + length v\<rparr>"
    have "budget_metadata v b = (True, ?b)" using False by (simp add: budget_metadata_def)
    then have "charge_all budget_metadata vs ?b = (ok, b2)" using Cons(2) by simp
    moreover have "budget_ok ?b" using Cons(3) False by (auto simp: budget_ok_def)
    ultimately show ?thesis using Cons(1) [of ?b] by simp
  qed
qed simp

lemma budget_event_charge:
  assumes "budget_event e b = (ok, b2)" "budget_ok b"
  shows "budget_ok b2 \<and> bg_fragment_bytes b \<le> bg_fragment_bytes b2 \<and> bg_metadata_bytes b \<le> bg_metadata_bytes b2 \<and> bg_events b \<le> bg_events b2 \<and>
    (ok \<longrightarrow> bg_events b2 = bg_events b + 1 \<and> bg_fragment_bytes b2 = bg_fragment_bytes b + fragment_bytes [e] \<and>
       bg_metadata_bytes b2 = bg_metadata_bytes b + metadata_bytes [e])"
proof (cases "bg_events b \<ge> kMaxProviderParserEvents - 1")
  case True
  with assms show ?thesis by (auto simp: budget_event_def)
next
  case False
  obtain ok1 b1 where c1: "charge_all budget_fragment (fragment_fields e) b = (ok1, b1)" by (cases "charge_all budget_fragment (fragment_fields e) b")
  note f = charge_fragments [OF c1 assms(2)]
  obtain ok3 b3 where c3: "charge_all budget_metadata (metadata_fields_of e) b1 = (ok3, b3)"
    by (cases "charge_all budget_metadata (metadata_fields_of e) b1")
  have m: "budget_ok b3 \<and> bg_events b3 = bg_events b1 \<and> bg_fragment_bytes b3 = bg_fragment_bytes b1 \<and> bg_metadata_bytes b1 \<le> bg_metadata_bytes b3 \<and>
    (ok3 \<longrightarrow> bg_metadata_bytes b3 = bg_metadata_bytes b1 + length (concat (metadata_fields_of e)))" using charge_metadata [OF c3] f by blast
  show ?thesis
    using assms False f m c1 c3
    by (cases ok1; cases ok3) (auto simp: budget_event_def budget_ok_def fragment_bytes_def metadata_bytes_def)
qed

text \<open>
  What has been delivered so far, \<open>out\<close>, is paid for by the budget; only the last diagnostic, which
  carries no content, may be extra, and nothing follows it.
\<close>

definition paid :: "stream_event list \<Rightarrow> sse_buffer \<Rightarrow> bool" where
  "paid out b \<longleftrightarrow> budget_ok (sb_budget b) \<and> length out \<le> bg_events (sb_budget b) + (if sb_failed b then 1 else 0) \<and>
     fragment_bytes out \<le> bg_fragment_bytes (sb_budget b) \<and> metadata_bytes out \<le> bg_metadata_bytes (sb_budget b)"

lemma bytes_append [simp]:
  "fragment_bytes (a @ b) = fragment_bytes a + fragment_bytes b" "metadata_bytes (a @ b) = metadata_bytes a + metadata_bytes b"
  "fragment_bytes [] = 0" "metadata_bytes [] = 0"
  "fragment_bytes [provider_parser_limit_event f] = 0" "metadata_bytes [provider_parser_limit_event f] = 0"
  by (simp_all add: fragment_bytes_def metadata_bytes_def provider_parser_limit_event_def fragment_fields_def metadata_fields_of_def)

lemma fail_paid:
  assumes "paid out b" "\<not> sb_failed b"
  shows "paid (out @ fst (sse_fail family b)) (snd (sse_fail family b))"
  using assms by (simp add: paid_def sse_fail_def)

lemma paid_budget:
  assumes "paid out b" "budget_ok bg" "bg_events (sb_budget b) \<le> bg_events bg" "bg_fragment_bytes (sb_budget b) \<le> bg_fragment_bytes bg"
    "bg_metadata_bytes (sb_budget b) \<le> bg_metadata_bytes bg"
  shows "paid out (b\<lparr>sb_budget := bg\<rparr>)"
  using assms by (auto simp: paid_def)

lemma account_paid:
  "paid out b \<Longrightarrow> \<not> sb_failed b \<Longrightarrow> paid (out @ fst (account family es b)) (snd (account family es b))"
proof (induction es arbitrary: out b)
  case (Cons e es)
  obtain ok bg where bg: "budget_event e (sb_budget b) = (ok, bg)" by (cases "budget_event e (sb_budget b)")
  have "budget_ok (sb_budget b)" using Cons(2) by (simp add: paid_def)
  note c = budget_event_charge [OF bg this]
  show ?case
  proof (cases ok)
    case False
    have "paid out (b\<lparr>sb_budget := bg\<rparr>)" using c by (intro paid_budget [OF Cons(2)]) simp_all
    then show ?thesis using False bg Cons(3) fail_paid [of out "b\<lparr>sb_budget := bg\<rparr>" family] by simp
  next
    case True
    then have p: "paid (out @ [e]) (b\<lparr>sb_budget := bg\<rparr>)" using c Cons(2,3) by (auto simp: paid_def)
    show ?thesis
    proof (cases "is_budget_error family e")
      case True
      with p bg \<open>ok\<close> Cons(3) show ?thesis by (simp add: paid_def)
    next
      case False
      with Cons(1) [OF p] Cons(3) bg \<open>ok\<close> show ?thesis by (simp add: case_prod_beta)
    qed
  qed
qed simp

text \<open>A decoder may charge fragments it keeps; it cannot refund anything or count events itself.\<close>

definition charges :: "parser_budget \<Rightarrow> parser_budget \<Rightarrow> bool" where
  "charges bg bg2 \<longleftrightarrow> bg_events bg2 = bg_events bg \<and> bg_metadata_bytes bg2 = bg_metadata_bytes bg \<and> bg_fragment_bytes bg \<le> bg_fragment_bytes bg2 \<and>
     (bg_fragment_bytes bg \<le> kMaxProviderSseBufferedBytes \<longrightarrow> bg_fragment_bytes bg2 \<le> kMaxProviderSseBufferedBytes)"

definition charging_decoder :: "'d decoder \<Rightarrow> bool" where
  "charging_decoder decode \<longleftrightarrow> (\<forall>d bg data. charges bg (snd (snd (decode d bg data))))"

definition charging_completer :: "'d completer \<Rightarrow> bool" where
  "charging_completer complete \<longleftrightarrow> (\<forall>d bg. charges bg (snd (snd (complete d bg))))"

lemma retain_fragment_charges: "charges (sb_budget b) (sb_budget (snd (retain_fragment v b)))"
  by (auto simp: retain_fragment_def budget_fragment_def charges_def)

lemma charges_paid: "paid out b \<Longrightarrow> charges (sb_budget b) bg \<Longrightarrow> paid out (b\<lparr>sb_budget := bg\<rparr>)"
  by (auto simp: paid_def charges_def budget_ok_def)

lemma paid_cong: "sb_budget b' = sb_budget b \<Longrightarrow> sb_failed b' = sb_failed b \<Longrightarrow> paid out b' = paid out b"
  by (simp add: paid_def)

lemma record_paid:
  assumes "charging_decoder decode" "paid out (fst st)" "\<not> sb_failed (fst st)"
  shows "paid (out @ fst (sse_record decode family st)) (fst (snd (sse_record decode family st)))"
proof -
  obtain b d where st: "st = (b, d)" by (cases st)
  obtain ok bg where bg: "budget_record (sb_data b) (sb_budget b) = (ok, bg)" by (cases "budget_record (sb_data b) (sb_budget b)")
  have "charges (sb_budget b) bg" using bg by (auto simp: budget_record_def charges_def split: if_splits)
  then have p: "paid out (b\<lparr>sb_budget := bg\<rparr>)" using assms(2) by (intro charges_paid) (simp_all add: st)
  show ?thesis
  proof (cases ok)
    case False
    then show ?thesis using fail_paid [OF p, of family] assms(3) bg by (simp add: st sse_record_def sse_fail_def paid_def)
  next
    case True
    obtain es d2 bg2 where dec: "decode d bg (sb_data b) = (es, d2, bg2)" by (cases "decode d bg (sb_data b)")
    have "charges bg bg2" using assms(1) dec unfolding charging_decoder_def by (metis snd_conv)
    then have "paid out (b\<lparr>sb_budget := bg2\<rparr>)" using charges_paid [OF p, of bg2] by simp
    then show ?thesis using account_paid [of out "b\<lparr>sb_budget := bg2\<rparr>" family es] assms(3) bg dec True
      by (simp add: st sse_record_def case_prod_beta paid_def)
  qed
qed

lemma line_paid:
  assumes "charging_decoder decode" "paid out (fst st)" "\<not> sb_failed (fst st)"
  shows "paid (out @ fst (sse_line decode family l st)) (fst (snd (sse_line decode family l st)))"
  using record_paid [OF assms, of family] assms(2,3) fail_paid [OF assms(2,3), of family]
  by (auto simp: sse_line_def sse_data_def Let_def case_prod_beta paid_def)

lemma append_loop_paid:
  "charging_decoder decode \<Longrightarrow> paid out (fst st) \<Longrightarrow>
    paid (out @ fst (append_loop decode family pending start search st)) (fst (snd (snd (append_loop decode family pending start search st))))"
proof (induction decode family pending start search st arbitrary: out rule: append_loop.induct)
  case (1 decode family pending start search st)
  show ?case
  proof (cases "sb_failed (fst st) \<or> str_find_from [CHR 0x0A] pending search = None")
    case True
    then show ?thesis using "1.prems" by (subst append_loop.simps, subst append_loop.simps) auto
  next
    case False
    then obtain i where running: "\<not> sb_failed (fst st)" and i: "str_find_from [CHR 0x0A] pending search = Some i" by auto
    let ?l = "take (i - start) (drop start pending)"
    obtain es st2 where l: "sse_line decode family ?l st = (es, st2)" by (cases "sse_line decode family ?l st")
    have "paid (out @ es) (fst st2)" using line_paid [OF "1.prems" running, of family ?l] l by simp
    from "1.IH" [OF running i l [symmetric] refl "1.prems"(1) this]
    have "paid ((out @ es) @ fst (append_loop decode family pending (i + 1) (i + 1) st2))
        (fst (snd (snd (append_loop decode family pending (i + 1) (i + 1) st2))))" .
    then show ?thesis using running i l by (simp add: append_loop.simps [of decode family pending start search st] case_prod_beta)
  qed
qed

lemma append_paid:
  assumes "charging_decoder decode" "paid out (fst st)"
  shows "paid (out @ fst (sse_append decode family chunk st)) (fst (snd (sse_append decode family chunk st)))"
proof -
  obtain b d where st: "st = (b, d)" by (cases st)
  have "paid out (fst (b\<lparr>sb_pending_line := sb_pending_line b @ chunk\<rparr>, d))" using assms(2) by (simp add: st paid_def)
  note loop = append_loop_paid [OF assms(1) this, of family "sb_pending_line b @ chunk" 0 "sb_scan_offset b"]
  show ?thesis using loop assms(2) fail_paid [of out b family]
    by (auto simp: st sse_append_def Let_def case_prod_beta paid_def)
qed

lemma feed_paid:
  assumes "charging_decoder decode" "paid out (fst st)"
  shows "paid (out @ fst (feed decode family cs st)) (fst (snd (feed decode family cs st)))"
  using assms(2)
proof (induction cs arbitrary: out st)
  case (Cons c cs)
  show ?case using Cons.IH [OF append_paid [OF assms(1) Cons.prems, of family c]] by (simp add: case_prod_beta)
qed simp

lemma finish_paid:
  assumes "charging_decoder decode" "charging_completer complete" "paid out (fst st)"
  shows "\<exists>b. paid (out @ fst (sse_finish decode complete family st)) b"
proof -
  obtain e1 st1 where e1: "(if \<not> sb_failed (fst st) \<and> sb_pending_line (fst st) \<noteq> [] then sse_line decode family (sb_pending_line (fst st)) st else ([], st)) = (e1, st1)"
    by (meson surj_pair)
  have p1: "paid (out @ e1) (fst st1)"
    using line_paid [OF assms(1,3), of family "sb_pending_line (fst st)"] assms(3) e1 by (auto split: if_splits)
  obtain e2 st2 where e2: "(if \<not> sb_failed (fst st1) \<and> sb_data (fst st1) \<noteq> [] then sse_record decode family st1 else ([], st1)) = (e2, st2)"
    by (meson surj_pair)
  have p2: "paid ((out @ e1) @ e2) (fst st2)" using record_paid [OF assms(1) p1, of family] p1 e2 by (auto split: if_splits)
  obtain b d where st2: "st2 = (b, d)" by (cases st2)
  obtain completed d2 bg where c: "complete d (sb_budget b) = (completed, d2, bg)" by (cases "complete d (sb_budget b)")
  have "charges (sb_budget b) bg" using assms(2) c unfolding charging_completer_def by (metis snd_conv)
  then have p: "paid ((out @ e1) @ e2) (b\<lparr>sb_budget := bg\<rparr>)" using p2 by (intro charges_paid) (simp_all add: st2)
  show ?thesis
  proof (cases "sb_failed b")
    case True
    then show ?thesis using p2 unfolding sse_finish_def Let_def e1 prod.case e2 by (auto simp: st2)
  next
    case False
    then have "paid (((out @ e1) @ e2) @ fst (account family completed (b\<lparr>sb_budget := bg\<rparr>))) (snd (account family completed (b\<lparr>sb_budget := bg\<rparr>)))"
      using account_paid [OF p, of family completed] by simp
    then show ?thesis using False c unfolding sse_finish_def Let_def e1 prod.case e2 by (auto simp: st2 case_prod_beta)
  qed
qed

text \<open>C15: a response delivers at most 4096 events, a diagnostic included, and at most 256 KiB of text and opaque
  reasoning and 256 KiB of identifiers and native items, however its bytes are cut into chunks and whatever the
  family's decoder makes of its records, as long as the decoder charges what it retains to the same budget.\<close>

theorem sse_response_bounded:
  assumes "charging_decoder decode" "charging_completer complete"
  shows "(let (e1, st) = feed decode family cs (empty_buffer, d); (e2, st2) = sse_finish decode complete family st; out = e1 @ e2 in
    length out \<le> kMaxProviderParserEvents \<and> fragment_bytes out \<le> kMaxProviderSseBufferedBytes \<and>
    metadata_bytes out \<le> kMaxProviderSseBufferedBytes \<and> fst st2 = empty_buffer)"
proof -
  have "paid [] (fst (empty_buffer, d))"
    by (simp add: paid_def budget_ok_def empty_buffer_def empty_budget_def kMaxProviderParserEvents_def)
  from finish_paid [OF assms feed_paid [OF assms(1) this, of family cs], of family] show ?thesis
    by (auto simp: paid_def budget_ok_def case_prod_beta sse_finish_def Let_def split: if_splits)
qed

text \<open>A decoder that delivers every record as text and charges it once more, as the families do for what they retain.\<close>

definition text_decoder :: "nat decoder" where
  "text_decoder d bg data =
     (let (ok, bg2) = budget_fragment data bg in
      ([if ok then (provider_parser_limit_event [])\<lparr>se_type := TextDelta, se_text := data, se_error_message := []\<rparr> else provider_parser_limit_event ''OpenAI''],
       d + 1, bg2))"

theorem sse_response_bounded_witness:
  "(let (e1, st) = feed text_decoder ''OpenAI'' [''data: a'', [CHR 0x0A, CHR 0x0A]] (empty_buffer, 0);
        (e2, st2) = sse_finish text_decoder (\<lambda>d bg. ([], d, bg)) ''OpenAI'' st; out = e1 @ e2 in
    length out \<le> kMaxProviderParserEvents \<and> fragment_bytes out \<le> kMaxProviderSseBufferedBytes \<and>
    metadata_bytes out \<le> kMaxProviderSseBufferedBytes \<and> fst st2 = empty_buffer)"
proof (rule sse_response_bounded)
  show "charging_decoder text_decoder"
    by (auto simp: charging_decoder_def text_decoder_def budget_fragment_def charges_def)
  show "charging_completer (\<lambda>d bg. ([], d, bg))" by (simp add: charging_completer_def charges_def)
qed

end
