(* ===== verification/Background_Safety.thy ===== *)
theory Background_Safety
  imports Background_Jobs
begin

text \<open>
  What every interleaving of calls of the job registry keeps: well-formed snapshots, the limit on
  running jobs, the life cycle of a job, cancellations and the shutdown. The invariant is proved one
  step at a time; most steps change single records and are judged record by record.
\<close>

section \<open>Well-formed registries\<close>

definition snapshot_ok :: "job_registry_options \<Rightarrow> job_snapshot \<Rightarrow> bool" where
  "snapshot_ok options sn \<longleftrightarrow>
     length (js_description sn) \<le> max_description_bytes options \<and> length (js_final_text sn) \<le> max_final_text_bytes options \<and> \<not> js_timed_out sn \<and>
     (case js_state sn of
        JobRunning \<Rightarrow> js_completed_at sn = None \<and> js_final_text sn = [] \<and> js_stop_reason sn = [] \<and> js_error sn = None
      | JobCompleted \<Rightarrow> js_completed_at sn \<noteq> None \<and> js_stop_reason sn \<noteq> [] \<and> js_error sn = None
      | JobFailed \<Rightarrow> js_completed_at sn \<noteq> None \<and> js_stop_reason sn \<noteq> [] \<and> js_final_text sn = [] \<and> js_error sn \<noteq> None
      | JobCanceled \<Rightarrow> js_completed_at sn \<noteq> None \<and> js_stop_reason sn \<noteq> [] \<and> js_final_text sn = [] \<and> js_error sn = None)"

definition record_ok :: "job_registry_options \<Rightarrow> job_record \<Rightarrow> bool" where
  "record_ok options b \<longleftrightarrow> snapshot_ok options (jb_snapshot b) \<and>
     (job_is_terminal (js_state (jb_snapshot b)) \<longleftrightarrow> jb_thread b = ThreadExited \<or> jb_thread b = ThreadJoined) \<and>
     (jb_joined b \<longrightarrow> jb_thread b = ThreadJoined \<and> \<not> jb_joining b)"

definition tabled :: "job_registry \<Rightarrow> nat \<Rightarrow> bool" where
  "tabled s r \<longleftrightarrow> r \<in> snd ` set (jr_jobs s)"

text \<open>
  A record with a live or unjoined thread is in the table; a record in the table has a thread, or its
  start is under way; and a cancellation has reached the thread, or a stop request is on its way, or
  the start will make it.
\<close>

definition place_ok :: "job_registry \<Rightarrow> nat \<Rightarrow> bool" where
  "place_ok s r \<longleftrightarrow> (let b = jr_heap s ! r in
     (jb_thread b = ThreadRunning \<or> jb_thread b = ThreadExited \<or> r \<in> set (jr_starts s) \<longrightarrow> tabled s r) \<and>
     (r \<in> set (jr_starts s) \<longrightarrow> jb_thread b \<noteq> ThreadJoined) \<and>
     (tabled s r \<longrightarrow> r \<in> set (jr_starts s) \<or> jb_thread b \<noteq> NoThread \<and> jb_stop_published b) \<and>
     (tabled s r \<and> js_cancel_requested (jb_snapshot b) \<longrightarrow> jb_stop_requested b \<or> r \<in> set (jr_stops s) \<or> r \<in> set (jr_starts s)))"

definition registry_ok :: "job_registry \<Rightarrow> bool" where
  "registry_ok s \<longleftrightarrow> table_ok s \<and> distinct (jr_starts s) \<and> (\<forall>r \<in> set (jr_starts s). r < length (jr_heap s)) \<and>
     (\<forall>r \<in> set (jr_stops s). r < length (jr_heap s)) \<and> (\<forall>r < length (jr_heap s). record_ok (jr_options s) (jr_heap s ! r) \<and> place_ok s r)"

definition call_ids :: "job_registry \<Rightarrow> join_call \<Rightarrow> string list" where
  "call_ids s c = map (\<lambda>r. js_job_id (snap s r)) (jn_pending c) @ jn_joined c @ jn_skipped c"

definition call_ok :: "job_registry \<Rightarrow> join_call \<Rightarrow> bool" where
  "call_ok s c \<longleftrightarrow> (\<forall>r \<in> set (jn_pending c). tabled s r) \<and>
     (\<forall>k \<in> set (call_ids s c). \<exists>r. (k, r) \<in> set (jr_jobs s) \<and> jb_joining (jr_heap s ! r) \<and> job_is_terminal (js_state (snap s r))) \<and>
     (\<forall>k \<in> set (jn_joined c). \<exists>r. (k, r) \<in> set (jr_jobs s) \<and> jb_thread (jr_heap s ! r) = ThreadJoined)"

definition calls_ok :: "job_registry \<Rightarrow> bool" where
  "calls_ok s \<longleftrightarrow> (\<forall>c \<in> set (jr_joins s). call_ok s c) \<and> distinct (concat (map (call_ids s) (jr_joins s)))"

text \<open>Every \<^verbatim>\<open>join_all\<close> under way still has all active records before it, its caller's own apart.\<close>

definition active :: "job_registry \<Rightarrow> nat \<Rightarrow> bool" where
  "active s r \<longleftrightarrow> r < length (jr_heap s) \<and>
     (jb_thread (jr_heap s ! r) = ThreadRunning \<or> jb_thread (jr_heap s ! r) = ThreadExited \<or> r \<in> set (jr_starts s))"

definition join_alls_ok :: "job_registry \<Rightarrow> bool" where
  "join_alls_ok s \<longleftrightarrow> (\<forall>call \<in> set (jr_join_alls s). \<not> jr_accepting s \<and> (\<forall>r. active s r \<longrightarrow> fst call = Some r \<or> r \<in> set (snd call)))"

definition jobs_inv :: "job_registry \<Rightarrow> bool" where
  "jobs_inv s \<longleftrightarrow> registry_ok s \<and> calls_ok s \<and> join_alls_ok s \<and> running_job_count_locked s \<le> max_running_jobs (jr_options s)"

lemma registry_okD:
  assumes "registry_ok s"
  shows "table_ok s" "distinct (jr_starts s)" "r \<in> set (jr_starts s) \<Longrightarrow> r < length (jr_heap s)" "r \<in> set (jr_stops s) \<Longrightarrow> r < length (jr_heap s)"
    "r < length (jr_heap s) \<Longrightarrow> record_ok (jr_options s) (jr_heap s ! r)" "r < length (jr_heap s) \<Longrightarrow> place_ok s r"
  using assms by (auto simp: registry_ok_def)

section \<open>Text limits\<close>

lemma truncated_size_le: "truncated_size v n \<le> n"
  by (induction n) (auto intro: le_SucI)

lemma truncate_to_bytes_le: "length (snd (truncate_to_bytes v n)) \<le> n"
  using truncated_size_le [of v n] by (simp add: truncate_to_bytes_def)

lemma normalize_completion_terminal: "job_is_terminal (jc_state (normalize_completion k c))"
  by (simp add: normalize_completion_def job_is_terminal_def)

lemma new_snapshot_ok: "snapshot_ok options ((new_snapshot options start now)\<lparr>js_job_id := k\<rparr>)"
  using truncate_to_bytes_le [of "so_description start" "max_description_bytes options"]
  by (simp add: snapshot_ok_def new_snapshot_def case_prod_unfold Let_def)

lemma finished_snapshot_ok:
  "snapshot_ok options sn \<Longrightarrow> snapshot_ok options (finished_snapshot options (normalize_completion k c) now sn)"
  using truncate_to_bytes_le [of "jc_final_text (normalize_completion k c)" "max_final_text_bytes options"]
  by (cases "jc_state c")
    (auto simp: snapshot_ok_def finished_snapshot_def normalize_completion_def case_prod_unfold job_is_terminal_def formatted_error_def or_default_def
      truncate_to_bytes_def split: option.splits)

section \<open>Steps that start and finish no call\<close>

text \<open>What the calls in progress rely on: a step that keeps it preserves the invariant with the well-formedness of the registry.\<close>

definition quiet :: "job_registry \<Rightarrow> job_registry \<Rightarrow> bool" where
  "quiet s s' \<longleftrightarrow> jr_joins s' = jr_joins s \<and> jr_join_alls s' = jr_join_alls s \<and> jr_options s' = jr_options s \<and>
     (jr_accepting s' \<longrightarrow> jr_accepting s) \<and> length (jr_heap s') = length (jr_heap s) \<and>
     (\<exists>P. jr_jobs s' = filter P (jr_jobs s) \<and> (\<forall>(k, r) \<in> set (jr_jobs s). jb_joining (jr_heap s ! r) \<and> job_is_terminal (js_state (snap s r)) \<longrightarrow> P (k, r))) \<and>
     (\<forall>r < length (jr_heap s). js_job_id (snap s' r) = js_job_id (snap s r) \<and> (active s' r \<longrightarrow> active s r) \<and>
        (jb_joining (jr_heap s ! r) \<and> job_is_terminal (js_state (snap s r)) \<longrightarrow>
           jb_joining (jr_heap s' ! r) \<and> job_is_terminal (js_state (snap s' r)) \<and>
           (jb_thread (jr_heap s ! r) = ThreadJoined \<longrightarrow> jb_thread (jr_heap s' ! r) = ThreadJoined)) \<and>
        (js_state (snap s' r) = JobRunning \<longrightarrow> js_state (snap s r) = JobRunning))"

lemma call_okD:
  assumes "call_ok s c"
  shows "r \<in> set (jn_pending c) \<Longrightarrow> tabled s r"
    "k \<in> set (call_ids s c) \<Longrightarrow> \<exists>r. (k, r) \<in> set (jr_jobs s) \<and> jb_joining (jr_heap s ! r) \<and> job_is_terminal (js_state (snap s r))"
    "k \<in> set (jn_joined c) \<Longrightarrow> \<exists>r. (k, r) \<in> set (jr_jobs s) \<and> jb_thread (jr_heap s ! r) = ThreadJoined"
  using assms by (auto simp: call_ok_def)

lemma call_ids_cong:
  assumes "table_ok s" "call_ok s c" "\<And>r. r < length (jr_heap s) \<Longrightarrow> js_job_id (snap s' r) = js_job_id (snap s r)"
  shows "call_ids s' c = call_ids s c"
  using call_okD(1) [OF assms(2)] table_okD(3) [OF assms(1)] assms(3) by (force simp: call_ids_def tabled_def)

lemma call_ok_kept:
  assumes "table_ok s" "call_ok s c" "\<And>r. r < length (jr_heap s) \<Longrightarrow> js_job_id (snap s' r) = js_job_id (snap s r)"
    "\<And>k r. k \<in> set (call_ids s c) \<Longrightarrow> (k, r) \<in> set (jr_jobs s) \<Longrightarrow> jb_joining (jr_heap s ! r) \<Longrightarrow> job_is_terminal (js_state (snap s r)) \<Longrightarrow>
       (k, r) \<in> set (jr_jobs s') \<and> jb_joining (jr_heap s' ! r) \<and> job_is_terminal (js_state (snap s' r)) \<and>
       (jb_thread (jr_heap s ! r) = ThreadJoined \<longrightarrow> jb_thread (jr_heap s' ! r) = ThreadJoined)"
  shows "call_ok s' c"
proof -
  have ids: "call_ids s' c = call_ids s c" by (rule call_ids_cong [OF assms(1-3)])
  have joining: "\<exists>r. (k, r) \<in> set (jr_jobs s') \<and> jb_joining (jr_heap s' ! r) \<and> job_is_terminal (js_state (snap s' r))"
    if k: "k \<in> set (call_ids s c)" for k
    using call_okD(2) [OF assms(2) k] assms(4) [OF k] by blast
  have joined: "\<exists>r. (k, r) \<in> set (jr_jobs s') \<and> jb_thread (jr_heap s' ! r) = ThreadJoined" if k: "k \<in> set (jn_joined c)" for k
  proof -
    have c: "k \<in> set (call_ids s c)" using k by (simp add: call_ids_def)
    show ?thesis using call_okD(2) [OF assms(2) c] call_okD(3) [OF assms(2) k] assms(4) [OF c] table_okD(5) [OF assms(1)] by metis
  qed
  have pending: "tabled s' r" if r: "r \<in> set (jn_pending c)" for r
  proof -
    obtain k where k: "(k, r) \<in> set (jr_jobs s)" using call_okD(1) [OF assms(2) r] by (auto simp: tabled_def)
    then have "k = js_job_id (snap s r)" using table_okD(4) [OF assms(1)] by simp
    then have c: "k \<in> set (call_ids s c)" using r by (simp add: call_ids_def)
    show ?thesis using call_okD(2) [OF assms(2) c] assms(4) [OF c] table_okD(5) [OF assms(1) k] by (force simp: tabled_def)
  qed
  show ?thesis using joining joined pending by (simp add: call_ok_def ids)
qed

lemma calls_ok_kept:
  assumes "table_ok s" "calls_ok s" "jr_joins s' = jr_joins s" "\<And>r. r < length (jr_heap s) \<Longrightarrow> js_job_id (snap s' r) = js_job_id (snap s r)"
    "\<And>k r. (k, r) \<in> set (jr_jobs s) \<Longrightarrow> jb_joining (jr_heap s ! r) \<Longrightarrow> job_is_terminal (js_state (snap s r)) \<Longrightarrow>
       (k, r) \<in> set (jr_jobs s') \<and> jb_joining (jr_heap s' ! r) \<and> job_is_terminal (js_state (snap s' r)) \<and>
       (jb_thread (jr_heap s ! r) = ThreadJoined \<longrightarrow> jb_thread (jr_heap s' ! r) = ThreadJoined)"
  shows "calls_ok s'"
proof -
  have c: "call_ok s c" if "c \<in> set (jr_joins s)" for c using that assms(2) by (simp add: calls_ok_def)
  have eq: "map (call_ids s') (jr_joins s) = map (call_ids s) (jr_joins s)" using call_ids_cong [OF assms(1) c assms(4)] by (intro map_cong) auto
  have "distinct (concat (map (call_ids s') (jr_joins s)))" using assms(2) unfolding eq calls_ok_def by simp
  then show ?thesis using call_ok_kept [OF assms(1) c assms(4) assms(5)] assms(3) by (simp add: calls_ok_def)
qed

lemma filter_count_le: "(\<And>x. x \<in> set xs \<Longrightarrow> Q x \<Longrightarrow> R x) \<Longrightarrow> length (filter Q (filter P xs)) \<le> length (filter R xs)"
  by (induction xs) (auto intro: le_SucI)

lemma quiet_inv:
  assumes "jobs_inv s" "quiet s s'" "registry_ok s'"
  shows "jobs_inv s'"
proof -
  have ok: "table_ok s" "calls_ok s" "join_alls_ok s" using assms(1) by (simp_all add: jobs_inv_def registry_ok_def)
  obtain P where P: "jr_jobs s' = filter P (jr_jobs s)"
    "\<And>k r. (k, r) \<in> set (jr_jobs s) \<Longrightarrow> jb_joining (jr_heap s ! r) \<Longrightarrow> job_is_terminal (js_state (snap s r)) \<Longrightarrow> P (k, r)"
    using assms(2) unfolding quiet_def by blast
  have "calls_ok s'" using assms(2) P table_okD(3) [OF ok(1)] by (intro calls_ok_kept [OF ok(1,2)]) (auto simp: quiet_def)
  moreover have "active s r" if "active s' r" for r using that assms(2) by (simp add: quiet_def active_def)
  then have "join_alls_ok s'" using assms(2) ok(3) unfolding join_alls_ok_def quiet_def by metis
  moreover have "running_job_count_locked s' \<le> running_job_count_locked s"
    unfolding running_job_count_locked_def P(1) using assms(2) table_okD(3) [OF ok(1)]
    by (intro filter_count_le) (auto simp: quiet_def is_running_def)
  ultimately show ?thesis using assms by (simp add: jobs_inv_def quiet_def)
qed

lemma erase_table_ok: "table_ok s \<Longrightarrow> table_ok (s\<lparr>jr_jobs := filter P (jr_jobs s)\<rparr>)"
  by (auto simp: table_ok_def distinct_map_filter)

lemma table_ok_update:
  assumes "table_ok s" "jr_jobs s' = jr_jobs s" "length (jr_heap s') = length (jr_heap s)"
    "\<And>r. r < length (jr_heap s) \<Longrightarrow> js_job_id (snap s' r) = js_job_id (snap s r)"
  shows "table_ok s'"
  using assms by (auto simp: table_ok_def)

text \<open>A step that keeps the table is judged record by record.\<close>

definition record_step :: "job_registry \<Rightarrow> job_registry \<Rightarrow> nat \<Rightarrow> bool" where
  "record_step s s' r \<longleftrightarrow> js_job_id (snap s' r) = js_job_id (snap s r) \<and> record_ok (jr_options s) (jr_heap s' ! r) \<and> place_ok s' r \<and>
     (active s' r \<longrightarrow> active s r) \<and> (js_state (snap s' r) = JobRunning \<longrightarrow> js_state (snap s r) = JobRunning) \<and>
     (jb_joining (jr_heap s ! r) \<and> job_is_terminal (js_state (snap s r)) \<longrightarrow>
        jb_joining (jr_heap s' ! r) \<and> job_is_terminal (js_state (snap s' r)) \<and>
        (jb_thread (jr_heap s ! r) = ThreadJoined \<longrightarrow> jb_thread (jr_heap s' ! r) = ThreadJoined))"

lemma update_inv:
  assumes "jobs_inv s" "jr_jobs s' = jr_jobs s" "length (jr_heap s') = length (jr_heap s)"
    "jr_options s' = jr_options s" "jr_joins s' = jr_joins s" "jr_join_alls s' = jr_join_alls s" "jr_accepting s' \<longrightarrow> jr_accepting s"
    "distinct (jr_starts s')" "set (jr_starts s') \<subseteq> set (jr_starts s)" "\<And>r. r \<in> set (jr_stops s') \<Longrightarrow> r < length (jr_heap s)"
    "\<And>r. r < length (jr_heap s) \<Longrightarrow> record_ok (jr_options s) (jr_heap s ! r) \<Longrightarrow> place_ok s r \<Longrightarrow> record_step s s' r"
  shows "jobs_inv s'"
proof -
  have ok: "registry_ok s" using assms(1) by (simp add: jobs_inv_def)
  have rs: "record_step s s' r" if "r < length (jr_heap s)" for r using assms(11) registry_okD(5,6) [OF ok] that by blast
  have "quiet s s'" using rs assms(2-7) unfolding quiet_def record_step_def by (auto intro: exI [where x = "\<lambda>_. True"])
  moreover have "table_ok s'" using rs assms(2,3) by (intro table_ok_update [OF registry_okD(1) [OF ok]]) (auto simp: record_step_def)
  then have "registry_ok s'" using rs assms(3,4,8-10) registry_okD(3) [OF ok] by (auto simp: registry_ok_def record_step_def)
  ultimately show ?thesis using quiet_inv [OF assms(1)] by blast
qed

lemmas record_step_defs = record_step_def record_ok_def place_ok_def tabled_def active_def Let_def with_record_nth with_snapshot_nth

lemma spawn_inv:
  assumes "jobs_inv s" "r \<in> set (jr_starts s)" "jb_thread (jr_heap s ! r) = NoThread"
  shows "jobs_inv (thread_started r s)"
  using assms unfolding thread_started_def
  by (intro update_inv [OF assms(1)]) (auto simp: jobs_inv_def registry_ok_def record_step_defs)

lemma publish_inv:
  assumes "jobs_inv s" "r \<in> set (jr_starts s)" "jb_thread (jr_heap s ! r) \<noteq> NoThread"
  shows "jobs_inv (start_publish r s)"
  using assms set_remove1_subset [of r "jr_starts s"] unfolding start_publish_def
  by (intro update_inv [OF assms(1)]) (auto simp: jobs_inv_def registry_ok_def record_step_defs)

lemma mark_cancel_ok [simp]:
  "snapshot_ok options (mark_cancel sn) = snapshot_ok options sn" "js_state (mark_cancel sn) = js_state sn" "js_job_id (mark_cancel sn) = js_job_id sn"
  by (simp_all add: mark_cancel_def snapshot_ok_def)

lemma cancel_inv:
  assumes "jobs_inv s" "job_cancel k s = Inr (sn, s')"
  shows "jobs_inv s'"
proof -
  have ok: "registry_ok s" using assms(1) by (simp add: jobs_inv_def)
  obtain r where r: "(k, r) \<in> set (jr_jobs s)" and s': "s' = (with_snapshot r mark_cancel s)\<lparr>jr_stops := stop_source_of s r @ jr_stops s\<rparr>"
    using assms(2) find_record_iff [OF registry_okD(1) [OF ok]] by (auto simp: job_cancel_def Let_def split: option.splits)
  have "r < length (jr_heap s)" using table_okD(3) [OF registry_okD(1) [OF ok] r] .
  with r ok show ?thesis unfolding s'
    by (intro update_inv [OF assms(1)]) (auto simp: registry_ok_def record_step_defs stop_source_of_def)
qed

lemma stop_inv:
  assumes "jobs_inv s" "r \<in> set (jr_stops s)"
  shows "jobs_inv (request_stop r s)"
  using assms set_remove1_subset [of r "jr_stops s"] unfolding request_stop_def
  by (intro update_inv [OF assms(1)]) (auto simp: jobs_inv_def registry_ok_def record_step_defs)

lemma stop_sources_set:
  "set (concat (map (\<lambda>(k, r). stop_source_of s r) (jr_jobs s))) = {r. tabled s r \<and> jb_stop_published (jr_heap s ! r)}"
  by (auto simp: stop_source_of_def tabled_def image_iff split: if_splits) force+

lemma stop_all_inv:
  assumes "jobs_inv s"
  shows "jobs_inv (request_stop_all s)"
proof -
  define st where "st = concat (map (\<lambda>(k, r). stop_source_of s r) (jr_jobs s)) @ jr_stops s"
  have st: "set st = {r. tabled s r \<and> jb_stop_published (jr_heap s ! r)} \<union> set (jr_stops s)" unfolding st_def set_append stop_sources_set ..
  obtain h where h: "request_stop_all s = s\<lparr>jr_heap := h, jr_stops := st\<rparr>" "length h = length (jr_heap s)"
    "\<And>i. i < length (jr_heap s) \<Longrightarrow> h ! i = (if tabled s i then (jr_heap s ! i)\<lparr>jb_snapshot := mark_cancel (snap s i)\<rparr> else jr_heap s ! i)"
    using request_stop_all_heap [of s] unfolding tabled_def st_def by blast
  have ok: "registry_ok s" using assms by (simp add: jobs_inv_def)
  show ?thesis unfolding h(1)
  proof (rule update_inv [OF assms])
    fix r
    show "r < length (jr_heap s)" if "r \<in> set (jr_stops (s\<lparr>jr_heap := h, jr_stops := st\<rparr>))"
      using that table_okD(3) [OF registry_okD(1) [OF ok]] registry_okD(4) [OF ok] by (auto simp: st tabled_def)
    show "record_step s (s\<lparr>jr_heap := h, jr_stops := st\<rparr>) r"
      if "r < length (jr_heap s)" "record_ok (jr_options s) (jr_heap s ! r)" "place_ok s r"
      using that h(2) unfolding record_step_def record_ok_def place_ok_def active_def Let_def by (auto simp: h(3) st tabled_def)
  qed (use ok h(2) in \<open>auto simp: registry_ok_def\<close>)
qed

lemma close_inv: "jobs_inv s \<Longrightarrow> jobs_inv (close_registry s)"
  unfolding close_registry_def by (rule update_inv, assumption) (auto simp: jobs_inv_def registry_ok_def record_step_defs)

lemma finished_snapshot_simps [simp]:
  "js_job_id (finished_snapshot options c now sn) = js_job_id sn" "js_state (finished_snapshot options c now sn) = jc_state c"
  "js_cancel_requested (finished_snapshot options c now sn) = js_cancel_requested sn"
  by (simp_all add: finished_snapshot_def case_prod_unfold Let_def)

lemma worker_exit_record:
  assumes "registry_ok s" "r < length (jr_heap s)" "jb_thread (jr_heap s ! r) = ThreadRunning"
  shows "\<exists>c k. worker_exit r result stop later now s = with_record r (\<lambda>b. b\<lparr>
      jb_snapshot := finished_snapshot (jr_options s) (normalize_completion k c) now (jb_snapshot b), jb_thread := ThreadExited\<rparr>) s"
proof -
  have "tabled s r" using registry_okD(6) [OF assms(1,2)] assms(3) by (simp add: place_ok_def Let_def)
  then obtain k where k: "(k, r) \<in> set (jr_jobs s)" by (auto simp: tabled_def)
  then have "js_job_id (snap s r) = k" using table_okD(4) [OF registry_okD(1) [OF assms(1)]] by simp
  moreover have "find_record_locked k s = Some r" using k find_record_iff [OF registry_okD(1) [OF assms(1)]] by simp
  ultimately show ?thesis using assms(2)
    by (intro exI [where x = "worker_completion k stop later result"] exI [where x = k])
      (simp add: worker_exit_def job_complete_def with_snapshot_def with_record_def)
qed

lemma exit_inv:
  assumes "jobs_inv s" "r < length (jr_heap s)" "jb_thread (jr_heap s ! r) = ThreadRunning"
  shows "jobs_inv (worker_exit r result stop later now s)"
proof -
  have ok: "registry_ok s" using assms(1) by (simp add: jobs_inv_def)
  then obtain c k where e: "worker_exit r result stop later now s = with_record r (\<lambda>b. b\<lparr>
      jb_snapshot := finished_snapshot (jr_options s) (normalize_completion k c) now (jb_snapshot b), jb_thread := ThreadExited\<rparr>) s"
    using worker_exit_record [OF _ assms(2,3)] by blast
  have t: "job_is_terminal (jc_state (normalize_completion k c))" "jc_state (normalize_completion k c) \<noteq> JobRunning"
    using normalize_completion_terminal [of k c] by (auto simp: job_is_terminal_def)
  show ?thesis unfolding e using ok assms(2,3) t
    by (intro update_inv [OF assms(1)]) (auto simp: registry_ok_def record_step_defs finished_snapshot_ok)
qed

lemma spawn_failed_inv:
  assumes "jobs_inv s" "r \<in> set (jr_starts s)" "jb_thread (jr_heap s ! r) = NoThread"
  shows "jobs_inv (snd (thread_failed r system_error cause s))"
proof -
  have ok: "registry_ok s" using assms(1) by (simp add: jobs_inv_def)
  note table = registry_okD(1) [OF ok]
  have r: "r < length (jr_heap s)" "tabled s r"
    using registry_okD(3,6) [OF ok] assms(2) by (simp_all add: place_ok_def Let_def)
  have running: "\<not> job_is_terminal (js_state (snap s r))" using registry_okD(5) [OF ok r(1)] assms(3) by (simp add: record_ok_def)
  define k where "k = js_job_id (snap s r)"
  have k: "(k, r) \<in> set (jr_jobs s)" using r(2) table_okD(4) [OF table] by (auto simp: tabled_def k_def)
  have others: "k2 \<noteq> k \<longleftrightarrow> r2 \<noteq> r" if "(k2, r2) \<in> set (jr_jobs s)" for k2 r2
    using that k table_okD(5) [OF table] table_ok_same [OF table] by metis
  define P where "P = (\<lambda>(k2 :: string, r2 :: nat). k2 \<noteq> k)"
  define s' where "s' = s\<lparr>jr_jobs := filter P (jr_jobs s), jr_starts := remove1 r (jr_starts s)\<rparr>"
  have starts: "set (remove1 r (jr_starts s)) = set (jr_starts s) - {r}" by (rule set_remove1_eq [OF registry_okD(2) [OF ok]])
  have P: "jb_joining (jr_heap s ! r2) \<and> job_is_terminal (js_state (snap s r2)) \<longrightarrow> P (k2, r2)" if "(k2, r2) \<in> set (jr_jobs s)" for k2 r2
    using running others [OF that] by (auto simp: P_def)
  have "quiet s s'" unfolding quiet_def
    by (intro conjI exI [where x = P] allI impI) (use P in \<open>auto simp: s'_def active_def starts\<close>)
  moreover have tabled: "tabled s' i \<longleftrightarrow> tabled s i \<and> i \<noteq> r" for i
    using others by (force simp: image_iff s'_def tabled_def P_def)
  have "place_ok s' i" if "place_ok s i" for i
    using that assms(3) unfolding place_ok_def Let_def tabled by (cases "i = r") (simp_all add: s'_def starts)
  moreover have "table_ok s'" using erase_table_ok [OF table, of P] unfolding s'_def table_ok_def by simp
  then have "registry_ok s'" using ok calculation(2) registry_okD(2) [OF ok] unfolding registry_ok_def by (simp add: s'_def starts)
  ultimately have "jobs_inv s'" using quiet_inv [OF assms(1)] by blast
  moreover have "snd (thread_failed r system_error cause s) = s'" by (simp add: thread_failed_def erase_job_def k_def s'_def P_def Let_def)
  ultimately show ?thesis by simp
qed

section \<open>Admission\<close>

lemma allocate_id_fresh: "allocate_id jobs supplied current ids = Inr k \<Longrightarrow> k \<notin> fst ` set jobs"
  by (induction jobs supplied current ids rule: allocate_id.induct) (auto simp: Let_def split: if_splits)

lemma allocate_id_nonempty:
  "allocate_id jobs supplied current ids = Inr k \<Longrightarrow> \<forall>i \<in> set ids. i \<noteq> [] \<Longrightarrow> k \<noteq> []"
  by (induction jobs supplied current ids rule: allocate_id.induct) (auto simp: Let_def split: if_splits)

lemma allocate_id_supplied: "allocate_id jobs True current ids = Inr k \<Longrightarrow> current \<noteq> [] \<Longrightarrow> k = current"
  by (cases ids) (auto simp: Let_def split: if_splits)

lemma generated_ids_nonempty: "i \<in> set (generated_ids draws) \<Longrightarrow> i \<noteq> []"
  by (auto simp: generated_ids_def make_id_def)

lemma start_requestE:
  assumes "start_request worker pre draws start now s = Inr (sn, r, s')"
  obtains k where "worker" "jr_accepting s" "running_job_count_locked s < max_running_jobs (jr_options s)" "r = length (jr_heap s)"
    "k \<notin> fst ` set (jr_jobs s)" "k \<noteq> []" "so_job_id start \<noteq> [] \<longrightarrow> k = so_job_id start"
    "sn = (new_snapshot (jr_options s) start now)\<lparr>js_job_id := k\<rparr>"
    "s' = s\<lparr>jr_jobs := jr_jobs s @ [(k, r)],
       jr_heap := jr_heap s @ [\<lparr>jb_snapshot = sn, jb_stop_published = False, jb_stop_requested = False, jb_thread = NoThread, jb_joined = False, jb_joining = False\<rparr>],
       jr_starts := r # jr_starts s\<rparr>"
proof -
  define n where "n = new_snapshot (jr_options s) start now"
  have id: "js_job_id n = so_job_id start" by (simp add: n_def new_snapshot_def case_prod_unfold Let_def)
  from assms have w: worker and a: "start_admit draws n s = Inr (sn, r, s')"
    by (auto simp: start_request_def n_def split: if_splits preflight.splits)
  then obtain k where k: "allocate_id (jr_jobs s) (js_job_id n \<noteq> []) (js_job_id n) (generated_ids draws) = Inr k"
    by (auto simp: start_admit_def split: if_splits sum.splits)
  have supplied: "so_job_id start \<noteq> [] \<longrightarrow> k = so_job_id start"
    using allocate_id_supplied [of "jr_jobs s" "so_job_id start" "generated_ids draws" k] k by (auto simp: id)
  have fresh: "k \<notin> fst ` set (jr_jobs s)" "k \<noteq> []" using allocate_id_fresh [OF k] allocate_id_nonempty [OF k] generated_ids_nonempty by blast+
  have r: "jr_accepting s" "running_job_count_locked s < max_running_jobs (jr_options s)" "r = length (jr_heap s)" "sn = n\<lparr>js_job_id := k\<rparr>"
    using a unfolding start_admit_def k by (auto simp: Let_def split: if_splits)
  have "s' = s\<lparr>jr_jobs := jr_jobs s @ [(k, r)],
       jr_heap := jr_heap s @ [\<lparr>jb_snapshot = sn, jb_stop_published = False, jb_stop_requested = False, jb_thread = NoThread, jb_joined = False, jb_joining = False\<rparr>],
       jr_starts := r # jr_starts s\<rparr>"
    using a unfolding start_admit_def k by (auto simp: Let_def split: if_splits)
  with w r(1-3) fresh supplied r(4) [unfolded n_def] show thesis by (rule that)
qed

lemma admit_inv:
  assumes "jobs_inv s" "start_request worker pre draws start now s = Inr (sn, r, s')"
  shows "jobs_inv s'"
  using assms(2)
proof (rule start_requestE)
  fix k
  assume a: "jr_accepting s" "running_job_count_locked s < max_running_jobs (jr_options s)" "r = length (jr_heap s)"
    and k: "k \<notin> fst ` set (jr_jobs s)" "k \<noteq> []" and sn: "sn = (new_snapshot (jr_options s) start now)\<lparr>js_job_id := k\<rparr>"
    and s': "s' = s\<lparr>jr_jobs := jr_jobs s @ [(k, r)],
       jr_heap := jr_heap s @ [\<lparr>jb_snapshot = sn, jb_stop_published = False, jb_stop_requested = False, jb_thread = NoThread, jb_joined = False, jb_joining = False\<rparr>],
       jr_starts := r # jr_starts s\<rparr>"
  have ok: "registry_ok s" and calls: "calls_ok s" and alls: "join_alls_ok s" using assms(1) by (simp_all add: jobs_inv_def)
  note table = registry_okD(1) [OF ok]
  have heap: "jr_heap s' ! i = jr_heap s ! i" if "i < length (jr_heap s)" for i using that by (simp add: s' nth_append)
  have last: "jr_heap s' ! r = \<lparr>jb_snapshot = sn, jb_stop_published = False, jb_stop_requested = False, jb_thread = NoThread, jb_joined = False, jb_joining = False\<rparr>"
    by (simp add: s' a(3))
  have state: "js_state sn = JobRunning" "js_job_id sn = k" "js_cancel_requested sn = False"
    by (simp_all add: sn new_snapshot_def case_prod_unfold Let_def)
  have entry: "i < length (jr_heap s)" if "(j, i) \<in> set (jr_jobs s)" for j i using table_okD(3) [OF table that] .
  have tabled: "tabled s' i \<longleftrightarrow> tabled s i \<or> i = r" for i by (auto simp: tabled_def s')
  have "table_ok s'"
    using table k entry by (auto simp: table_ok_def s' heap [unfolded s'] state a(3) nth_append)
  moreover have "record_ok (jr_options s) (jr_heap s' ! i) \<and> place_ok s' i" if "i < length (jr_heap s')" for i
  proof (cases "i = r")
    case True
    have "snapshot_ok (jr_options s) sn" unfolding sn by (rule new_snapshot_ok)
    then have "record_ok (jr_options s) (jr_heap s' ! r)" unfolding last by (simp add: record_ok_def state job_is_terminal_def)
    moreover have "place_ok s' r" unfolding place_ok_def tabled last Let_def by (simp add: state) (simp add: s')
    ultimately show ?thesis using True by simp
  next
    case False
    then have i: "i < length (jr_heap s)" using that by (simp add: s' a(3))
    show ?thesis using registry_okD(5,6) [OF ok i] False by (simp add: place_ok_def heap [OF i] tabled Let_def) (simp add: s')
  qed
  ultimately have "registry_ok s'" using ok registry_okD(3,4) [OF ok] unfolding registry_ok_def by (auto simp: s' a(3) less_SucI)
  moreover have "calls_ok s'"
    by (rule calls_ok_kept [OF table calls]) (auto simp: heap dest: entry, auto simp: s')
  moreover have "join_alls_ok s'" using alls a(1) by (auto simp: join_alls_ok_def s')
  moreover have "filter (is_running s') (jr_jobs s) = filter (is_running s) (jr_jobs s)"
    using entry by (intro filter_cong) (auto simp: is_running_def heap)
  then have "running_job_count_locked s' = Suc (running_job_count_locked s)"
    by (simp add: running_job_count_locked_def) (simp add: s' is_running_def state a(3))
  ultimately show ?thesis using a(2) by (simp add: jobs_inv_def s')
qed

section \<open>Calls that join\<close>

text \<open>The lists of calls are separate from the table and the records.\<close>

lemma registry_ok_calls [simp]:
  "registry_ok (s\<lparr>jr_joins := xs\<rparr>) = registry_ok s" "registry_ok (s\<lparr>jr_join_alls := ys\<rparr>) = registry_ok s"
  by (simp_all add: registry_ok_def table_ok_def place_ok_def tabled_def)

lemma is_running_calls [simp]: "is_running (s\<lparr>jr_joins := xs\<rparr>) = is_running s" "is_running (s\<lparr>jr_join_alls := ys\<rparr>) = is_running s"
  by (simp_all add: fun_eq_iff is_running_def)

lemma calls_simps [simp]:
  "call_ids (s\<lparr>jr_joins := xs\<rparr>) = call_ids s" "call_ids (s\<lparr>jr_join_alls := ys\<rparr>) = call_ids s"
  "call_ok (s\<lparr>jr_joins := xs\<rparr>) = call_ok s" "call_ok (s\<lparr>jr_join_alls := ys\<rparr>) = call_ok s"
  "active (s\<lparr>jr_joins := xs\<rparr>) = active s" "active (s\<lparr>jr_join_alls := ys\<rparr>) = active s"
  "running_job_count_locked (s\<lparr>jr_joins := xs\<rparr>) = running_job_count_locked s"
  "running_job_count_locked (s\<lparr>jr_join_alls := ys\<rparr>) = running_job_count_locked s"
  by (auto simp: fun_eq_iff call_ids_def call_ok_def active_def tabled_def running_job_count_locked_def)

lemma join_all_start_inv:
  assumes "jobs_inv s" "\<not> jr_accepting s"
  shows "jobs_inv (join_all_begin caller s)"
proof -
  have ok: "registry_ok s" using assms(1) by (simp add: jobs_inv_def)
  have "tabled s r" if "active s r" for r using that registry_okD(6) [OF ok] by (auto simp: active_def place_ok_def Let_def)
  then show ?thesis using assms by (auto simp: jobs_inv_def join_all_begin_def calls_ok_def join_alls_ok_def tabled_def)
qed

lemma join_thread_inv:
  assumes "jobs_inv s" "r < length (jr_heap s)" "r \<notin> set (jr_starts s)" "jb_thread (jr_heap s ! r) \<noteq> ThreadRunning"
  shows "jobs_inv (join_thread r s)"
  using assms unfolding join_thread_def
  by (simp, intro impI update_inv [OF assms(1)]) (auto simp: jobs_inv_def registry_ok_def record_step_defs joinable_def)

lemma join_thread_inactive: "r \<notin> set (jr_starts s) \<Longrightarrow> \<not> active (join_thread r s) r"
  by (auto simp: active_def join_thread_def joinable_def with_record_nth)

lemma join_thread_simps [simp]:
  "jr_join_alls (join_thread r s) = jr_join_alls s" "jr_joins (join_thread r s) = jr_joins s" "jr_jobs (join_thread r s) = jr_jobs s"
  "jr_accepting (join_thread r s) = jr_accepting s"
  by (simp_all add: join_thread_def)

lemma join_all_next_inv:
  assumes "jobs_inv s" "jr_join_alls s = xs @ (caller, r # rs) # ys" "can_join caller r s"
  shows "jobs_inv ((join_all_record caller r s)\<lparr>jr_join_alls := xs @ (caller, rs) # ys\<rparr>)"
proof -
  let ?s = "join_all_record caller r s"
  have "jobs_inv ?s"
  proof (cases "joinable s r \<and> caller \<noteq> Some r \<and> r < length (jr_heap s)")
    case True
    then show ?thesis using join_thread_inv [OF assms(1)] assms(3) by (auto simp: join_all_record_def can_join_def)
  next
    case False
    then show ?thesis using assms(1) by (auto simp: join_all_record_def join_thread_def with_record_def list_update_beyond)
  qed
  moreover have "caller = Some i \<or> i \<in> set rs" if "active ?s i" "caller = Some i \<or> i \<in> set (r # rs)" for i
    using that assms(3) join_thread_inactive [of r s]
    by (auto simp: join_all_record_def can_join_def active_def joinable_def split: if_splits)
  moreover have "jr_join_alls ?s = xs @ (caller, r # rs) # ys" using assms(2) by (simp add: join_all_record_def)
  ultimately show ?thesis by (auto simp: jobs_inv_def join_alls_ok_def calls_ok_def)
qed

lemma join_all_done_inv: "jobs_inv s \<Longrightarrow> jr_join_alls s = xs @ (caller, []) # ys \<Longrightarrow> jobs_inv (s\<lparr>jr_join_alls := xs @ ys\<rparr>)"
  by (auto simp: jobs_inv_def join_alls_ok_def calls_ok_def)

lemma distinct_concat_swap:
  assumes "distinct (concat (map f xs) @ f c @ concat (map f ys))" "distinct (f c) \<Longrightarrow> distinct (f c2)" "set (f c2) = set (f c)"
  shows "distinct (concat (map f (xs @ c2 # ys)))"
  using assms by auto

lemma join_next_inv:
  assumes "jobs_inv s" "jr_joins s = xs @ c # ys" "jn_pending c = r # rs" "can_join (jn_caller c) r s" "join_record r c s = (c2, s2)"
  shows "jobs_inv (s2\<lparr>jr_joins := xs @ c2 # ys\<rparr>)"
proof -
  have ok: "registry_ok s" and c: "call_ok s c" using assms(1,2) by (simp_all add: jobs_inv_def calls_ok_def)
  note table = registry_okD(1) [OF ok]
  define k where "k = js_job_id (snap s r)"
  have k: "(k, r) \<in> set (jr_jobs s)" using call_okD(1) [OF c, of r] assms(3) table_okD(4) [OF table] by (auto simp: tabled_def k_def)
  have r: "r < length (jr_heap s)" using table_okD(3) [OF table k] .
  have "k \<in> set (call_ids s c)" using assms(3) by (simp add: call_ids_def k_def)
  then have "job_is_terminal (js_state (snap s r))" using call_okD(2) [OF c, of k] table_okD(5) [OF table k] by blast
  then have thread: "jb_thread (jr_heap s ! r) = ThreadExited \<or> jb_thread (jr_heap s ! r) = ThreadJoined"
    using registry_okD(5) [OF ok r] by (simp add: record_ok_def)
  have s2: "s2 = s \<or> s2 = join_thread r s" using assms(5) by (auto simp: join_record_def Let_def split: if_splits)
  have inv: "jobs_inv s2" using s2 assms(1,4) thread join_thread_inv [OF assms(1) r] by (auto simp: can_join_def)
  have joins: "jr_joins s2 = xs @ c # ys" "jr_jobs s2 = jr_jobs s" using s2 assms(2) by auto
  have ids: "js_job_id (snap s2 i) = js_job_id (snap s i)" if "i < length (jr_heap s)" for i
    using s2 that by (auto simp: join_thread_def with_record_nth)
  have c2: "jn_pending c2 = rs" "jn_joined c2 = jn_joined c \<and> jn_skipped c2 = jn_skipped c @ [k] \<or>
      jn_joined c2 = jn_joined c @ [k] \<and> jn_skipped c2 = jn_skipped c \<and> s2 = join_thread r s"
    using assms(3,5) by (auto simp: join_record_def Let_def k_def split: if_splits)
  have okc: "call_ok s2 c" using inv joins by (simp add: jobs_inv_def calls_ok_def)
  have idk: "call_ids s2 c = k # map (\<lambda>r. js_job_id (snap s2 r)) rs @ jn_joined c @ jn_skipped c"
    using assms(3) ids [OF r] by (simp add: call_ids_def k_def)
  have joined: "jb_thread (jr_heap s2 ! r) = ThreadJoined" if "s2 = join_thread r s"
    using that thread r by (auto simp: join_thread_def joinable_def with_record_nth)
  have set_eq: "set (call_ids s2 c2) = set (call_ids s2 c)" using c2 by (auto simp: idk) (auto simp: call_ids_def)
  have "call_ok s2 c2"
    unfolding call_ok_def set_eq using call_okD [OF okc] c2 assms(3) joined k joins(2) by (auto simp: Un_iff)
  moreover have "distinct (concat (map (call_ids s2) (xs @ c2 # ys)))"
    using inv joins(1) c2 unfolding jobs_inv_def calls_ok_def
    by (intro distinct_concat_swap [where f = "call_ids s2" and c = c, OF _ _ set_eq]) (auto simp: idk, auto simp: call_ids_def)
  ultimately show ?thesis using inv joins(1) by (simp add: jobs_inv_def calls_ok_def join_alls_ok_def)
qed

lemma join_start_inv:
  assumes "jobs_inv s"
  shows "jobs_inv (join_begin caller s)"
proof -
  have ok: "registry_ok s" and calls: "calls_ok s" using assms by (simp_all add: jobs_inv_def)
  note table = registry_okD(1) [OF ok]
  obtain h R where h: "join_begin caller s = s\<lparr>jr_heap := h,
       jr_joins := \<lparr>jn_caller = caller, jn_pending = R, jn_joined = [], jn_skipped = [], jn_count = 0\<rparr> # jr_joins s\<rparr>"
    and R: "R = map snd (filter (to_join s) (jr_jobs s))" and len: "length h = length (jr_heap s)"
    and nth: "\<And>i. i < length (jr_heap s) \<Longrightarrow> h ! i = (if i \<in> set R then (jr_heap s ! i)\<lparr>jb_joining := True\<rparr> else jr_heap s ! i)"
    using join_begin_heap [of caller s] by blast
  define s1 where "s1 = s\<lparr>jr_heap := h\<rparr>"
  define c where "c = \<lparr>jn_caller = caller, jn_pending = R, jn_joined = [], jn_skipped = [], jn_count = 0\<rparr>"
  have mem: "r \<in> set R \<Longrightarrow> \<exists>k. (k, r) \<in> set (jr_jobs s) \<and> to_join s (k, r)" for r by (auto simp: R)
  have fresh: "\<not> jb_joined (jr_heap s ! r) \<and> \<not> jb_joining (jr_heap s ! r) \<and> job_is_terminal (js_state (snap s r))" if "r \<in> set R" for r
    using mem [OF that] by (auto simp: to_join_def Let_def)
  have inv: "jobs_inv s1"
    using ok len fresh unfolding s1_def
    by (intro update_inv [OF assms]) (auto simp: registry_ok_def record_step_def record_ok_def place_ok_def tabled_def active_def Let_def nth)
  have heap: "snap s1 i = snap s i" if "i < length (jr_heap s)" for i using that by (simp add: s1_def nth)
  have ids: "call_ids s1 c = map fst (filter (to_join s) (jr_jobs s))"
    using table_okD(3,4) [OF table] heap by (auto simp: call_ids_def c_def R)
  have entry: "(k, r) \<in> set (jr_jobs s1) \<and> jb_joining (jr_heap s1 ! r) \<and> job_is_terminal (js_state (snap s1 r))"
    if "(k, r) \<in> set (jr_jobs s)" "to_join s (k, r)" for k r
    using that table_okD(3) [OF table that(1)] by (auto simp: s1_def nth R to_join_def Let_def image_iff)
  have "tabled s1 r" if "r \<in> set R" for r using mem [OF that] entry by (force simp: tabled_def)
  moreover have "\<exists>r. (k, r) \<in> set (jr_jobs s1) \<and> jb_joining (jr_heap s1 ! r) \<and> job_is_terminal (js_state (snap s1 r))"
    if "k \<in> set (map fst (filter (to_join s) (jr_jobs s)))" for k using that entry by fastforce
  ultimately have "call_ok s1 c" unfolding call_ok_def ids by (simp add: c_def)
  moreover have "k \<notin> set (call_ids s1 d)" if d: "d \<in> set (jr_joins s1)" and k: "k \<in> set (call_ids s1 c)" for k d
  proof
    assume "k \<in> set (call_ids s1 d)"
    moreover have dk: "call_ok s d" using d calls by (simp add: s1_def calls_ok_def)
    moreover have "call_ids s1 d = call_ids s d" using heap by (intro call_ids_cong [OF table dk]) simp
    ultimately obtain r where r: "(k, r) \<in> set (jr_jobs s)" "jb_joining (jr_heap s ! r)" using call_okD(2) [OF dk, of k] by auto
    obtain i where i: "(k, i) \<in> set (jr_jobs s)" "to_join s (k, i)" using k unfolding ids by auto
    have "i = r" using table_okD(5) [OF table r(1) i(1)] .
    with i(2) r(2) show False by (simp add: to_join_def Let_def)
  qed
  moreover have "distinct (call_ids s1 c)" unfolding ids using table_okD(1) [OF table] by (rule distinct_map_filter)
  ultimately have "jobs_inv (s1\<lparr>jr_joins := c # jr_joins s1\<rparr>)"
    using inv by (auto simp: jobs_inv_def calls_ok_def join_alls_ok_def)
  then show ?thesis unfolding h by (simp add: s1_def c_def)
qed

text \<open>The last critical section of \<^verbatim>\<open>join_finished\<close> changes only the joining marks of its own records, and then prunes.\<close>

definition released :: "job_registry \<Rightarrow> job_registry \<Rightarrow> bool" where
  "released s s' \<longleftrightarrow> jr_jobs s' = jr_jobs s \<and> jr_joins s' = jr_joins s \<and> length (jr_heap s') = length (jr_heap s) \<and>
     (\<forall>i < length (jr_heap s). snap s' i = snap s i \<and> jb_thread (jr_heap s' ! i) = jb_thread (jr_heap s ! i))"

definition unclaimed :: "job_registry \<Rightarrow> string \<Rightarrow> bool" where
  "unclaimed s k \<longleftrightarrow> (\<forall>c \<in> set (jr_joins s). k \<notin> set (call_ids s c)) \<and> (\<exists>r. (k, r) \<in> set (jr_jobs s))"

lemma released_ids: "jobs_inv s \<Longrightarrow> released s s' \<Longrightarrow> c \<in> set (jr_joins s) \<Longrightarrow> call_ids s' c = call_ids s c"
  by (rule call_ids_cong) (auto simp: jobs_inv_def registry_ok_def calls_ok_def released_def)

lemma released_unclaimed: "jobs_inv s \<Longrightarrow> released s s' \<Longrightarrow> unclaimed s k \<Longrightarrow> unclaimed s' k"
  using released_ids [of s s'] by (simp add: unclaimed_def released_def)

lemma release_inv:
  assumes "jobs_inv s" "(k, r) \<in> set (jr_jobs s)" "unclaimed s k"
    "\<And>b. jb_snapshot (f b) = jb_snapshot b \<and> jb_thread (f b) = jb_thread b \<and> jb_stop_published (f b) = jb_stop_published b \<and>
       jb_stop_requested (f b) = jb_stop_requested b"
    "jb_joined (f (jr_heap s ! r)) \<longrightarrow> jb_thread (jr_heap s ! r) = ThreadJoined \<and> \<not> jb_joining (f (jr_heap s ! r))"
  shows "jobs_inv (with_record r f s) \<and> released s (with_record r f s)"
proof -
  have ok: "registry_ok s" and calls: "calls_ok s" and alls: "join_alls_ok s" using assms(1) by (simp_all add: jobs_inv_def)
  note table = registry_okD(1) [OF ok]
  have r: "r < length (jr_heap s)" using table_okD(3) [OF table assms(2)] .
  have rel: "released s (with_record r f s)" by (simp add: released_def with_record_nth assms(4))
  have "table_ok (with_record r f s)" by (rule table_ok_update [OF table]) (simp_all add: with_record_nth assms(4))
  moreover have "record_ok (jr_options s) (jr_heap (with_record r f s) ! i) \<and> place_ok (with_record r f s) i" if "i < length (jr_heap s)" for i
    using registry_okD(5,6) [OF ok that] assms(5) by (cases "i = r") (simp_all add: record_ok_def place_ok_def tabled_def with_record_nth that r Let_def assms(4))
  ultimately have "registry_ok (with_record r f s)" using ok by (simp add: registry_ok_def)
  moreover have "call_ok (with_record r f s) c" if c: "c \<in> set (jr_joins s)" for c
  proof (rule call_ok_kept [OF table])
    show "call_ok s c" using c calls by (simp add: calls_ok_def)
    show "js_job_id (snap (with_record r f s) i) = js_job_id (snap s i)" if "i < length (jr_heap s)" for i
      using that by (simp add: with_record_nth assms(4))
    fix j i assume j: "j \<in> set (call_ids s c)" "(j, i) \<in> set (jr_jobs s)" "jb_joining (jr_heap s ! i)" "job_is_terminal (js_state (snap s i))"
    have "j \<noteq> k" using j(1) c assms(3) by (auto simp: unclaimed_def)
    then have "i \<noteq> r" using table_ok_same [OF table j(2)] assms(2) by blast
    then show "(j, i) \<in> set (jr_jobs (with_record r f s)) \<and> jb_joining (jr_heap (with_record r f s) ! i) \<and>
        job_is_terminal (js_state (snap (with_record r f s) i)) \<and>
        (jb_thread (jr_heap s ! i) = ThreadJoined \<longrightarrow> jb_thread (jr_heap (with_record r f s) ! i) = ThreadJoined)"
      using j table_okD(3) [OF table j(2)] by (simp add: with_record_nth)
  qed
  moreover have eq: "map (call_ids (with_record r f s)) (jr_joins s) = map (call_ids s) (jr_joins s)"
    using released_ids [OF assms(1) rel] by (intro map_cong) auto
  have "distinct (concat (map (call_ids (with_record r f s)) (jr_joins s)))" unfolding eq using calls by (simp add: calls_ok_def)
  moreover have "active (with_record r f s) i = active s i" for i
    by (cases "i < length (jr_heap s)") (simp_all add: active_def with_record_nth assms(4))
  then have "join_alls_ok (with_record r f s)" using alls by (simp add: join_alls_ok_def)
  moreover have "filter (is_running (with_record r f s)) (jr_jobs s) = filter (is_running s) (jr_jobs s)"
    using table_okD(3) [OF table] rel by (intro filter_cong) (auto simp: is_running_def released_def)
  then have "running_job_count_locked (with_record r f s) = running_job_count_locked s" by (simp add: running_job_count_locked_def)
  ultimately show ?thesis using rel assms(1) by (simp add: jobs_inv_def calls_ok_def)
qed

lemma mark_joined_inv:
  assumes "jobs_inv s" "unclaimed s k" "(k, r) \<in> set (jr_jobs s)" "jb_thread (jr_heap s ! r) = ThreadJoined"
  shows "jobs_inv (mark_joined k s) \<and> released s (mark_joined k s)"
proof -
  have ok: "registry_ok s" using assms(1) by (simp add: jobs_inv_def)
  note table = registry_okD(1) [OF ok]
  have "find_record_locked k s = Some r" using find_record_iff [OF table] assms(3) by simp
  moreover have "job_is_terminal (js_state (snap s r))"
    using registry_okD(5) [OF ok table_okD(3) [OF table assms(3)]] assms(4) by (simp add: record_ok_def)
  ultimately have "mark_joined k s = with_record r (\<lambda>b. b\<lparr>jb_joined := True, jb_joining := False\<rparr>) s" by (simp add: mark_joined_def)
  then show ?thesis using release_inv [OF assms(1,3,2), of "\<lambda>b. b\<lparr>jb_joined := True, jb_joining := False\<rparr>"] assms(4) by simp
qed

lemma clear_joining_inv:
  assumes "jobs_inv s" "unclaimed s k"
  shows "jobs_inv (clear_joining k s) \<and> released s (clear_joining k s)"
proof -
  have ok: "registry_ok s" using assms(1) by (simp add: jobs_inv_def)
  note table = registry_okD(1) [OF ok]
  obtain r where r: "(k, r) \<in> set (jr_jobs s)" using assms(2) by (auto simp: unclaimed_def)
  then have "clear_joining k s = with_record r (\<lambda>b. b\<lparr>jb_joining := False\<rparr>) s"
    using find_record_iff [OF table, of k r] by (simp add: clear_joining_def)
  moreover have "jb_joined (jr_heap s ! r) \<longrightarrow> jb_thread (jr_heap s ! r) = ThreadJoined"
    using registry_okD(5) [OF ok table_okD(3) [OF table r]] by (simp add: record_ok_def)
  ultimately show ?thesis using release_inv [OF assms(1) r assms(2), of "\<lambda>b. b\<lparr>jb_joining := False\<rparr>"] by simp
qed

lemma released_trans: "released s t \<Longrightarrow> released t u \<Longrightarrow> released s u"
  by (simp add: released_def)

lemma released_joined:
  "jobs_inv s \<Longrightarrow> released s s' \<Longrightarrow> \<exists>r. (k, r) \<in> set (jr_jobs s) \<and> jb_thread (jr_heap s ! r) = ThreadJoined \<Longrightarrow>
    \<exists>r. (k, r) \<in> set (jr_jobs s') \<and> jb_thread (jr_heap s' ! r) = ThreadJoined"
  by (auto simp: jobs_inv_def registry_ok_def released_def dest!: table_okD(3))

lemma fold_mark_joined_inv:
  "jobs_inv s \<Longrightarrow> \<forall>k \<in> set ks. unclaimed s k \<and> (\<exists>r. (k, r) \<in> set (jr_jobs s) \<and> jb_thread (jr_heap s ! r) = ThreadJoined) \<Longrightarrow>
    jobs_inv (fold mark_joined ks s) \<and> released s (fold mark_joined ks s)"
proof (induction ks arbitrary: s)
  case Nil
  then show ?case by (simp add: released_def)
next
  case (Cons k ks)
  then obtain r where "unclaimed s k" "(k, r) \<in> set (jr_jobs s)" "jb_thread (jr_heap s ! r) = ThreadJoined" by auto
  then have step: "jobs_inv (mark_joined k s)" "released s (mark_joined k s)" using mark_joined_inv [OF Cons.prems(1)] by blast+
  have "\<forall>j \<in> set ks. unclaimed (mark_joined k s) j \<and> (\<exists>r. (j, r) \<in> set (jr_jobs (mark_joined k s)) \<and> jb_thread (jr_heap (mark_joined k s) ! r) = ThreadJoined)"
    using Cons.prems(2) released_unclaimed [OF Cons.prems(1) step(2)] released_joined [OF Cons.prems(1) step(2)] by simp
  from Cons.IH [OF step(1) this] released_trans [OF step(2)] show ?case by simp
qed

lemma fold_clear_joining_inv:
  "jobs_inv s \<Longrightarrow> \<forall>k \<in> set ks. unclaimed s k \<Longrightarrow> jobs_inv (fold clear_joining ks s) \<and> released s (fold clear_joining ks s)"
proof (induction ks arbitrary: s)
  case Nil
  then show ?case by (simp add: released_def)
next
  case (Cons k ks)
  then have step: "jobs_inv (clear_joining k s)" "released s (clear_joining k s)" using clear_joining_inv [OF Cons.prems(1)] by simp_all
  then have "\<forall>j \<in> set ks. unclaimed (clear_joining k s) j" using Cons.prems released_unclaimed [OF Cons.prems(1)] by simp
  from Cons.IH [OF step(1) this] released_trans [OF step(2)] show ?case by simp
qed

lemma prune_inv:
  assumes "jobs_inv s"
  shows "jobs_inv (prune_retained_finished_jobs_locked s)"
proof -
  have ok: "registry_ok s" using assms by (simp add: jobs_inv_def)
  note table = registry_okD(1) [OF ok]
  obtain K where e: "prune_retained_finished_jobs_locked s = s\<lparr>jr_jobs := filter (\<lambda>(k, r). k \<notin> K) (jr_jobs s)\<rparr>"
    and K: "\<And>k r. (k, r) \<in> set (jr_jobs s) \<Longrightarrow> k \<in> K \<Longrightarrow> is_retained s (k, r)"
    using prune_jobs [OF table] by blast
  define s' where "s' = s\<lparr>jr_jobs := filter (\<lambda>(k, r). k \<notin> K) (jr_jobs s)\<rparr>"
  have retained: "jb_thread (jr_heap s ! r) = ThreadJoined \<and> \<not> jb_joining (jr_heap s ! r)" if "(k, r) \<in> set (jr_jobs s)" "k \<in> K" for k r
    using K [OF that] registry_okD(5) [OF ok table_okD(3) [OF table that(1)]] by (simp add: is_retained_def record_ok_def)
  have kept: "tabled s' r" if "tabled s r" "jb_thread (jr_heap s ! r) \<noteq> ThreadJoined" for r
    using that retained by (force simp: tabled_def s'_def image_iff)
  have sub: "tabled s r" if "tabled s' r" for r using that by (auto simp: tabled_def s'_def)
  have "quiet s s'" unfolding quiet_def
    by (intro conjI exI [where x = "\<lambda>(k, r). k \<notin> K"] allI impI) (use retained in \<open>auto simp: s'_def active_def\<close>)
  moreover have "table_ok s'" using erase_table_ok [OF table] unfolding s'_def by blast
  moreover have "place_ok s' r" if "place_ok s r" for r
    using that kept [of r] sub [of r] unfolding place_ok_def Let_def by (auto simp: s'_def)
  ultimately have "jobs_inv s'" using quiet_inv [OF assms] ok by (simp add: registry_ok_def) (simp add: s'_def)
  then show ?thesis by (simp add: e s'_def)
qed

lemma join_marks_inv:
  assumes "jobs_inv s" "jr_joins s = xs @ c # ys" "jn_pending c = []"
  shows "jobs_inv (join_marks c (s\<lparr>jr_joins := xs @ ys\<rparr>)) \<and> released (s\<lparr>jr_joins := xs @ ys\<rparr>) (join_marks c (s\<lparr>jr_joins := xs @ ys\<rparr>))"
proof -
  define s0 where "s0 = s\<lparr>jr_joins := xs @ ys\<rparr>"
  have calls: "calls_ok s" and c: "call_ok s c" using assms(1,2) by (simp_all add: jobs_inv_def calls_ok_def)
  have inv: "jobs_inv s0" using assms(1,2) by (auto simp: s0_def jobs_inv_def calls_ok_def join_alls_ok_def)
  have ids: "set (call_ids s c) = set (jn_joined c) \<union> set (jn_skipped c)" by (simp add: call_ids_def assms(3))
  have claim: "unclaimed s0 k" if "k \<in> set (call_ids s c)" for k
    using that calls call_okD(2) [OF c that] assms(2) by (auto simp: unclaimed_def s0_def calls_ok_def)
  have "\<forall>k \<in> set (jn_joined c). unclaimed s0 k \<and> (\<exists>r. (k, r) \<in> set (jr_jobs s0) \<and> jb_thread (jr_heap s0 ! r) = ThreadJoined)"
    using claim call_okD(3) [OF c] by (simp add: ids s0_def)
  from fold_mark_joined_inv [OF inv this]
  have j: "jobs_inv (fold mark_joined (jn_joined c) s0)" "released s0 (fold mark_joined (jn_joined c) s0)" by auto
  have "\<forall>k \<in> set (jn_skipped c). unclaimed (fold mark_joined (jn_joined c) s0) k"
    using claim released_unclaimed [OF inv j(2)] by (simp add: ids)
  from fold_clear_joining_inv [OF j(1) this] released_trans [OF j(2)] show ?thesis
    unfolding s0_def [symmetric] join_marks_def by auto
qed

lemma join_end_marks: "join_end c s = join_marks c s \<or> join_end c s = prune_retained_finished_jobs_locked (join_marks c s)"
  by (simp add: join_end_def join_marks_def)

lemma join_done_inv:
  assumes "jobs_inv s" "jr_joins s = xs @ c # ys" "jn_pending c = []"
  shows "jobs_inv (join_end c (s\<lparr>jr_joins := xs @ ys\<rparr>))"
  using join_marks_inv [OF assms] prune_inv join_end_marks [of c "s\<lparr>jr_joins := xs @ ys\<rparr>"] by auto

section \<open>Every reachable registry\<close>

lemma job_step_inv: "job_step s s' \<Longrightarrow> jobs_inv s \<Longrightarrow> jobs_inv s'"
proof (induction rule: job_step.induct)
  case (admit worker pre draws start now s sn r s')
  then show ?case using admit_inv by blast
next
  case (cancel job_id s sn s')
  then show ?case using cancel_inv by blast
qed (simp_all add: spawn_inv spawn_failed_inv publish_inv exit_inv stop_inv stop_all_inv close_inv join_start_inv join_next_inv join_done_inv
      join_all_start_inv join_all_next_inv join_all_done_inv)

lemma fold_keeps: "(\<And>x s. g (f x s) = g s) \<Longrightarrow> g (fold f xs s) = g s"
  by (induction xs arbitrary: s) auto

lemma join_end_options: "jr_options (join_end c s) = jr_options s"
proof -
  have "jr_options (mark_joined k s) = jr_options s" "jr_options (clear_joining k s) = jr_options s" for k s
    by (auto simp: mark_joined_def clear_joining_def split: option.splits)
  then have "jr_options (fold clear_joining ks (fold mark_joined js s)) = jr_options s" for ks js s
    using fold_keeps [of jr_options clear_joining ks] fold_keeps [of jr_options mark_joined js] by simp
  then show ?thesis by (simp add: join_end_def join_marks_def prune_retained_finished_jobs_locked_def fold_erase Let_def)
qed

lemma job_step_options: "job_step s s' \<Longrightarrow> jr_options s' = jr_options s"
proof (induction rule: job_step.induct)
  case (admit worker pre draws start now s sn r s')
  then show ?case by (rule start_requestE) simp
next
  case (stop_all s)
  show ?case using request_stop_all_heap [of s] by auto
next
  case (join_start s caller)
  show ?case using join_begin_heap [of caller s] by auto
qed (auto simp: thread_started_def thread_failed_def start_publish_def worker_exit_def job_complete_def job_cancel_def request_stop_def close_registry_def
      join_record_def join_thread_def join_all_begin_def join_all_record_def join_end_options erase_job_def Let_def split: option.splits if_splits)

lemma empty_inv: "jobs_inv (empty_registry options)"
  by (simp add: empty_registry_def jobs_inv_def registry_ok_def table_ok_def calls_ok_def join_alls_ok_def running_job_count_locked_def)

lemma reachable_jobs_inv: "jobs_reachable options s \<Longrightarrow> jobs_inv s \<and> jr_options s = options"
proof (induction rule: jobs_reachable.induct)
  case empty
  show ?case using empty_inv by (simp add: empty_registry_def)
next
  case (step s s')
  then show ?case using job_step_inv job_step_options by auto
qed


text \<open>
  C18: a cancellation is never lost. Once \<^verbatim>\<open>cancel\<close> or \<^verbatim>\<open>request_stop_all\<close> has marked a job, its thread has
  been asked to stop, or a call is about to ask it, or the job's start is still under way and will;
  when no call and no start is in progress, every marked job has been asked.
\<close>

theorem job_cancel_delivered:
  assumes "jobs_reachable options s" "(k, r) \<in> set (jr_jobs s)" "js_cancel_requested (snap s r)"
  shows "(jb_stop_requested (jr_heap s ! r) \<or> r \<in> set (jr_stops s) \<or> r \<in> set (jr_starts s)) \<and>
    (jr_stops s = [] \<and> jr_starts s = [] \<longrightarrow> jb_stop_requested (jr_heap s ! r))"
proof -
  have ok: "registry_ok s" using reachable_jobs_inv [OF assms(1)] by (simp add: jobs_inv_def)
  have "place_ok s r" using registry_okD(6) [OF ok table_okD(3) [OF registry_okD(1) [OF ok] assms(2)]] .
  moreover have "tabled s r" using assms(2) by (force simp: tabled_def)
  ultimately show ?thesis using assms(3) by (auto simp: place_ok_def Let_def)
qed

text \<open>
  C17: shutdown leaves no thread behind. When the \<^verbatim>\<open>join_all\<close> of a shutdown has worked through its
  records, no start is under way and every job's thread has been joined, so that no worker can touch
  the registry any more; when a worker itself shuts the registry down, only its own thread is left.
\<close>

theorem job_shutdown_complete:
  assumes "jobs_reachable options s" "(caller, []) \<in> set (jr_join_alls s)" "r < length (jr_heap s)" "caller \<noteq> Some r"
  shows "r \<notin> set (jr_starts s) \<and> (jb_thread (jr_heap s ! r) = NoThread \<or> jb_thread (jr_heap s ! r) = ThreadJoined) \<and> \<not> jr_accepting s"
proof -
  have inv: "join_alls_ok s" using reachable_jobs_inv [OF assms(1)] by (simp add: jobs_inv_def)
  then have "\<not> active s r" "\<not> jr_accepting s" using assms(2,4) by (auto simp: join_alls_ok_def)
  then show ?thesis using assms(3) by (cases "jb_thread (jr_heap s ! r)") (auto simp: active_def)
qed

end
