(* ===== verification/Background_Lifecycle.thy ===== *)
theory Background_Lifecycle
  imports Background_Safety
begin

text \<open>
  The life of one job as its clients see it, the errors of the registry's calls, and a run of one
  job from its start to the end of the registry.
\<close>

section \<open>The life cycle\<close>

text \<open>
  The contract per identifier: a job is absent, starting, live on its thread, or finished with a
  snapshot. Only a start that failed goes back; a live job is never dropped before its result is
  recorded; the snapshot of a finished job does not change until the job is pruned.
\<close>

datatype job_phase = Absent | Starting | Live | Finished job_snapshot

inductive phase_step :: "job_registry_options \<Rightarrow> job_phase \<Rightarrow> job_phase \<Rightarrow> bool" for options where
  phase_same: "phase_step options p p"
| phase_admitted: "phase_step options Absent Starting"
| phase_start_failed: "phase_step options Starting Absent"
| phase_spawned: "phase_step options Starting Live"
| phase_finished: "snapshot_ok options sn \<Longrightarrow> job_is_terminal (js_state sn) \<Longrightarrow> phase_step options Live (Finished sn)"
| phase_pruned: "phase_step options (Finished sn) Absent"

definition phase_of_record :: "job_record \<Rightarrow> job_phase" where
  "phase_of_record b =
     (if job_is_terminal (js_state (jb_snapshot b)) then Finished (jb_snapshot b) else if jb_thread b = NoThread then Starting else Live)"

definition phase_of :: "job_registry \<Rightarrow> string \<Rightarrow> job_phase" where
  "phase_of s k = (case find_record_locked k s of None \<Rightarrow> Absent | Some r \<Rightarrow> phase_of_record (jr_heap s ! r))"

lemma phase_kept:
  assumes "table_ok s" "jr_jobs s' = jr_jobs s" "\<And>r. r < length (jr_heap s) \<Longrightarrow> phase_of_record (jr_heap s' ! r) = phase_of_record (jr_heap s ! r)"
  shows "phase_of s' k = phase_of s k"
proof (cases "find_record_locked k s")
  case (Some r)
  then have "r < length (jr_heap s)" using find_record_iff [OF assms(1)] table_okD(3) [OF assms(1)] by blast
  with Some assms(2,3) show ?thesis by (simp add: phase_of_def find_record_locked_def)
qed (use assms(2) in \<open>simp add: phase_of_def find_record_locked_def\<close>)

text \<open>One record changes; the others and the table do not.\<close>

lemma phase_changed:
  assumes "table_ok s" "r < length (jr_heap s)" "phase_step options (phase_of_record (jr_heap s ! r)) (phase_of_record (f (jr_heap s ! r)))"
  shows "phase_step options (phase_of s k) (phase_of (with_record r f s) k)"
proof (cases "find_record_locked k s")
  case (Some i)
  then have "i < length (jr_heap s)" using find_record_iff [OF assms(1)] table_okD(3) [OF assms(1)] by blast
  with Some assms(3) show ?thesis by (simp add: phase_of_def find_record_locked_def with_record_nth phase_same)
qed (simp add: phase_of_def find_record_locked_def phase_same)

lemma phase_removed:
  assumes "table_ok s" "jr_jobs s' = filter P (jr_jobs s)" "jr_heap s' = jr_heap s"
    "\<And>r. (k, r) \<in> set (jr_jobs s) \<Longrightarrow> \<not> P (k, r) \<Longrightarrow> phase_step options (phase_of_record (jr_heap s ! r)) Absent"
  shows "phase_step options (phase_of s k) (phase_of s' k)"
proof -
  have "distinct (map fst (filter P (jr_jobs s)))" using table_okD(1) [OF assms(1)] by (rule distinct_map_filter)
  then have f: "map_of (filter P (jr_jobs s)) k = Some r \<longleftrightarrow> (k, r) \<in> set (jr_jobs s) \<and> P (k, r)" for r by simp
  show ?thesis
  proof (cases "find_record_locked k s")
    case None
    then have "find_record_locked k s' = None"
      using f find_record_iff [OF assms(1), of k] by (cases "map_of (filter P (jr_jobs s)) k") (auto simp: find_record_locked_def assms(2))
    then show ?thesis using None by (simp add: phase_of_def phase_same)
  next
    case (Some r)
    then have r: "(k, r) \<in> set (jr_jobs s)" using find_record_iff [OF assms(1)] by simp
    show ?thesis
    proof (cases "P (k, r)")
      case True
      then have "find_record_locked k s' = Some r" using f r by (simp add: find_record_locked_def assms(2))
      then show ?thesis using Some by (simp add: phase_of_def phase_same assms(3))
    next
      case False
      then have "find_record_locked k s' = None"
        using f False table_okD(5) [OF assms(1) r] unfolding find_record_locked_def assms(2) by (metis not_Some_eq)
      then show ?thesis using Some assms(4) [OF r False] by (simp add: phase_of_def)
    qed
  qed
qed

lemma join_end_phase:
  assumes "jobs_inv s" "jr_joins s = xs @ c # ys" "jn_pending c = []"
  shows "phase_step options (phase_of s k) (phase_of (join_end c (s\<lparr>jr_joins := xs @ ys\<rparr>)) k)"
proof -
  define t where "t = join_marks c (s\<lparr>jr_joins := xs @ ys\<rparr>)"
  have t: "jobs_inv t" "released (s\<lparr>jr_joins := xs @ ys\<rparr>) t" using join_marks_inv [OF assms] by (simp_all add: t_def)
  have e: "join_end c (s\<lparr>jr_joins := xs @ ys\<rparr>) = t \<or> join_end c (s\<lparr>jr_joins := xs @ ys\<rparr>) = prune_retained_finished_jobs_locked t"
    unfolding t_def by (rule join_end_marks)
  have table: "table_ok s" "table_ok t" using assms(1) t(1) by (simp_all add: jobs_inv_def registry_ok_def)
  have same: "phase_of t k = phase_of s k" using t(2) by (intro phase_kept [OF table(1)]) (auto simp: released_def phase_of_record_def)
  obtain K where K: "prune_retained_finished_jobs_locked t = t\<lparr>jr_jobs := filter (\<lambda>(k, r). k \<notin> K) (jr_jobs t)\<rparr>"
    "\<And>k r. (k, r) \<in> set (jr_jobs t) \<Longrightarrow> k \<in> K \<Longrightarrow> is_retained t (k, r)"
    using prune_jobs [OF table(2)] by blast
  have "phase_step options (phase_of t k) (phase_of (prune_retained_finished_jobs_locked t) k)"
    unfolding K(1) using K(2) by (intro phase_removed [OF table(2)]) (auto simp: phase_of_record_def is_retained_def phase_pruned)
  then show ?thesis using e same by (auto simp: phase_same)
qed

lemma admit_phase:
  assumes "table_ok s" "start_request worker pre draws start now s = Inr (sn, r, s')"
  shows "phase_step options (phase_of s k) (phase_of s' k)"
  using assms(2)
proof (rule start_requestE)
  fix j
  assume r: "r = length (jr_heap s)" and j: "j \<notin> fst ` set (jr_jobs s)" and sn: "sn = (new_snapshot (jr_options s) start now)\<lparr>js_job_id := j\<rparr>"
    and s': "s' = s\<lparr>jr_jobs := jr_jobs s @ [(j, r)],
       jr_heap := jr_heap s @ [\<lparr>jb_snapshot = sn, jb_stop_published = False, jb_stop_requested = False, jb_thread = NoThread, jb_joined = False, jb_joining = False\<rparr>],
       jr_starts := r # jr_starts s\<rparr>"
  have running: "js_state sn = JobRunning" by (simp add: sn new_snapshot_def case_prod_unfold Let_def)
  show ?thesis
  proof (cases "find_record_locked k s")
    case None
    then show ?thesis
      by (auto simp: phase_of_def find_record_locked_def s' map_add_def r phase_of_record_def running job_is_terminal_def phase_same phase_admitted)
  next
    case (Some i)
    then have i: "(k, i) \<in> set (jr_jobs s)" using find_record_iff [OF assms(1)] by simp
    then have "k \<noteq> j" "i < length (jr_heap s)" using j table_okD(3) [OF assms(1)] by force+
    with Some show ?thesis by (simp add: phase_of_def find_record_locked_def s' map_add_def nth_append phase_same)
  qed
qed

text \<open>Steps that keep every record's phase.\<close>

lemma mark_cancel_phase: "phase_of_record (b\<lparr>jb_snapshot := mark_cancel (jb_snapshot b)\<rparr>) = phase_of_record b"
  by (simp add: phase_of_record_def mark_cancel_def job_is_terminal_def)

lemma join_thread_phase:
  assumes "jobs_inv s" "jb_thread (jr_heap s ! r) \<noteq> ThreadRunning"
  shows "phase_of (join_thread r s) k = phase_of s k"
proof (rule phase_kept)
  show "table_ok s" using assms(1) by (simp add: jobs_inv_def registry_ok_def)
  fix i assume i: "i < length (jr_heap s)"
  have "record_ok (jr_options s) (jr_heap s ! i)" using assms(1) i by (simp add: jobs_inv_def registry_ok_def)
  then show "phase_of_record (jr_heap (join_thread r s) ! i) = phase_of_record (jr_heap s ! i)"
    using i assms(2) by (auto simp: join_thread_def joinable_def with_record_nth phase_of_record_def record_ok_def)
qed simp

lemma quiet_phase:
  assumes "jobs_inv s" "jr_jobs s' = jr_jobs s" "\<And>r. r < length (jr_heap s) \<Longrightarrow> phase_of_record (jr_heap s' ! r) = phase_of_record (jr_heap s ! r)"
  shows "phase_step options (phase_of s k) (phase_of s' k)"
  using phase_kept [OF _ assms(2,3), of k] assms(1) by (simp add: jobs_inv_def registry_ok_def phase_same)

lemma join_next_thread:
  assumes "jobs_inv s" "jr_joins s = xs @ c # ys" "r \<in> set (jn_pending c)"
  shows "jb_thread (jr_heap s ! r) \<noteq> ThreadRunning"
proof -
  have ok: "registry_ok s" and c: "call_ok s c" using assms(1,2) by (simp_all add: jobs_inv_def calls_ok_def)
  note table = registry_okD(1) [OF ok]
  obtain k where k: "(k, r) \<in> set (jr_jobs s)" using call_okD(1) [OF c assms(3)] by (auto simp: tabled_def)
  then have "js_job_id (snap s r) = k" by (rule table_okD(4) [OF table])
  then have "k \<in> set (call_ids s c)" using assms(3) by (auto simp: call_ids_def)
  then have "job_is_terminal (js_state (snap s r))" using call_okD(2) [OF c] table_okD(5) [OF table k] by blast
  then show ?thesis using registry_okD(5) [OF ok table_okD(3) [OF table k]] by (auto simp: record_ok_def)
qed

lemma exit_phase:
  assumes "jobs_inv s" "r < length (jr_heap s)" "jb_thread (jr_heap s ! r) = ThreadRunning"
  shows "phase_step (jr_options s) (phase_of s k) (phase_of (worker_exit r result stop later now s) k)"
proof -
  have ok: "registry_ok s" using assms(1) by (simp add: jobs_inv_def)
  then obtain c j where e: "worker_exit r result stop later now s = with_record r (\<lambda>b. b\<lparr>
      jb_snapshot := finished_snapshot (jr_options s) (normalize_completion j c) now (jb_snapshot b), jb_thread := ThreadExited\<rparr>) s"
    using worker_exit_record [OF _ assms(2,3)] by blast
  have b: "record_ok (jr_options s) (jr_heap s ! r)" using registry_okD(5) [OF ok assms(2)] .
  then have sn: "snapshot_ok (jr_options s) (finished_snapshot (jr_options s) (normalize_completion j c) now (snap s r))"
    by (intro finished_snapshot_ok) (simp add: record_ok_def)
  show ?thesis unfolding e
    using b assms(3) phase_finished [OF sn] normalize_completion_terminal [of j c]
    by (intro phase_changed [OF registry_okD(1) [OF ok] assms(2)]) (simp add: phase_of_record_def record_ok_def)
qed

lemma spawn_failed_phase:
  assumes "jobs_inv s" "r \<in> set (jr_starts s)" "jb_thread (jr_heap s ! r) = NoThread"
  shows "phase_step options (phase_of s k) (phase_of (snd (thread_failed r system_error cause s)) k)"
proof -
  have ok: "registry_ok s" using assms(1) by (simp add: jobs_inv_def)
  note table = registry_okD(1) [OF ok]
  have r: "r < length (jr_heap s)" "tabled s r" using registry_okD(3,6) [OF ok] assms(2) by (simp_all add: place_ok_def Let_def)
  then obtain j where j: "(j, r) \<in> set (jr_jobs s)" by (auto simp: tabled_def)
  then have id: "js_job_id (snap s r) = j" by (rule table_okD(4) [OF table])
  have "phase_of_record (jr_heap s ! r) = Starting"
    using registry_okD(5) [OF ok r(1)] assms(3) by (simp add: record_ok_def phase_of_record_def)
  then have "phase_step options (phase_of_record (jr_heap s ! i)) Absent" if "(k, i) \<in> set (jr_jobs s)" "k = j" for i
    using table_okD(5) [OF table j] that phase_start_failed by auto
  then show ?thesis
    by (intro phase_removed [OF table, where P = "\<lambda>(k2, r2). k2 \<noteq> j"]) (auto simp: thread_failed_def erase_job_def id Let_def)
qed

lemma spawn_phase:
  assumes "jobs_inv s" "r \<in> set (jr_starts s)" "jb_thread (jr_heap s ! r) = NoThread"
  shows "phase_step options (phase_of s k) (phase_of (thread_started r s) k)"
proof -
  have ok: "registry_ok s" using assms(1) by (simp add: jobs_inv_def)
  have "r < length (jr_heap s)" using registry_okD(3) [OF ok assms(2)] .
  then show ?thesis unfolding thread_started_def using registry_okD(5) [OF ok, of r] assms(3)
    by (intro phase_changed [OF registry_okD(1) [OF ok]]) (auto simp: phase_of_record_def record_ok_def phase_spawned)
qed

lemma publish_phase: "jobs_inv s \<Longrightarrow> phase_step options (phase_of s k) (phase_of (start_publish r s) k)"
  by (rule quiet_phase) (auto simp: start_publish_def with_record_nth phase_of_record_def)

lemma cancel_phase:
  assumes "jobs_inv s" "job_cancel job_id s = Inr (sn, s')"
  shows "phase_step options (phase_of s k) (phase_of s' k)"
proof -
  obtain r where "s' = (with_snapshot r mark_cancel s)\<lparr>jr_stops := stop_source_of s r @ jr_stops s\<rparr>"
    using assms(2) by (auto simp: job_cancel_def Let_def split: option.splits)
  then show ?thesis by (intro quiet_phase [OF assms(1)]) (auto simp: with_snapshot_nth mark_cancel_phase)
qed

lemma stop_phase: "jobs_inv s \<Longrightarrow> phase_step options (phase_of s k) (phase_of (request_stop r s) k)"
  by (rule quiet_phase) (auto simp: request_stop_def with_record_nth phase_of_record_def)

lemma stop_all_phase: "jobs_inv s \<Longrightarrow> phase_step options (phase_of s k) (phase_of (request_stop_all s) k)"
  using request_stop_all_heap [of s] by (intro quiet_phase) (auto simp: mark_cancel_phase)

lemma close_phase: "jobs_inv s \<Longrightarrow> phase_step options (phase_of s k) (phase_of (close_registry s) k)"
  by (rule quiet_phase) (auto simp: close_registry_def)

lemma joining_phase [simp]: "phase_of_record (b\<lparr>jb_joining := v\<rparr>) = phase_of_record b"
  by (simp add: phase_of_record_def)

lemma join_start_phase: "jobs_inv s \<Longrightarrow> phase_step options (phase_of s k) (phase_of (join_begin caller s) k)"
  using join_begin_heap [of caller s] by (intro quiet_phase) auto

lemma phase_of_calls [simp]: "phase_of (s\<lparr>jr_joins := xs\<rparr>) k = phase_of s k" "phase_of (s\<lparr>jr_join_alls := ys\<rparr>) k = phase_of s k"
  by (simp_all add: phase_of_def find_record_locked_def cong: option.case_cong)

lemma join_next_phase:
  assumes "jobs_inv s" "jr_joins s = xs @ c # ys" "jn_pending c = r # rs" "join_record r c s = (c2, s2)"
  shows "phase_step options (phase_of s k) (phase_of s2 k)"
proof -
  have "s2 = s \<or> s2 = join_thread r s" using assms(4) by (auto simp: join_record_def Let_def split: if_splits)
  then show ?thesis
    using join_thread_phase [OF assms(1) join_next_thread [OF assms(1,2), of r]] assms(3) by (auto simp: phase_same)
qed

lemma join_all_start_phase: "phase_step options (phase_of s k) (phase_of (join_all_begin caller s) k)"
  by (simp add: join_all_begin_def phase_same)

lemma join_all_next_phase:
  assumes "jobs_inv s" "can_join caller r s"
  shows "phase_step options (phase_of s k) (phase_of (join_all_record caller r s) k)"
  using join_thread_phase [OF assms(1)] assms(2) by (auto simp: join_all_record_def can_join_def phase_same)

lemma job_step_phase: "job_step s s' \<Longrightarrow> jobs_inv s \<Longrightarrow> phase_step (jr_options s) (phase_of s k) (phase_of s' k)"
proof (induction rule: job_step.induct)
  case (admit worker pre draws start now s sn r s')
  then show ?case using admit_phase by (auto simp: jobs_inv_def registry_ok_def)
next
  case (cancel job_id s sn s')
  then show ?case using cancel_phase by blast
qed (simp_all add: spawn_phase spawn_failed_phase publish_phase exit_phase stop_phase stop_all_phase close_phase join_start_phase join_next_phase
      join_end_phase join_all_start_phase join_all_next_phase phase_same)

text \<open>
  C16: the registry implements the life cycle. Whatever the threads do, every step takes every
  identifier from its phase to one that the contract allows: absent, starting, live, finished with a
  well-formed result that stays as it is, and absent again.
\<close>

theorem job_lifecycle:
  assumes "jobs_reachable options s" "job_step s s'"
  shows "phase_step options (phase_of s k) (phase_of s' k)"
  using job_step_phase [OF assms(2)] reachable_jobs_inv [OF assms(1)] by auto

section \<open>Pruning\<close>

lemma join_marks_options: "jr_options (join_marks c s) = jr_options s"
  using join_end_options [of c s] by (cases "jn_joined c = [] \<and> jn_skipped c = []")
    (auto simp: join_end_def join_marks_def prune_retained_finished_jobs_locked_def fold_erase Let_def split: if_splits)

lemma sorted_take_drop: "x \<in> set (take n (sort_key f xs)) \<Longrightarrow> y \<in> set (drop n (sort_key f xs)) \<Longrightarrow> f x \<le> f y"
proof -
  assume x: "x \<in> set (take n (sort_key f xs))" and y: "y \<in> set (drop n (sort_key f xs))"
  have "sorted (map f (take n (sort_key f xs)) @ map f (drop n (sort_key f xs)))"
    by (metis append_take_drop_id map_append sorted_sort_key)
  then show ?thesis using x y by (auto simp: sorted_append)
qed

lemma retained_snapshot_ids:
  assumes "table_ok s"
  shows "map js_job_id (map (\<lambda>(k, r). snap s r) (retained_jobs s)) = map fst (retained_jobs s)"
  using table_okD(4) [OF assms] by (auto simp: retained_jobs_def)

lemma retained_kept:
  assumes "table_ok s" "(k, r) \<in> set (retained_jobs s)"
  shows "k \<in> js_job_id ` set (pruned_snapshots s) \<longleftrightarrow> snap s r \<in> set (pruned_snapshots s)"
    "k \<notin> js_job_id ` set (pruned_snapshots s) \<Longrightarrow>
      snap s r \<in> set (drop (length (retained_jobs s) - max_retained_finished_jobs (jr_options s))
        (sort_key completion_key (map (\<lambda>(k, r). snap s r) (retained_jobs s))))"
proof -
  let ?sorted = "sort_key completion_key (map (\<lambda>(k, r). snap s r) (retained_jobs s))"
  let ?n = "length (retained_jobs s) - max_retained_finished_jobs (jr_options s)"
  have k: "js_job_id (snap s r) = k" using assms table_okD(4) [OF assms(1)] by (auto simp: retained_jobs_def)
  have inj: "snap s i = snap s r" if "(j, i) \<in> set (retained_jobs s)" "js_job_id (snap s i) = k" for j i
  proof -
    have i: "(j, i) \<in> set (jr_jobs s)" and r: "(k, r) \<in> set (jr_jobs s)" using that(1) assms(2) by (simp_all add: retained_jobs_def)
    have "j = k" using table_okD(4) [OF assms(1) i] that(2) by simp
    then show ?thesis using table_okD(5) [OF assms(1) r] i by simp
  qed
  have sub: "\<exists>j i. (j, i) \<in> set (retained_jobs s) \<and> sn = snap s i" if "sn \<in> set (pruned_snapshots s)" for sn
  proof -
    have "sn \<in> set ?sorted" using that unfolding pruned_snapshots_def by (rule in_set_takeD)
    then show ?thesis by auto
  qed
  show eq: "k \<in> js_job_id ` set (pruned_snapshots s) \<longleftrightarrow> snap s r \<in> set (pruned_snapshots s)"
  proof
    assume "k \<in> js_job_id ` set (pruned_snapshots s)"
    then obtain sn where sn: "sn \<in> set (pruned_snapshots s)" "js_job_id sn = k" by auto
    with sub [OF sn(1)] inj show "snap s r \<in> set (pruned_snapshots s)" by auto
  qed (use k in auto)
  have "set ?sorted = set (take ?n ?sorted) \<union> set (drop ?n ?sorted)" by (metis append_take_drop_id set_append)
  moreover have "snap s r \<in> set ?sorted" using assms(2) by force
  ultimately show "snap s r \<in> set (drop ?n ?sorted)" if "k \<notin> js_job_id ` set (pruned_snapshots s)"
    using that eq by (auto simp: pruned_snapshots_def)
qed

lemma distinct_map_sort: "distinct (map f xs) \<Longrightarrow> distinct (map f (sort_key g xs))"
  by (simp add: distinct_map)

lemma is_retained_jobs: "is_retained (s\<lparr>jr_jobs := js\<rparr>) = is_retained s"
  by (simp add: fun_eq_iff is_retained_def)

lemma prune_count:
  assumes "table_ok s"
  shows "length (retained_jobs (prune_retained_finished_jobs_locked s)) = min (length (retained_jobs s)) (max_retained_finished_jobs (jr_options s))"
proof -
  let ?K = "js_job_id ` set (pruned_snapshots s)" and ?n = "length (retained_jobs s) - max_retained_finished_jobs (jr_options s)"
  let ?snaps = "map (\<lambda>(k, r). snap s r) (retained_jobs s)"
  have d: "distinct (map fst (retained_jobs s))" unfolding retained_jobs_def using table_okD(1) [OF assms] by (rule distinct_map_filter)
  have "distinct (map js_job_id ?snaps)" unfolding retained_snapshot_ids [OF assms] by (rule d)
  then have "distinct (map js_job_id (sort_key completion_key ?snaps))"
    by (rule distinct_map_sort)
  then have dp: "distinct (map js_job_id (pruned_snapshots s))" unfolding pruned_snapshots_def take_map [symmetric] by (rule distinct_take)
  have "card ?K = length (map js_job_id (pruned_snapshots s))" using distinct_card [OF dp] by simp
  also have "\<dots> = ?n" by (simp add: pruned_snapshots_def)
  finally have card: "card ?K = ?n" .
  have sub: "?K \<subseteq> set (map fst (retained_jobs s))"
  proof -
    have "set (pruned_snapshots s) \<subseteq> set ?snaps" unfolding pruned_snapshots_def by (auto dest: in_set_takeD)
    then have "?K \<subseteq> set (map js_job_id ?snaps)" by auto
    then show ?thesis unfolding retained_snapshot_ids [OF assms] .
  qed
  have "retained_jobs (prune_retained_finished_jobs_locked s) = filter (\<lambda>(k, r). k \<notin> ?K) (retained_jobs s)"
    by (simp add: prune_pruned retained_jobs_def is_retained_jobs filter_filter conj_commute case_prod_unfold)
  moreover have "distinct (map fst (filter (\<lambda>(k, r). k \<notin> ?K) (retained_jobs s)))" using d by (rule distinct_map_filter)
  moreover have "set (map fst (filter (\<lambda>(k, r). k \<notin> ?K) (retained_jobs s))) = set (map fst (retained_jobs s)) - ?K" by force
  ultimately have "length (retained_jobs (prune_retained_finished_jobs_locked s)) = card (set (map fst (retained_jobs s)) - ?K)"
    using distinct_card by fastforce
  also have "\<dots> = length (retained_jobs s) - ?n" using distinct_card [OF d] sub card by (simp add: card_Diff_subset finite_subset)
  finally show ?thesis by simp
qed

text \<open>
  C23: joining finished jobs keeps the newest. When a call of \<^verbatim>\<open>join_finished\<close> that joined something ends, its
  jobs are marked and as many joined jobs are left as there were, or the limit if there were more; a
  job that runs or is not joined yet stays; and every job that was erased had finished no later than
  every joined job that is left.
\<close>

theorem job_pruning_oldest:
  assumes "jobs_reachable options s0" "jr_joins s0 = xs @ c # ys" "jn_pending c = []" "jn_joined c \<noteq> [] \<or> jn_skipped c \<noteq> []"
    "s = join_marks c (s0\<lparr>jr_joins := xs @ ys\<rparr>)" "s' = join_end c (s0\<lparr>jr_joins := xs @ ys\<rparr>)"
  shows "length (retained_jobs s') = min (length (retained_jobs s)) (max_retained_finished_jobs options) \<and>
    (\<forall>e \<in> set (jr_jobs s). e \<notin> set (jr_jobs s') \<longrightarrow> is_retained s e \<and>
       (\<forall>f \<in> set (retained_jobs s'). completion_key (snap s (snd e)) \<le> completion_key (snap s (snd f))))"
proof -
  have inv: "jobs_inv s0" and o0: "jr_options s0 = options" using reachable_jobs_inv [OF assms(1)] by simp_all
  have table: "table_ok s" using join_marks_inv [OF inv assms(2,3)] by (auto simp: assms(5) jobs_inv_def registry_ok_def)
  have o: "jr_options s = options" by (simp add: assms(5) o0 join_marks_options)
  have s': "s' = prune_retained_finished_jobs_locked s" using assms(4) by (auto simp: assms(5,6) join_end_def)
  let ?K = "js_job_id ` set (pruned_snapshots s)"
  have jobs: "jr_jobs s' = filter (\<lambda>(k, r). k \<notin> ?K) (jr_jobs s)" by (simp add: s' prune_pruned)
  have kept: "set (retained_jobs s') = {(k, r) \<in> set (retained_jobs s). k \<notin> ?K}"
    by (auto simp: retained_jobs_def s' prune_pruned is_retained_jobs)
  have "is_retained s (k, r) \<and> (\<forall>f \<in> set (retained_jobs s'). completion_key (snap s r) \<le> completion_key (snap s (snd f)))"
    if e: "(k, r) \<in> set (jr_jobs s)" and gone: "(k, r) \<notin> set (jr_jobs s')" for k r
  proof -
    have k: "k \<in> ?K" using e gone by (auto simp: jobs)
    have "is_retained s (k, r)" using pruned_retained [OF table e k] .
    then have r: "(k, r) \<in> set (retained_jobs s)" using e by (simp add: retained_jobs_def)
    then have pruned: "snap s r \<in> set (pruned_snapshots s)" using retained_kept(1) [OF table r] k by simp
    have "completion_key (snap s r) \<le> completion_key (snap s i)" if "(j, i) \<in> set (retained_jobs s')" for j i
    proof -
      from retained_kept(2) [OF table, of j i] that
      have "snap s i \<in> set (drop (length (retained_jobs s) - max_retained_finished_jobs (jr_options s))
          (sort_key completion_key (map (\<lambda>(k, r). snap s r) (retained_jobs s))))" by (simp add: kept)
      then show ?thesis by (rule sorted_take_drop [OF pruned [unfolded pruned_snapshots_def]])
    qed
    with \<open>is_retained s (k, r)\<close> show ?thesis by auto
  qed
  then have "\<forall>e \<in> set (jr_jobs s). e \<notin> set (jr_jobs s') \<longrightarrow> is_retained s e \<and>
      (\<forall>f \<in> set (retained_jobs s'). completion_key (snap s (snd e)) \<le> completion_key (snap s (snd f)))"
    by (metis prod.collapse)
  then show ?thesis using prune_count [OF table] by (simp add: s' o)
qed

section \<open>Errors\<close>

lemma allocate_supplied:
  "current \<noteq> [] \<Longrightarrow> ids \<noteq> [] \<Longrightarrow> allocate_id jobs True current ids = (if current \<in> fst ` set jobs then Inl current else Inr current)"
  by (cases ids) (auto simp: Let_def)

lemma allocate_generated:
  "\<forall>i \<in> set ids. i \<noteq> [] \<Longrightarrow>
    (if set ids \<subseteq> fst ` set jobs then allocate_id jobs False [] ids = Inl [] else \<exists>k. allocate_id jobs False [] ids = Inr k)"
  by (induction ids) (auto simp: Let_def)

text \<open>The errors of a start, in the order of the checks.\<close>

definition start_error :: "bool \<Rightarrow> preflight \<Rightarrow> (nat \<Rightarrow> nat \<times> nat) \<Rightarrow> job_start_options \<Rightarrow> job_registry \<Rightarrow> ava_error option" where
  "start_error worker pre draws start s =
     (if \<not> worker then Some (make_error InvalidArgument ''background job worker is unavailable'')
      else
        (case pre of
           Refused e \<Rightarrow> Some e
         | Threw cause \<Rightarrow> Some (with_context (make_error Unknown ''failed to prepare background job thread'') ''cause'' cause)
         | ThrewUnknown \<Rightarrow> Some (make_error Unknown ''failed to prepare background job thread'')
         | _ \<Rightarrow>
             if \<not> jr_accepting s then Some (make_error Tool ''background job registry is shutting down'')
             else if length [e \<leftarrow> jr_jobs s. is_running s e] \<ge> max_running_jobs (jr_options s) then
               Some (background_job_limit_error (max_running_jobs (jr_options s)))
             else if so_job_id start \<noteq> [] \<and> so_job_id start \<in> fst ` set (jr_jobs s) then Some (duplicate_job_id_error (so_job_id start))
             else if so_job_id start = [] \<and> set (generated_ids draws) \<subseteq> fst ` set (jr_jobs s) then Some (duplicate_job_id_error [])
             else None))"

lemma start_request_error: "start_request worker pre draws start now s = Inl e \<longleftrightarrow> start_error worker pre draws start s = Some e"
proof -
  define n where "n = new_snapshot (jr_options s) start now"
  have id: "js_job_id n = so_job_id start" by (simp add: n_def new_snapshot_def case_prod_unfold Let_def)
  have ids: "generated_ids draws \<noteq> []" "\<forall>i \<in> set (generated_ids draws). i \<noteq> []" using generated_ids_nonempty by (auto simp: generated_ids_def)
  have "start_admit draws n s = Inl e \<longleftrightarrow>
      (if \<not> jr_accepting s then Some (make_error Tool ''background job registry is shutting down'')
       else if length [e \<leftarrow> jr_jobs s. is_running s e] \<ge> max_running_jobs (jr_options s) then
         Some (background_job_limit_error (max_running_jobs (jr_options s)))
       else if so_job_id start \<noteq> [] \<and> so_job_id start \<in> fst ` set (jr_jobs s) then Some (duplicate_job_id_error (so_job_id start))
       else if so_job_id start = [] \<and> set (generated_ids draws) \<subseteq> fst ` set (jr_jobs s) then Some (duplicate_job_id_error [])
       else None) = Some e"
    using allocate_supplied [OF _ ids(1), of "so_job_id start" "jr_jobs s"] allocate_generated [OF ids(2), of "jr_jobs s"]
    by (cases "so_job_id start = []") (auto simp: start_admit_def running_job_count_locked_def id Let_def split: if_splits)
  then show ?thesis by (simp add: start_request_def start_error_def n_def split: preflight.splits)
qed


section \<open>A run of one job\<close>

text \<open>A registry for one running job that retains none.\<close>

definition small_options :: job_registry_options where
  "small_options = \<lparr>max_running_jobs = 1, max_retained_finished_jobs = 0, max_description_bytes = 4, max_final_text_bytes = 4\<rparr>"

definition sample_start :: job_start_options where
  "sample_start = \<lparr>so_job_id = ''a'', so_title = ''t'', so_description = ''long text'', so_subagent_type = [], so_child_session_id = [], so_child_session_path = []\<rparr>"

definition sample_completion :: job_completion where
  "sample_completion = \<lparr>jc_state = JobCompleted, jc_final_text = ''result'', jc_stop_reason = [], jc_error = None, jc_provider_iterations = 1, jc_tool_calls = 0, jc_tool_iterations = 0\<rparr>"

definition sample_admitted :: job_registry where
  "sample_admitted = (case start_request True NoPreflight (\<lambda>_. (0, 0)) sample_start ''1'' (empty_registry small_options) of Inr (sn, r, s) \<Rightarrow> s)"

definition sample_canceled :: job_registry where
  "sample_canceled = (case job_cancel ''a'' (thread_started 0 sample_admitted) of Inr (sn, s) \<Rightarrow> s)"

definition sample_published :: job_registry where
  "sample_published = start_publish 0 sample_canceled"

definition sample_finished :: job_registry where
  "sample_finished = worker_exit 0 (Returned sample_completion) False False ''2'' (request_stop 0 sample_published)"

definition sample_closed :: job_registry where
  "sample_closed = (join_all_record None 0 (join_all_begin None (close_registry sample_finished)))\<lparr>jr_join_alls := [(None, [])]\<rparr>"

definition sample_joined :: job_registry where
  "sample_joined =
     (let s = join_begin None sample_finished; (c, s2) = join_record 0 (hd (jr_joins s)) s in s2\<lparr>jr_joins := [c]\<rparr>)"

lemma sample_request: "start_request True NoPreflight (\<lambda>_. (0, 0)) sample_start ''1'' (empty_registry small_options) =
    Inr (snap sample_admitted 0, 0, sample_admitted)"
  by code_simp

lemma sample_cancel: "job_cancel ''a'' (thread_started 0 sample_admitted) = Inr (snap sample_canceled 0, sample_canceled)"
  by code_simp

lemma sample_reachable:
  "jobs_reachable small_options sample_admitted" "jobs_reachable small_options sample_canceled" "jobs_reachable small_options sample_published"
  "jobs_reachable small_options (request_stop 0 sample_published)" "jobs_reachable small_options sample_finished"
  "jobs_reachable small_options sample_closed"
proof -
  show admitted: "jobs_reachable small_options sample_admitted"
    by (rule jobs_reachable.step [OF jobs_reachable.empty job_step.admit [OF sample_request]])
  have "job_step sample_admitted (thread_started 0 sample_admitted)" by (rule job_step.spawn; code_simp)
  from jobs_reachable.step [OF admitted this]
  show canceled: "jobs_reachable small_options sample_canceled" by (rule jobs_reachable.step [OF _ job_step.cancel [OF sample_cancel]])
  have "job_step sample_canceled sample_published" unfolding sample_published_def by (rule job_step.publish; code_simp)
  from jobs_reachable.step [OF canceled this] show published: "jobs_reachable small_options sample_published" .
  have "job_step sample_published (request_stop 0 sample_published)" by (rule job_step.stop; code_simp)
  from jobs_reachable.step [OF published this] show stopped: "jobs_reachable small_options (request_stop 0 sample_published)" .
  have "job_step (request_stop 0 sample_published) sample_finished" unfolding sample_finished_def by (rule job_step.exit; code_simp)
  from jobs_reachable.step [OF stopped this] show finished: "jobs_reachable small_options sample_finished" .
  have begun: "jobs_reachable small_options (join_all_begin None (close_registry sample_finished))"
    by (rule jobs_reachable.step [OF jobs_reachable.step [OF finished job_step.close] job_step.join_all_start]) (simp add: close_registry_def)
  have j: "jr_join_alls (join_all_begin None (close_registry sample_finished)) = [] @ (None, [0]) # []" by code_simp
  have "can_join None 0 (join_all_begin None (close_registry sample_finished))" by code_simp
  from jobs_reachable.step [OF begun job_step.join_all_next [OF j this]] show "jobs_reachable small_options sample_closed"
    by (simp add: sample_closed_def)
qed


theorem job_cancel_delivered_witness:
  "(''a'', 0) \<in> set (jr_jobs sample_published) \<and> js_cancel_requested (snap sample_published 0) \<and>
   (jb_stop_requested (jr_heap sample_published ! 0) \<or> 0 \<in> set (jr_stops sample_published) \<or> 0 \<in> set (jr_starts sample_published))"
proof (intro conjI)
  show a: "(''a'', 0) \<in> set (jr_jobs sample_published)" by code_simp
  show b: "js_cancel_requested (snap sample_published 0)" by code_simp
  show "jb_stop_requested (jr_heap sample_published ! 0) \<or> 0 \<in> set (jr_stops sample_published) \<or> 0 \<in> set (jr_starts sample_published)"
    using job_cancel_delivered [OF sample_reachable(3) a b] by blast
qed

theorem job_shutdown_complete_witness:
  "(None, []) \<in> set (jr_join_alls sample_closed) \<and> 0 < length (jr_heap sample_closed) \<and> jb_thread (jr_heap sample_closed ! 0) \<noteq> ThreadRunning"
proof (intro conjI)
  show a: "(None, []) \<in> set (jr_join_alls sample_closed)" by code_simp
  show b: "0 < length (jr_heap sample_closed)" by code_simp
  show "jb_thread (jr_heap sample_closed ! 0) \<noteq> ThreadRunning" using job_shutdown_complete [OF sample_reachable(6) a b] by auto
qed

theorem job_lifecycle_witness: "phase_step small_options (phase_of (request_stop 0 sample_published) ''a'') (phase_of sample_finished ''a'')"
proof (rule job_lifecycle [OF sample_reachable(4)])
  show "job_step (request_stop 0 sample_published) sample_finished" unfolding sample_finished_def by (rule job_step.exit; code_simp)
qed

lemma sample_join_reachable: "jobs_reachable small_options sample_joined"
proof -
  have begun: "jobs_reachable small_options (join_begin None sample_finished)"
    by (rule jobs_reachable.step [OF sample_reachable(5) job_step.join_start])
  have j: "jr_joins (join_begin None sample_finished) = [] @ hd (jr_joins (join_begin None sample_finished)) # []"
    "jn_pending (hd (jr_joins (join_begin None sample_finished))) = 0 # []"
    "can_join (jn_caller (hd (jr_joins (join_begin None sample_finished)))) 0 (join_begin None sample_finished)" by code_simp+
  from jobs_reachable.step [OF begun job_step.join_next [OF j prod.collapse [symmetric]]] show ?thesis
    by (simp add: sample_joined_def Let_def case_prod_unfold)
qed

theorem job_pruning_oldest_witness:
  "length (retained_jobs (join_end (hd (jr_joins sample_joined)) (sample_joined\<lparr>jr_joins := []\<rparr>))) = 0 \<and>
   length (retained_jobs (join_marks (hd (jr_joins sample_joined)) (sample_joined\<lparr>jr_joins := []\<rparr>))) = 1"
proof -
  have j: "jr_joins sample_joined = [] @ hd (jr_joins sample_joined) # []" "jn_pending (hd (jr_joins sample_joined)) = []"
    "jn_joined (hd (jr_joins sample_joined)) \<noteq> [] \<or> jn_skipped (hd (jr_joins sample_joined)) \<noteq> []" by code_simp+
  have "length (retained_jobs (join_marks (hd (jr_joins sample_joined)) (sample_joined\<lparr>jr_joins := []\<rparr>))) = 1" by code_simp
  moreover have "max_retained_finished_jobs small_options = 0" by code_simp
  ultimately show ?thesis using job_pruning_oldest [OF sample_join_reachable j refl refl] by simp
qed


end
