(* ===== verification/Spec2Isabelle.thy ===== *)
theory Spec2Isabelle
  imports Command_Line Rules_Example Mutation_Queue Sse_Buffer Background_Lifecycle
begin

text \<open>
  A verification library for AVA, a coding agent in C++. All file names are below
  \<^verbatim>\<open>src/src/ava\<close>.

  \<^bold>\<open>The program.\<close> An agent loop sends a conversation to a model provider, reads the answer as a
  stream of server-sent events, and runs the tools the model calls: reading and changing files,
  running commands, starting background jobs. What stands between the model's wishes and the
  machine is the subject of this library. A command request becomes an intent (an argument
  vector or a raw shell line), the planner resolves it against the host into a sealed plan with
  a fingerprint, the policy classifies the plan, and the permission layer allows, asks or
  denies. Files are opened through anchors, directories held open that a path must stay beneath.
  Changes to the same file are serialized by the mutation queue. Background jobs are kept by a
  registry shared by all threads. Everything that is written or compared is bytes: JSON, UTF-8,
  paths, hashes.

  \<^bold>\<open>Conventions.\<close> A \<^verbatim>\<open>std::string\<close> is a list of characters, whose bytes are \<open>byte c\<close>. A
  \<^verbatim>\<open>Result<T>\<close> is a sum with the error on the left (\<open>Core_Error\<close>). A path is its text, with
  the operations of \<^verbatim>\<open>std::filesystem::path\<close> on it (\<open>Paths\<close>). Machine integers are words
  where they wrap (SHA-256, length fields) and numbers where they are only counted, copied or
  compared. The operating system is a parameter: a record of system calls (\<open>kernel\<close> of
  \<open>Anchors\<close>, \<open>host\<close> of \<open>Command_Discovery\<close>, \<open>permission_host\<close> of \<open>Permission\<close>, \<open>rule_host\<close> of \<open>Permission_Rules\<close>) that the
  definitions take as an argument, so that a theorem without further hypotheses holds for every
  filesystem. Clocks, drawn identifiers, workers and thread creation are arguments as well. A
  theorem with hypotheses is followed by a witness, which applies it to concrete data.

  \<^bold>\<open>Theories.\<close> In the order of their imports:

    \<^item> \<open>Prelude\<close>: fact collections, byte strings, list and option lemmas.
    \<^item> \<open>Text_Core\<close>: \<^verbatim>\<open>core/ascii.h\<close>, \<^verbatim>\<open>hex.h\<close>, \<^verbatim>\<open>text_case.h\<close>, \<^verbatim>\<open>string_utils.cpp\<close>.
    \<^item> \<open>Utf8\<close>: \<^verbatim>\<open>core/utf8.h\<close>, \<^verbatim>\<open>utf8_prefix.h\<close> and the UTF-8 part of \<^verbatim>\<open>core/json.cpp\<close>. The
      validator accepts exactly the encoded scalar values, the repair pass always produces valid
      text and changes only invalid text, the bounded prefix is the longest one. The locale
      \<open>scalar_decoder\<close> is the contract of a decoder.
    \<^item> \<open>Json_Lex\<close>, \<open>Json_Validator\<close>, \<open>Json_Fields\<close>: \<^verbatim>\<open>core/json.cpp\<close>. Escaping and reading
      back, equivalence of the recursive-descent validator with a grammar, and the field readers,
      which scan for a member without parsing. The locale \<open>string_aware\<close> is the contract of a
      scanner that steps over string literals; every such scanner of the file interprets it.
    \<^item> \<open>Paths\<close>, \<open>Core_Error\<close>: \<^verbatim>\<open>core/path.cpp\<close>, \<^verbatim>\<open>process_args.cpp\<close>, \<^verbatim>\<open>error.cpp\<close>, \<^verbatim>\<open>mode.cpp\<close>.
    \<^item> \<open>Command_Intent\<close>, \<open>Command_Line\<close>: \<^verbatim>\<open>command/intent.cpp\<close>. The compatibility parser accepts
      exactly the lines of a quoting grammar without shell features; argument vectors are bounded.
    \<^item> \<open>Anchors\<close>: \<^verbatim>\<open>core/AnchorSet.cpp\<close>, \<^verbatim>\<open>open_beneath.cpp\<close>, \<^verbatim>\<open>AnchorOpen.cpp\<close>. The chosen anchor
      is the longest one, the walk beneath it passes no link and no parent component, a read
      served outside the anchors really is outside, and the walk returns.
    \<^item> \<open>Command_Types\<close>, \<open>Command_Discovery\<close>, \<open>Command_Search\<close>, \<open>Command_Context\<close>:
      \<^verbatim>\<open>command/command.h\<close>, \<^verbatim>\<open>private_group.cpp\<close>, \<^verbatim>\<open>discovery.cpp\<close>.
    \<^item> \<open>Command_Policy\<close>: \<^verbatim>\<open>command/policy.cpp\<close>. Classifications are well formed, dangerous
      commands are critical, path arguments of recipes stay inside the workspace.
    \<^item> \<open>Sha256\<close>: \<^verbatim>\<open>core/sha256.h\<close>, equal to the padded reference on every input.
    \<^item> \<open>Command_Plan\<close>, \<open>Plan_Fingerprint\<close>, \<open>Plan_Safety\<close>, \<open>Plan_Example\<close>:
      \<^verbatim>\<open>command/environment.cpp\<close>, \<^verbatim>\<open>command_plan.cpp\<close>. The hashed bytes determine the sealed
      content (locale \<open>field_code\<close>, the contract of an encoder whose fields can be cut off the
      front of a text, interpreted for every part of a plan); a sealed plan keeps its directories
      apart; a fresh plan describes unchanged files. \<open>Plan_Example\<close> runs the whole planner on a
      small host and supplies the witnesses.
    \<^item> \<open>Permission\<close>, \<open>Permission_Safety\<close>, \<open>Permission_Recipe\<close>: \<^verbatim>\<open>permissions/permission.cpp\<close>.
      What is allowed without asking is inside the workspace, is no secret and respects plan
      mode; a sealed command allowed without asking is contained or harmless; what may be
      granted again is contained and carries no credential.
    \<^item> \<open>Permission_Rules\<close>, \<open>Rules_Safety\<close>, \<open>Rules_Example\<close>: \<^verbatim>\<open>permissions/permission_rules.cpp\<close>,
      \<^verbatim>\<open>permission_rule_matching.cpp\<close>, the path identities and protected files of \<^verbatim>\<open>permission_rule_path.cpp\<close>,
      the validation of \<^verbatim>\<open>permission_rule_codec.cpp\<close>. Matching is a choice by rank in which denies come
      first; a stored deny reaches every name of its file (locale \<open>deny_gate\<close>, the contract of
      a gate in front of a request, interpreted for the resolver and the preflight); a
      stored approval covers one recipe; rules made from drafts are valid.
    \<^item> \<open>Mutation_Queue\<close>: \<^verbatim>\<open>tools/mutation_queue.cpp\<close>. Exclusion, and absence of deadlock for
      every schedule.
    \<^item> \<open>Sse_Buffer\<close>: \<^verbatim>\<open>provider/parser_budget.h\<close>. The incremental buffer refines processing of
      the whole text by lines, and the budget bounds what a response can deliver.
    \<^item> \<open>Background_Jobs\<close>, \<open>Background_Safety\<close>, \<open>Background_Lifecycle\<close>:
      \<^verbatim>\<open>agent/background_job_registry.cpp\<close>, with \<^verbatim>\<open>core/ids.cpp\<close>. Critical sections are functions
      of the shared record, their interleavings the relation \<open>job_step\<close>. The invariant gives
      well-formed snapshots, delivered cancellations and complete shutdowns; every step
      implements the abstract life cycle of a job.

  \<^bold>\<open>Composition.\<close> The properties that span components follow the flow of a command:
  \<open>sealed_plan_isolated\<close> joins discovery, anchors and policy; \<open>fingerprint_binds_plan\<close> joins the
  encoders with SHA-256, a collision of which is the only way for two different plans to agree;
  \<open>allowed_sealed_command\<close> and \<open>reusable_grant_sound\<close> carry the policy's invariant through the
  plan and its metadata to the decision of the permission layer; \<open>stored_command_grant\<close> joins the stored
  rules with the metadata, the recipe keys and SHA-256: what an approval given once allows later.

  \<^bold>\<open>Bounds and fuel.\<close>
    \<^item> The JSON validator's mutually recursive methods take \<open>json_fuel\<close>, three units per byte and
      three more. The equivalence with the grammar is proved with this amount, so it is enough.
    \<^item> Following links may not end on an arbitrary filesystem. The value \<open>None\<close> of an anchored
      operation and of what is built on it means not returning; \<open>open_readable_returns\<close>
      shows that it does return where parent directories lead to the root.
    \<^item> The search for the closest existing ancestor of a rule's path makes the 256 rounds of the source.
    \<^item> Drawing a job identifier makes the eight attempts of the source.
    \<^item> The schedules of the mutation queue are bounded by \<open>queue_work\<close>, which every step decreases.
    \<^item> All other recursion is structural or has a termination proof.

  \<^bold>\<open>Deviations.\<close> The 64 round constants of SHA-256 are computed by the standard's rule, the cube
  roots of the first 64 primes, where the source lists them. Lemma \<open>sha256_constants_digest\<close> compares a
  61-bit polynomial digest of the source's list with that of the computed one, which is evidence
  for equality and not a proof of it. The path \<open>parent_path\<close> returns agrees with the library's up to
  repeated separators. Closing descriptors, erasing memory, moving ownership and the hooks for
  tests have no effect on the values and are left out.

  \<^bold>\<open>Not modelled.\<close>
    \<^item> The terminal interface, the front ends, the HTTP transport, plugin, MCP and LSP clients,
      process supervision and containment: drawing, sockets, pipes, signals, \<^verbatim>\<open>fork\<close> and
      kernel rule sets. Each step is a call whose meaning is that of a library or the kernel;
      whether containment is available is an argument of the permission model.
    \<^item> The session store, configuration and credentials, context loading, diagnostics: formats and
      crash behaviour of files, which need a model of the disk.
    \<^item> The agent's turn loop, the coordinators, subagents, tool dispatch and the tools: they compose the
      modelled layers with provider answers and file contents.
    \<^item> The provider families' request builders and event decoders; the decoder is a parameter
      of \<open>Sse_Buffer\<close>.
    \<^item> The text format of the permission rule files (\<^verbatim>\<open>parse_rules_file\<close>, \<^verbatim>\<open>rules_file_json\<close>), their locking and
      atomic replacement (\<^verbatim>\<open>permission_rule_file.cpp\<close>), and the checks of their directories. What the
      files yield, a list of rules or an error, is an argument of the matching.
\<close>

end
